(* ===== verification/Prelude.thy ===== *)
theory Prelude
  imports Main "HOL-Library.Word" "HOL-Library.Monad_Syntax"
begin

text \<open>
  The shared vocabulary of the development: C's 32-bit \<^verbatim>\<open>int\<close> as a wrapped HOL integer,
  the power-of-two ring index used by the three instance arrays, and the list and option
  lemmas the components have in common.

  A value of C type \<^verbatim>\<open>int\<close> is an \<open>int\<close> of HOL. The 32-bit width is written out with
  \<open>i32\<close> at every addition of the code on an instance id or a ballot; \<open>in_i32\<close> is the range
  in which \<open>i32\<close> does nothing. C leaves signed overflow undefined; \<open>i32\<close> is what the
  two's complement machines the library targets compute.
\<close>

named_theorems c_simps \<open>evaluation of machine arithmetic and of the configuration constants\<close>
named_theorems frame \<open>fields an operation leaves alone\<close>

section \<open>Machine integers\<close>

type_synonym byte = "8 word"

definition i32 :: "int \<Rightarrow> int" where
  "i32 x = (x + 2147483648) mod 4294967296 - 2147483648"

definition in_i32 :: "int \<Rightarrow> bool" where
  "in_i32 x \<longleftrightarrow> - 2147483648 \<le> x \<and> x < 2147483648"

text \<open>The implicit conversion of an \<^verbatim>\<open>int\<close> operand to \<^verbatim>\<open>size_t\<close> (64 bits).\<close>

definition to_size_t :: "int \<Rightarrow> 64 word" where
  "to_size_t x = word_of_int x"

lemma i32_id [simp]: "- 2147483648 \<le> x \<Longrightarrow> x < 2147483648 \<Longrightarrow> i32 x = x"
  by (simp add: i32_def)

lemma in_i32_i32 [simp]: "in_i32 (i32 x)"
proof -
  have "0 \<le> (x + 2147483648) mod 4294967296" and "(x + 2147483648) mod 4294967296 < 4294967296"
    by simp_all
  then show ?thesis unfolding in_i32_def i32_def by linarith
qed

lemma i32_in [simp]: "in_i32 x \<Longrightarrow> i32 x = x"
  by (simp add: in_i32_def)

lemma i32_add_right: "i32 (y + i32 x) = i32 (y + x)"
proof -
  have "y + i32 x + 2147483648 = y + (x + 2147483648) mod 4294967296" by (simp add: i32_def)
  then show ?thesis unfolding i32_def [of "y + i32 x"] by (simp add: i32_def mod_add_right_eq algebra_simps)
qed

lemma to_size_t_diff: "to_size_t a - to_size_t b = to_size_t (a - b)"
  by (simp add: to_size_t_def)

lemma to_size_t_eq:
  assumes "0 \<le> a" "a < 2147483648" "0 \<le> b" "b < 2147483648"
  shows "to_size_t a = to_size_t b \<longleftrightarrow> a = b"
proof -
  have "uint (to_size_t x) = x" if "0 \<le> x" "x < 2147483648" for x
    using that by (simp add: to_size_t_def uint_word_of_int)
  then show ?thesis using assms by metis
qed

lemma to_size_t_less:
  assumes "0 \<le> a" "a < 2147483648" "0 \<le> b" "b < 2147483648"
  shows "to_size_t a < to_size_t b \<longleftrightarrow> a < b"
proof -
  have small: "take_bit 64 x = x" if "0 \<le> x" "x < 2147483648" for x :: int
    using that by (intro take_bit_int_eq_self) simp_all
  show ?thesis
    using small [OF assms(1,2)] small [OF assms(3,4)] assms
    by (simp add: to_size_t_def word_less_def unsigned_of_int)
qed

lemma i32_mod [simp]: "i32 (x mod 4294967296) = i32 x"
  unfolding i32_def by (simp add: mod_add_left_eq)

lemma i32_mod_dvd:
  assumes "d dvd 4294967296"
  shows "i32 x mod d = x mod d"
proof -
  have "i32 x - x = - (4294967296 * ((x + 2147483648) div 4294967296))"
    unfolding i32_def by (simp add: minus_div_mult_eq_mod [symmetric])
  with assms have "d dvd i32 x - x" by simp
  then show ?thesis by (simp add: mod_eq_dvd_iff)
qed

section \<open>The ring index\<close>

text \<open>
  The macros \<^verbatim>\<open>GET_ACC_INDEX\<close>, \<^verbatim>\<open>GET_LEA_INDEX\<close> and \<^verbatim>\<open>GET_PRO_INDEX\<close> share one shape:
  a mask with the array size less one.
\<close>

definition ring_index :: "int \<Rightarrow> int \<Rightarrow> nat" where
  "ring_index sz n = nat (and n (sz - 1))"

lemma ring_index_mod: "ring_index (2 ^ k) n = nat (n mod 2 ^ k)"
proof -
  have "and n (2 ^ k - 1) = take_bit k n"
    by (simp add: take_bit_eq_mask mask_eq_exp_minus_1)
  then show ?thesis by (simp add: ring_index_def take_bit_eq_mod)
qed

lemma ring_index_less: "ring_index (2 ^ k) n < 2 ^ k"
  by (simp add: ring_index_mod nat_less_iff)

lemma ring_index_eq_iff: "ring_index (2 ^ k) i = ring_index (2 ^ k) j \<longleftrightarrow> i mod 2 ^ k = j mod 2 ^ k"
  by (simp add: ring_index_mod eq_nat_nat_iff)

lemma ring_index_window:
  assumes "ring_index (2 ^ k) i = ring_index (2 ^ k) j" and "lo \<le> i" "i < lo + 2 ^ k"
    and "lo \<le> j" "j < lo + 2 ^ k"
  shows "i = j"
proof -
  from assms(1) have "i mod 2 ^ k = j mod 2 ^ k"
    by (simp only: ring_index_eq_iff)
  then have "(i - lo) mod 2 ^ k = (j - lo) mod 2 ^ k"
    by (rule mod_diff_cong) (rule refl)
  moreover have "(i - lo) mod 2 ^ k = i - lo" and "(j - lo) mod 2 ^ k = j - lo"
    using assms(2-5) by (auto intro!: mod_pos_pos_trivial)
  ultimately show ?thesis by linarith
qed

section \<open>Options and lists\<close>

text \<open>
  \<open>C_memcpy v n\<close> is the effect of \<^verbatim>\<open>memcpy(dst, v, n)\<close> on a fresh destination: \<open>None\<close> is the
  null pointer, which the code only passes together with a size of zero.
\<close>

definition C_memcpy :: "byte list option \<Rightarrow> int \<Rightarrow> byte list" where
  "C_memcpy v n = (case v of None \<Rightarrow> [] | Some bs \<Rightarrow> take (nat n) bs)"

lemma C_memcpy_None [simp]: "C_memcpy None n = []"
  by (simp add: C_memcpy_def)

lemma C_memcpy_Some [simp]: "C_memcpy (Some bs) n = take (nat n) bs"
  by (simp add: C_memcpy_def)

text \<open>A loop whose body may crash: the fold of an option-valued step.\<close>

fun ofold :: "('a \<Rightarrow> 's \<Rightarrow> 's option) \<Rightarrow> 'a list \<Rightarrow> 's \<Rightarrow> 's option" where
  "ofold f [] s = Some s"
| "ofold f (x # xs) s = (case f x s of None \<Rightarrow> None | Some s' \<Rightarrow> ofold f xs s')"

lemma ofold_append: "ofold f (xs @ ys) s = (case ofold f xs s of None \<Rightarrow> None | Some t \<Rightarrow> ofold f ys t)"
  by (induction xs arbitrary: s) (auto split: option.splits)

lemma ofold_invariant:
  assumes "\<And>x s s'. x \<in> set xs \<Longrightarrow> P s \<Longrightarrow> f x s = Some s' \<Longrightarrow> P s'"
    and "P s" and "ofold f xs s = Some t"
  shows "P t"
  using assms
proof (induction xs arbitrary: s)
  case Nil
  then show ?case by simp
next
  case (Cons x xs)
  from Cons.prems(3) obtain s' where s': "f x s = Some s'" and t: "ofold f xs s' = Some t"
    by (auto split: option.splits)
  have "P s'" using Cons.prems(1,2) s' by auto
  with Cons.IH [of s'] Cons.prems(1) t show ?case by auto
qed

lemma fold_invariant_set:
  assumes "\<And>x s. x \<in> set xs \<Longrightarrow> P s \<Longrightarrow> P (f x s)" and "P s"
  shows "P (fold f xs s)"
  using assms by (induction xs arbitrary: s) auto

end
