(* ===== verification/Config.thy ===== *)
theory Config
  imports Prelude
begin

text \<open>
  The compile-time configuration (\<^verbatim>\<open>config.h\<close>, \<^verbatim>\<open>libpaxos.h\<close>, \<^verbatim>\<open>include/libpaxos_priv.h\<close>), the
  index macros of the three instance arrays, and the quorum that leader and learner compute
  at start-up, with the locale of what the protocol asks of a quorum.
\<close>

section \<open>Constants\<close>

definition N_OF_ACCEPTORS :: int where "N_OF_ACCEPTORS = 3"
definition MAX_PROPOSERS :: int where "MAX_PROPOSERS = 10"
definition PAXOS_ACCEPTOR_FORCE_DISK_FLUSH :: int where "PAXOS_ACCEPTOR_FORCE_DISK_FLUSH = 0"
definition PROPOSER_PREEXEC_WIN_SIZE :: int where "PROPOSER_PREEXEC_WIN_SIZE = 50"
definition ACCEPTOR_ARRAY_SIZE :: int where "ACCEPTOR_ARRAY_SIZE = 1024"
definition LEARNER_ARRAY_SIZE :: int where "LEARNER_ARRAY_SIZE = 512"
definition PROPOSER_ARRAY_SIZE :: int where "PROPOSER_ARRAY_SIZE = 512"
definition MAX_UDP_MSG_SIZE :: int where "MAX_UDP_MSG_SIZE = 9000"
definition PAXOS_MAX_VALUE_SIZE :: int where "PAXOS_MAX_VALUE_SIZE = 8960"

lemmas config_defs [c_simps] =
  N_OF_ACCEPTORS_def MAX_PROPOSERS_def PAXOS_ACCEPTOR_FORCE_DISK_FLUSH_def
  PROPOSER_PREEXEC_WIN_SIZE_def ACCEPTOR_ARRAY_SIZE_def LEARNER_ARRAY_SIZE_def
  PROPOSER_ARRAY_SIZE_def MAX_UDP_MSG_SIZE_def PAXOS_MAX_VALUE_SIZE_def

text \<open>The timer periods, in milliseconds, and the verbosity of the log macro.\<close>

definition LEARNER_LSYNC_INTERVAL :: int where "LEARNER_LSYNC_INTERVAL = 100"
definition PROMISE_TIMEOUT :: int where "PROMISE_TIMEOUT = 20"
definition ACCEPT_TIMEOUT :: int where "ACCEPT_TIMEOUT = 20"
definition LEADER_P2_TIMEOUT :: int where "LEADER_P2_TIMEOUT = 40"
definition VERBOSITY_LEVEL :: int where "VERBOSITY_LEVEL = 0"

lemmas timer_defs = LEARNER_LSYNC_INTERVAL_def PROMISE_TIMEOUT_def ACCEPT_TIMEOUT_def LEADER_P2_TIMEOUT_def
  VERBOSITY_LEVEL_def

text \<open>The assignment each timer's set-up makes to its \<^verbatim>\<open>timeval\<close>.\<close>

record timeval =
  tv_sec :: int
  tv_usec :: int

definition interval_of :: "int \<Rightarrow> timeval" where
  "interval_of ms = \<lparr>tv_sec = ms div 1000, tv_usec = (ms mod 1000) * 1000\<rparr>"

lemma interval_of_exact:
  "0 \<le> ms \<Longrightarrow> 1000000 * tv_sec (interval_of ms) + tv_usec (interval_of ms) = 1000 * ms
     \<and> 0 \<le> tv_usec (interval_of ms) \<and> tv_usec (interval_of ms) < 1000000"
proof -
  have "1000 * (ms div 1000) + ms mod 1000 = ms" by simp
  then have "1000000 * (ms div 1000) + (ms mod 1000) * 1000 = 1000 * ms" by linarith
  moreover have "0 \<le> ms mod 1000" "ms mod 1000 < 1000" by simp_all
  ultimately show ?thesis by (simp add: interval_of_def)
qed

section \<open>Index macros\<close>

definition GET_ACC_INDEX :: "int \<Rightarrow> nat" where
  "GET_ACC_INDEX n = ring_index ACCEPTOR_ARRAY_SIZE n"

definition GET_LEA_INDEX :: "int \<Rightarrow> nat" where
  "GET_LEA_INDEX n = ring_index LEARNER_ARRAY_SIZE n"

definition GET_PRO_INDEX :: "int \<Rightarrow> nat" where
  "GET_PRO_INDEX n = ring_index PROPOSER_ARRAY_SIZE n"

text \<open>The comments of the header: equivalent to \<open>n\<close> modulo the (power of two) array size.\<close>

lemma GET_ACC_INDEX_mod: "GET_ACC_INDEX n = nat (n mod 1024)"
  using ring_index_mod [of 10 n] by (simp add: GET_ACC_INDEX_def c_simps)

lemma GET_LEA_INDEX_mod: "GET_LEA_INDEX n = nat (n mod 512)"
  using ring_index_mod [of 9 n] by (simp add: GET_LEA_INDEX_def c_simps)

lemma GET_PRO_INDEX_mod: "GET_PRO_INDEX n = nat (n mod 512)"
  using ring_index_mod [of 9 n] by (simp add: GET_PRO_INDEX_def c_simps)

lemma GET_ACC_INDEX_less [simp]: "GET_ACC_INDEX n < 1024"
  by (simp add: GET_ACC_INDEX_mod nat_less_iff)

lemma GET_LEA_INDEX_less [simp]: "GET_LEA_INDEX n < 512"
  by (simp add: GET_LEA_INDEX_mod nat_less_iff)

lemma GET_PRO_INDEX_less [simp]: "GET_PRO_INDEX n < 512"
  by (simp add: GET_PRO_INDEX_mod nat_less_iff)

lemma GET_LEA_INDEX_window:
  "GET_LEA_INDEX i = GET_LEA_INDEX j \<Longrightarrow> lo \<le> i \<Longrightarrow> i < lo + 512 \<Longrightarrow> lo \<le> j \<Longrightarrow> j < lo + 512 \<Longrightarrow> i = j"
  using ring_index_window [of 9 i j lo] by (simp add: GET_LEA_INDEX_def c_simps)

lemma GET_PRO_INDEX_window:
  "GET_PRO_INDEX i = GET_PRO_INDEX j \<Longrightarrow> lo \<le> i \<Longrightarrow> i < lo + 512 \<Longrightarrow> lo \<le> j \<Longrightarrow> j < lo + 512 \<Longrightarrow> i = j"
  using ring_index_window [of 9 i j lo] by (simp add: GET_PRO_INDEX_def c_simps)

section \<open>Quorums\<close>

text \<open>
  \<^verbatim>\<open>learner_init\<close> and \<^verbatim>\<open>leader_init\<close> compute \<^verbatim>\<open>1 + (int)((double)(N_OF_ACCEPTORS*2)/3)\<close>. The
  quotient of a small integer by 3 in double precision is on the same side of every integer as
  the exact quotient, so the truncation is the integer division.
\<close>

definition quorum_of :: "int \<Rightarrow> int" where
  "quorum_of n = 1 + (n * 2) div 3"

lemma quorum_of_bounds: "1 \<le> n \<Longrightarrow> 1 \<le> quorum_of n \<and> quorum_of n \<le> n"
  unfolding quorum_of_def by presburger

lemma quorum_of_two_thirds: "2 * n < 3 * quorum_of n"
  unfolding quorum_of_def by presburger

lemma quorum_of_acceptors [simp]: "quorum_of N_OF_ACCEPTORS = 3"
  by (simp add: quorum_of_def c_simps)

text \<open>
  What Fast Paxos asks of its quorums: they fit in the set of acceptors and are larger than
  two thirds of it, so that any three of them have a common member.
\<close>

locale quorum_system =
  fixes members :: "'a set" and quorum :: int
  assumes finite_members: "finite members"
    and quorum_fits: "quorum \<le> int (card members)"
    and quorum_large: "2 * int (card members) < 3 * quorum"
begin

lemma three_quorums_meet:
  assumes sub: "P \<subseteq> members" "Q \<subseteq> members" "R \<subseteq> members"
    and big: "quorum \<le> int (card P)" "quorum \<le> int (card Q)" "quorum \<le> int (card R)"
  shows "P \<inter> Q \<inter> R \<noteq> {}"
proof
  assume empty: "P \<inter> Q \<inter> R = {}"
  have fin: "finite P" "finite Q" "finite R"
    using sub finite_members by (auto intro: finite_subset)
  have "card (P \<union> Q) \<le> card members" and "card ((P \<inter> Q) \<union> R) \<le> card members"
    using sub finite_members by (auto intro!: card_mono)
  moreover have "card P + card Q = card (P \<union> Q) + card (P \<inter> Q)"
    using fin(1,2) by (rule card_Un_Int)
  moreover have "card (P \<inter> Q) + card R = card ((P \<inter> Q) \<union> R)"
    using fin empty card_Un_disjoint [of "P \<inter> Q" R] by simp
  ultimately show False using big quorum_large by linarith
qed

lemma two_quorums_meet:
  assumes "P \<subseteq> members" "Q \<subseteq> members"
    and "quorum \<le> int (card P)" "quorum \<le> int (card Q)"
  shows "P \<inter> Q \<noteq> {}"
  using three_quorums_meet [of P Q Q] assms by blast

end

definition acceptor_ids :: "int set" where
  "acceptor_ids = {0..<N_OF_ACCEPTORS}"

lemma card_acceptor_ids [simp]: "card acceptor_ids = nat N_OF_ACCEPTORS"
  by (simp add: acceptor_ids_def)

interpretation acceptors: quorum_system acceptor_ids "quorum_of N_OF_ACCEPTORS"
  by unfold_locales (simp_all add: c_simps acceptor_ids_def quorum_of_def)

end
