(* ===== verification/Wire.thy ===== *)
theory Wire
  imports Config
begin

text \<open>
  The messages of \<^verbatim>\<open>include/libpaxos_priv.h\<close> and their layout in a UDP datagram. The code
  writes and reads a message through struct pointers into a byte buffer, so a field is four
  bytes of host order (little endian here) at the offset the struct gives it, and a flexible
  array member starts where the fixed fields end.

  \<open>encode_packet\<close> is the content a sender's buffer has when it is handed to \<^verbatim>\<open>udp_send\<close>;
  the \<open>rd_\<close> functions are the reads a receiver does at an offset of its receive buffer, and
  are \<open>None\<close> where the read leaves that buffer. The round trip holds whatever an earlier,
  longer datagram left behind in the buffer.
\<close>

section \<open>Message structs\<close>

record prepare_msg =
  pm_iid :: int
  pm_ballot :: int

record promise_msg =
  prm_iid :: int
  prm_ballot :: int
  prm_value_ballot :: int
  prm_value_size :: int
  prm_value :: "byte list"

record accept_msg =
  acm_iid :: int
  acm_ballot :: int
  acm_value_size :: int
  acm_proposer_id :: int
  acm_value :: "byte list"

record learn_msg =
  lm_acceptor_id :: int
  lm_iid :: int
  lm_ballot :: int
  lm_proposer_id :: int
  lm_value_size :: int
  lm_value :: "byte list"

datatype packet =
    Prepare_Batch "prepare_msg list"
  | Accept accept_msg
  | Lsync "int list"
  | Promise_Batch int "promise_msg list"   \<comment> \<open>acceptor id, promises\<close>
  | Learn learn_msg
  | Anyval int "int list"                  \<comment> \<open>ballot, instance ids\<close>

definition PAXOS_PREPARE :: int where "PAXOS_PREPARE = 1"
definition PAXOS_ACCEPT :: int where "PAXOS_ACCEPT = 2"
definition PAXOS_LSYNC :: int where "PAXOS_LSYNC = 3"
definition PAXOS_PROMISE :: int where "PAXOS_PROMISE = 4"
definition PAXOS_LEARN :: int where "PAXOS_LEARN = 5"
definition PAXOS_ANYVAL :: int where "PAXOS_ANYVAL = 6"

lemmas type_defs [c_simps] =
  PAXOS_PREPARE_def PAXOS_ACCEPT_def PAXOS_LSYNC_def PAXOS_PROMISE_def PAXOS_LEARN_def
  PAXOS_ANYVAL_def

text \<open>The sizes of the fixed parts, as \<^verbatim>\<open>sizeof\<close> gives them.\<close>

definition sizeof_paxos_msg :: int where "sizeof_paxos_msg = 8"
definition sizeof_prepare_msg :: int where "sizeof_prepare_msg = 8"
definition sizeof_prepare_batch_msg :: int where "sizeof_prepare_batch_msg = 4"
definition sizeof_promise_msg :: int where "sizeof_promise_msg = 16"
definition sizeof_promise_batch_msg :: int where "sizeof_promise_batch_msg = 8"
definition sizeof_accept_msg :: int where "sizeof_accept_msg = 16"
definition sizeof_learn_msg :: int where "sizeof_learn_msg = 20"
definition sizeof_learner_sync_msg :: int where "sizeof_learner_sync_msg = 4"
definition sizeof_anyval_msg :: int where "sizeof_anyval_msg = 8"
definition sizeof_int :: int where "sizeof_int = 4"

lemmas sizeof_defs [c_simps] =
  sizeof_paxos_msg_def sizeof_prepare_msg_def sizeof_prepare_batch_msg_def
  sizeof_promise_msg_def sizeof_promise_batch_msg_def sizeof_accept_msg_def
  sizeof_learn_msg_def sizeof_learner_sync_msg_def sizeof_anyval_msg_def sizeof_int_def

section \<open>Writing\<close>

definition le32 :: "int \<Rightarrow> byte list" where
  "le32 x = map word_of_int [x, x div 256, x div 65536, x div 16777216]"

lemma length_le32 [simp]: "length (le32 x) = 4"
  by (simp add: le32_def)

definition prepare_bytes :: "prepare_msg \<Rightarrow> byte list" where
  "prepare_bytes m = le32 (pm_iid m) @ le32 (pm_ballot m)"

definition promise_bytes :: "promise_msg \<Rightarrow> byte list" where
  "promise_bytes m = le32 (prm_iid m) @ le32 (prm_ballot m) @ le32 (prm_value_ballot m)
     @ le32 (prm_value_size m) @ prm_value m"

definition accept_bytes :: "accept_msg \<Rightarrow> byte list" where
  "accept_bytes m = le32 (acm_iid m) @ le32 (acm_ballot m) @ le32 (acm_value_size m)
     @ le32 (acm_proposer_id m) @ acm_value m"

definition learn_bytes :: "learn_msg \<Rightarrow> byte list" where
  "learn_bytes m = le32 (lm_acceptor_id m) @ le32 (lm_iid m) @ le32 (lm_ballot m)
     @ le32 (lm_proposer_id m) @ le32 (lm_value_size m) @ lm_value m"

fun packet_type :: "packet \<Rightarrow> int" where
  "packet_type (Prepare_Batch _) = PAXOS_PREPARE"
| "packet_type (Accept _) = PAXOS_ACCEPT"
| "packet_type (Lsync _) = PAXOS_LSYNC"
| "packet_type (Promise_Batch _ _) = PAXOS_PROMISE"
| "packet_type (Learn _) = PAXOS_LEARN"
| "packet_type (Anyval _ _) = PAXOS_ANYVAL"

fun packet_data :: "packet \<Rightarrow> byte list" where
  "packet_data (Prepare_Batch ms) = le32 (int (length ms)) @ concat (map prepare_bytes ms)"
| "packet_data (Accept m) = accept_bytes m"
| "packet_data (Lsync is) = le32 (int (length is)) @ concat (map le32 is)"
| "packet_data (Promise_Batch a ms) =
     le32 a @ le32 (int (length ms)) @ concat (map promise_bytes ms)"
| "packet_data (Learn m) = learn_bytes m"
| "packet_data (Anyval b is) = le32 b @ le32 (int (length is)) @ concat (map le32 is)"

definition encode_packet :: "packet \<Rightarrow> byte list" where
  "encode_packet p = le32 (int (length (packet_data p))) @ le32 (packet_type p) @ packet_data p"

section \<open>Reading\<close>

fun int_of_le :: "byte list \<Rightarrow> int" where
  "int_of_le [] = 0"
| "int_of_le (b # bs) = uint b + 256 * int_of_le bs"

definition rd32 :: "byte list \<Rightarrow> nat \<Rightarrow> int option" where
  "rd32 buf off =
     (if off + 4 \<le> length buf then Some (i32 (int_of_le (take 4 (drop off buf)))) else None)"

definition rd_bytes :: "byte list \<Rightarrow> nat \<Rightarrow> int \<Rightarrow> byte list option" where
  "rd_bytes buf off n =
     (if 0 \<le> n \<and> off + nat n \<le> length buf then Some (take (nat n) (drop off buf)) else None)"

definition rd_prepare :: "byte list \<Rightarrow> nat \<Rightarrow> prepare_msg option" where
  "rd_prepare buf off = do {
     i \<leftarrow> rd32 buf off;
     b \<leftarrow> rd32 buf (off + 4);
     Some \<lparr>pm_iid = i, pm_ballot = b\<rparr> }"

text \<open>
  The value of a promise is read only when its value ballot says that there is one; otherwise the bytes
  behind the fields are shown as far as they are in the buffer.
\<close>

definition rd_promise :: "byte list \<Rightarrow> nat \<Rightarrow> promise_msg option" where
  "rd_promise buf off = do {
     i \<leftarrow> rd32 buf off;
     b \<leftarrow> rd32 buf (off + 4);
     vb \<leftarrow> rd32 buf (off + 8);
     n \<leftarrow> rd32 buf (off + 12);
     v \<leftarrow> (case rd_bytes buf (off + 16) n of
            Some v \<Rightarrow> Some v
          | None \<Rightarrow> if vb = -1 then Some [] else None);
     Some \<lparr>prm_iid = i, prm_ballot = b, prm_value_ballot = vb, prm_value_size = n, prm_value = v\<rparr> }"

definition rd_accept :: "byte list \<Rightarrow> nat \<Rightarrow> accept_msg option" where
  "rd_accept buf off = do {
     i \<leftarrow> rd32 buf off;
     b \<leftarrow> rd32 buf (off + 4);
     n \<leftarrow> rd32 buf (off + 8);
     p \<leftarrow> rd32 buf (off + 12);
     v \<leftarrow> rd_bytes buf (off + 16) n;
     Some \<lparr>acm_iid = i, acm_ballot = b, acm_value_size = n, acm_proposer_id = p, acm_value = v\<rparr> }"

definition rd_learn :: "byte list \<Rightarrow> nat \<Rightarrow> learn_msg option" where
  "rd_learn buf off = do {
     a \<leftarrow> rd32 buf off;
     i \<leftarrow> rd32 buf (off + 4);
     b \<leftarrow> rd32 buf (off + 8);
     p \<leftarrow> rd32 buf (off + 12);
     n \<leftarrow> rd32 buf (off + 16);
     v \<leftarrow> rd_bytes buf (off + 20) n;
     Some \<lparr>lm_acceptor_id = a, lm_iid = i, lm_ballot = b, lm_proposer_id = p,
       lm_value_size = n, lm_value = v\<rparr> }"

text \<open>The batch loops: \<open>n\<close> items from an offset that advances by the size of each item.\<close>

fun rd_prepares :: "byte list \<Rightarrow> nat \<Rightarrow> nat \<Rightarrow> prepare_msg list option" where
  "rd_prepares buf off 0 = Some []"
| "rd_prepares buf off (Suc n) = do {
     m \<leftarrow> rd_prepare buf off;
     ms \<leftarrow> rd_prepares buf (off + 8) n;
     Some (m # ms) }"

text \<open>
  The promises of a batch are read at \<^verbatim>\<open>batch->data[offset]\<close>, the array being 16 bytes into the packet; the
  \<^verbatim>\<open>int\<close> \<^verbatim>\<open>offset\<close> moves by a value size that nothing has checked, also backwards.
\<close>

fun rd_promises :: "byte list \<Rightarrow> int \<Rightarrow> nat \<Rightarrow> promise_msg list option" where
  "rd_promises buf off 0 = Some []"
| "rd_promises buf off (Suc n) =
     (if off < 0 then None
      else do {
        m \<leftarrow> rd_promise buf (nat off);
        ms \<leftarrow> rd_promises buf (16 + i32 (off + prm_value_size m)) n;
        Some (m # ms) })"

fun rd_ids :: "byte list \<Rightarrow> nat \<Rightarrow> nat \<Rightarrow> int list option" where
  "rd_ids buf off 0 = Some []"
| "rd_ids buf off (Suc n) = do {
     i \<leftarrow> rd32 buf off;
     is \<leftarrow> rd_ids buf (off + 4) n;
     Some (i # is) }"

text \<open>
  What a receiver finds at the data of the packet in its buffer, by the packet's type; a
  negative count makes the loops of the code run zero times.
\<close>

definition rd_packet :: "byte list \<Rightarrow> packet option" where
  "rd_packet buf = do {
     ty \<leftarrow> rd32 buf 4;
     if ty = PAXOS_PREPARE then do {
       n \<leftarrow> rd32 buf 8; ms \<leftarrow> rd_prepares buf 12 (nat n); Some (Prepare_Batch ms) }
     else if ty = PAXOS_ACCEPT then do { m \<leftarrow> rd_accept buf 8; Some (Accept m) }
     else if ty = PAXOS_LSYNC then do {
       n \<leftarrow> rd32 buf 8; is \<leftarrow> rd_ids buf 12 (nat n); Some (Lsync is) }
     else if ty = PAXOS_PROMISE then do {
       a \<leftarrow> rd32 buf 8; n \<leftarrow> rd32 buf 12; ms \<leftarrow> rd_promises buf 16 (nat n);
       Some (Promise_Batch a ms) }
     else if ty = PAXOS_LEARN then do { m \<leftarrow> rd_learn buf 8; Some (Learn m) }
     else if ty = PAXOS_ANYVAL then do {
       b \<leftarrow> rd32 buf 8; n \<leftarrow> rd32 buf 12; is \<leftarrow> rd_ids buf 16 (nat n); Some (Anyval b is) }
     else None }"

text \<open>
  \<^verbatim>\<open>recvfrom(fd, buffer, MAX_UDP_MSG_SIZE, ...)\<close> overwrites a prefix of the static receive
  buffer and leaves the rest as the previous datagrams left it; a longer datagram is cut.
\<close>

definition recv_into :: "byte list \<Rightarrow> byte list \<Rightarrow> byte list" where
  "recv_into buf dgram =
     take (length buf) dgram @ drop (length (take (length buf) dgram)) buf"

lemma length_recv_into [simp]: "length (recv_into buf d) = length buf"
  by (simp add: recv_into_def)

lemma recv_into_short: "length d \<le> length buf \<Longrightarrow> recv_into buf d = d @ drop (length d) buf"
  by (simp add: recv_into_def)

text \<open>
  The answer of \<^verbatim>\<open>recvfrom\<close>, and the check acceptor and learner make on what it delivered:
  the size field (an \<^verbatim>\<open>int\<close>) against the number of bytes received less the header, compared
  as \<^verbatim>\<open>size_t\<close>.
\<close>

datatype recv_result = Recv_Fail | Recv "byte list"

definition received :: "byte list \<Rightarrow> byte list \<Rightarrow> int" where
  "received buf dgram = int (length (take (length buf) dgram))"

definition size_matches :: "byte list \<Rightarrow> int \<Rightarrow> bool" where
  "size_matches buf msg_size =
     (case rd32 buf 0 of None \<Rightarrow> False
      | Some sz \<Rightarrow> to_size_t sz = to_size_t msg_size - to_size_t sizeof_paxos_msg)"

section \<open>Sizes\<close>

text \<open>
  \<open>wf_packet\<close> is what the senders keep: every field fits an \<^verbatim>\<open>int\<close>, a value size is the
  length of its value, and the whole packet is no longer than a datagram.
\<close>

definition wf_prepare :: "prepare_msg \<Rightarrow> bool" where
  "wf_prepare m \<longleftrightarrow> in_i32 (pm_iid m) \<and> in_i32 (pm_ballot m)"

definition wf_promise :: "promise_msg \<Rightarrow> bool" where
  "wf_promise m \<longleftrightarrow> in_i32 (prm_iid m) \<and> in_i32 (prm_ballot m) \<and> in_i32 (prm_value_ballot m)
     \<and> prm_value_size m = int (length (prm_value m)) \<and> in_i32 (int (length (prm_value m)))"

definition wf_accept :: "accept_msg \<Rightarrow> bool" where
  "wf_accept m \<longleftrightarrow> in_i32 (acm_iid m) \<and> in_i32 (acm_ballot m) \<and> in_i32 (acm_proposer_id m)
     \<and> acm_value_size m = int (length (acm_value m)) \<and> in_i32 (int (length (acm_value m)))"

definition wf_learn :: "learn_msg \<Rightarrow> bool" where
  "wf_learn m \<longleftrightarrow> in_i32 (lm_acceptor_id m) \<and> in_i32 (lm_iid m) \<and> in_i32 (lm_ballot m)
     \<and> in_i32 (lm_proposer_id m)
     \<and> lm_value_size m = int (length (lm_value m)) \<and> in_i32 (int (length (lm_value m)))"

fun wf_fields :: "packet \<Rightarrow> bool" where
  "wf_fields (Prepare_Batch ms) \<longleftrightarrow> list_all wf_prepare ms"
| "wf_fields (Accept m) \<longleftrightarrow> wf_accept m"
| "wf_fields (Lsync is) \<longleftrightarrow> list_all in_i32 is"
| "wf_fields (Promise_Batch a ms) \<longleftrightarrow> in_i32 a \<and> list_all wf_promise ms"
| "wf_fields (Learn m) \<longleftrightarrow> wf_learn m"
| "wf_fields (Anyval b is) \<longleftrightarrow> in_i32 b \<and> list_all in_i32 is"

definition wf_packet :: "packet \<Rightarrow> bool" where
  "wf_packet p \<longleftrightarrow> wf_fields p \<and> int (length (encode_packet p)) \<le> MAX_UDP_MSG_SIZE"

definition promise_size :: "promise_msg \<Rightarrow> int" where
  "promise_size m = sizeof_promise_msg + int (length (prm_value m))"

lemma length_prepare_bytes [simp]: "length (prepare_bytes m) = 8"
  by (simp add: prepare_bytes_def)

lemma length_promise_bytes: "length (promise_bytes m) = 16 + length (prm_value m)"
  by (simp add: promise_bytes_def)

lemma int_length_promise_bytes: "int (length (promise_bytes m)) = promise_size m"
  by (simp add: length_promise_bytes promise_size_def c_simps)

lemma length_concat_prepares: "length (concat (map prepare_bytes ms)) = 8 * length ms"
  by (induction ms) auto

lemma length_concat_ids: "length (concat (map le32 is)) = 4 * length is"
  by (induction "is") auto

lemma length_concat_promises:
  "int (length (concat (map promise_bytes ms))) = sum_list (map promise_size ms)"
  by (induction ms) (auto simp: int_length_promise_bytes)

lemma length_accept_bytes: "length (accept_bytes m) = 16 + length (acm_value m)"
  by (simp add: accept_bytes_def)

lemma length_learn_bytes: "length (learn_bytes m) = 20 + length (lm_value m)"
  by (simp add: learn_bytes_def)

lemma length_encode_packet: "length (encode_packet p) = 8 + length (packet_data p)"
  by (simp add: encode_packet_def)

text \<open>The number of bytes of each kind of packet, as the senders count it.\<close>

lemma size_Prepare_Batch: "int (length (encode_packet (Prepare_Batch ms))) = 12 + 8 * int (length ms)"
  by (simp add: length_encode_packet length_concat_prepares)

lemma size_Accept: "int (length (encode_packet (Accept m))) = 24 + int (length (acm_value m))"
  by (simp add: length_encode_packet length_accept_bytes)

lemma size_Lsync: "int (length (encode_packet (Lsync is))) = 12 + 4 * int (length is)"
  by (simp add: length_encode_packet length_concat_ids)

lemma size_Promise_Batch:
  "int (length (encode_packet (Promise_Batch a ms))) = 16 + sum_list (map promise_size ms)"
  by (simp add: length_encode_packet length_concat_promises)

lemma size_Learn: "int (length (encode_packet (Learn m))) = 28 + int (length (lm_value m))"
  by (simp add: length_encode_packet length_learn_bytes)

lemma size_Anyval: "int (length (encode_packet (Anyval b is))) = 16 + 4 * int (length is)"
  by (simp add: length_encode_packet length_concat_ids)

lemmas packet_sizes =
  size_Prepare_Batch size_Accept size_Lsync size_Promise_Batch size_Learn size_Anyval

section \<open>Sending\<close>

text \<open>
  A datagram is the multicast group it goes to, the number of bytes handed to \<^verbatim>\<open>sendto\<close> and
  the message in the buffer. What \<^verbatim>\<open>sendto\<close> answers is the kernel's choice, a parameter;
  \<open>udp_send\<close> is the result the library computes from it.
\<close>

datatype net = Learners_Net | Acceptors_Net | Proposers_Net

type_synonym datagram = "net \<times> int \<times> packet"

definition udp_send :: "(datagram \<Rightarrow> int) \<Rightarrow> datagram \<Rightarrow> int" where
  "udp_send sendto d =
     (let cnt = sendto d; sz = fst (snd d)
      in if cnt \<noteq> sz \<or> cnt = -1 then -1 else cnt)"

definition datagram_ok :: "datagram \<Rightarrow> bool" where
  "datagram_ok d = (case d of (_, n, p) \<Rightarrow> n = int (length (encode_packet p)) \<and> wf_packet p)"

lemma datagram_okI:
  "n = int (length (encode_packet p)) \<Longrightarrow> n \<le> MAX_UDP_MSG_SIZE \<Longrightarrow> wf_fields p \<Longrightarrow> datagram_ok (a, n, p)"
  by (simp add: datagram_ok_def wf_packet_def)

section \<open>Round trips\<close>

lemma uint_byte_of_int: "uint (word_of_int x :: byte) = x mod 256"
  by (simp add: uint_word_of_int)

lemma int_of_le_le32: "int_of_le (le32 x) = x mod 4294967296"
proof -
  have horner: "a + 256 * (b + 256 * (c + 256 * (d + 256 * 0)))
    = 16777216 * d + (65536 * c + (256 * b + a))" for a b c d :: int by simp
  have s1: "x mod 65536 = 256 * (x div 256 mod 256) + x mod 256"
    using zmod_zmult2_eq [of 256 x 256] by (simp only: mult_num_simps numeral_times_numeral) 
  have s2: "x mod 16777216 = 65536 * (x div 65536 mod 256) + x mod 65536"
    using zmod_zmult2_eq [of 256 x 65536] by (simp only: mult_num_simps numeral_times_numeral)
  have s3: "x mod 4294967296 = 16777216 * (x div 16777216 mod 256) + x mod 16777216"
    using zmod_zmult2_eq [of 256 x 16777216] by (simp only: mult_num_simps numeral_times_numeral)
  show ?thesis
    by (simp only: le32_def list.map int_of_le.simps uint_byte_of_int horner s3 s2 s1)
qed

lemma rd32_le32 [simp]: "in_i32 x \<Longrightarrow> rd32 (le32 x @ xs) 0 = Some x"
  by (simp add: rd32_def int_of_le_le32)

lemma rd32_skip [simp]: "length xs \<le> off \<Longrightarrow> rd32 (xs @ ys) off = rd32 ys (off - length xs)"
  by (auto simp: rd32_def)

lemma rd_bytes_skip [simp]:
  "length xs \<le> off \<Longrightarrow> rd_bytes (xs @ ys) off n = rd_bytes ys (off - length xs) n"
  by (auto simp: rd_bytes_def)

lemma rd_bytes_here [simp]: "rd_bytes (xs @ ys) 0 (int (length xs)) = Some xs"
  by (simp add: rd_bytes_def)

text \<open>A read behind a prefix is a read of the rest; a struct written is read back.\<close>

lemma rd_prepare_skip: "rd_prepare (pre @ ys) (length pre + k) = rd_prepare ys k"
  by (simp add: rd_prepare_def add.assoc)

lemma rd_promise_skip: "rd_promise (pre @ ys) (length pre + k) = rd_promise ys k"
  by (simp add: rd_promise_def add.assoc)

lemma rd_prepare_here: "wf_prepare m \<Longrightarrow> rd_prepare (prepare_bytes m @ xs) 0 = Some m"
  by (simp add: rd_prepare_def prepare_bytes_def wf_prepare_def)

lemma rd_promise_here: "wf_promise m \<Longrightarrow> rd_promise (promise_bytes m @ xs) 0 = Some m"
  by (simp add: rd_promise_def promise_bytes_def wf_promise_def)

lemma rd_accept_here: "wf_accept m \<Longrightarrow> rd_accept (accept_bytes m @ xs) 0 = Some m"
  by (simp add: rd_accept_def accept_bytes_def wf_accept_def)

lemma rd_learn_here: "wf_learn m \<Longrightarrow> rd_learn (learn_bytes m @ xs) 0 = Some m"
  by (simp add: rd_learn_def learn_bytes_def wf_learn_def)

lemma rd_accept_skip: "length pre = k \<Longrightarrow> rd_accept (pre @ ys) k = rd_accept ys 0"
  by (auto simp: rd_accept_def)

lemma rd_learn_skip: "length pre = k \<Longrightarrow> rd_learn (pre @ ys) k = rd_learn ys 0"
  by (auto simp: rd_learn_def)

lemma rd_prepares_here:
  "list_all wf_prepare ms \<Longrightarrow> length pre = k \<Longrightarrow>
   rd_prepares (pre @ concat (map prepare_bytes ms) @ xs) k (length ms) = Some ms"
proof (induction ms arbitrary: pre k)
  case Nil
  then show ?case by simp
next
  case (Cons m ms)
  have "rd_prepare (pre @ prepare_bytes m @ concat (map prepare_bytes ms) @ xs) k = Some m"
    using rd_prepare_skip [of pre _ 0] rd_prepare_here Cons.prems by simp
  with Cons.IH [of "pre @ prepare_bytes m" "k + 8"] Cons.prems show ?case by simp
qed

lemma rd_promises_here:
  "list_all wf_promise ms \<Longrightarrow> length pre = k \<Longrightarrow> int (length (pre @ concat (map promise_bytes ms))) < 2147483648 \<Longrightarrow>
   rd_promises (pre @ concat (map promise_bytes ms) @ xs) (int k) (length ms) = Some ms"
proof (induction ms arbitrary: pre k)
  case Nil
  then show ?case by simp
next
  case (Cons m ms)
  have "rd_promise (pre @ promise_bytes m @ concat (map promise_bytes ms) @ xs) k = Some m"
    using rd_promise_skip [of pre _ 0] rd_promise_here Cons.prems by simp
  moreover have size: "prm_value_size m = int (length (prm_value m))" using Cons.prems(1) by (simp add: wf_promise_def)
  then have "length (pre @ promise_bytes m) = k + 16 + length (prm_value m)"
    using Cons.prems(2) by (simp add: length_promise_bytes)
  moreover have "i32 (int k + prm_value_size m) = int k + prm_value_size m"
    using Cons.prems(2,3) size by (intro i32_id) (simp_all add: length_promise_bytes)
  ultimately show ?case
    using Cons.IH [of "pre @ promise_bytes m" "k + 16 + length (prm_value m)"] Cons.prems size
    by (simp add: algebra_simps)
qed

lemma rd_ids_here:
  "list_all in_i32 is \<Longrightarrow> length pre = k \<Longrightarrow>
   rd_ids (pre @ concat (map le32 is) @ xs) k (length is) = Some is"
proof (induction "is" arbitrary: pre k)
  case Nil
  then show ?case by simp
next
  case (Cons i "is")
  have "rd32 (pre @ le32 i @ concat (map le32 is) @ xs) k = Some i"
    using Cons.prems by simp
  with Cons.IH [of "pre @ le32 i" "k + 4"] Cons.prems show ?case by simp
qed

lemma rd32_encode_type: "rd32 (encode_packet p @ xs) 4 = Some (packet_type p)"
  by (cases p) (simp_all add: encode_packet_def c_simps in_i32_def)

lemma size_matches_encode:
  assumes "wf_packet p"
  shows "size_matches (encode_packet p @ xs) (int (length (encode_packet p)))"
proof -
  have "in_i32 (int (length (packet_data p)))"
    using assms by (simp add: wf_packet_def length_encode_packet c_simps in_i32_def)
  then have "rd32 (encode_packet p @ xs) 0 = Some (int (length (packet_data p)))"
    by (simp add: encode_packet_def)
  then show ?thesis
    by (simp add: size_matches_def length_encode_packet to_size_t_def c_simps)
qed

lemma rd_packet_encode:
  assumes "wf_packet p"
  shows "rd_packet (encode_packet p @ xs) = Some p"
proof -
  have len: "int (length (packet_data p)) \<le> 8992"
    using assms by (simp add: wf_packet_def length_encode_packet c_simps)
  show ?thesis
  proof (cases p)
    case (Prepare_Batch ms)
    with len have "in_i32 (int (length ms))"
      by (simp add: length_concat_prepares in_i32_def)
    with Prepare_Batch assms rd_prepares_here [of ms "le32 _ @ le32 _ @ le32 _" 12 xs]
    show ?thesis by (simp add: rd_packet_def encode_packet_def c_simps wf_packet_def in_i32_def)
  next
    case (Accept m)
    with assms rd_accept_skip [of "le32 _ @ le32 _" 8] rd_accept_here [of m xs]
    show ?thesis by (simp add: rd_packet_def encode_packet_def c_simps wf_packet_def in_i32_def)
  next
    case (Lsync "is")
    with len have "in_i32 (int (length is))"
      by (simp add: length_concat_ids in_i32_def)
    with Lsync assms rd_ids_here [of "is" "le32 _ @ le32 _ @ le32 _" 12 xs]
    show ?thesis by (simp add: rd_packet_def encode_packet_def c_simps wf_packet_def in_i32_def)
  next
    case (Promise_Batch a ms)
    have "length ms \<le> length (concat (map promise_bytes ms))"
      by (induction ms) (auto simp: length_promise_bytes)
    with Promise_Batch len have "in_i32 (int (length ms))" by (simp add: in_i32_def)
    with Promise_Batch assms rd_promises_here [of ms "le32 _ @ le32 _ @ le32 _ @ le32 _" 16 xs]
    show ?thesis by (simp add: rd_packet_def encode_packet_def c_simps wf_packet_def in_i32_def)
  next
    case (Learn m)
    with assms rd_learn_skip [of "le32 _ @ le32 _" 8] rd_learn_here [of m xs]
    show ?thesis by (simp add: rd_packet_def encode_packet_def c_simps wf_packet_def in_i32_def)
  next
    case (Anyval b "is")
    with len have "in_i32 (int (length is))"
      by (simp add: length_concat_ids in_i32_def)
    with Anyval assms rd_ids_here [of "is" "le32 _ @ le32 _ @ le32 _ @ le32 _" 16 xs]
    show ?thesis by (simp add: rd_packet_def encode_packet_def c_simps wf_packet_def in_i32_def)
  qed
qed

end
