(* ===== verification/Permastorage.thy ===== *)
theory Permastorage
  imports Wire
begin

text \<open>
  \<^verbatim>\<open>lib/acceptor_disk_helpers.c\<close>: the acceptor's record, its flattened form on disk, and the
  helpers over Berkeley DB. Berkeley DB itself is not part of the repository: it is the
  parameter \<open>bdb\<close>, a record of its operations over an abstract database state, and \<open>bdb_ok\<close>
  names the documented behaviour the acceptor relies on.

  The locale \<open>record_store\<close> is the contract the acceptor uses: what is read after a write. It
  carries the write-through lemmas of an array of records kept in front of such a store.
\<close>

section \<open>Records\<close>

record acceptor_record =
  ar_iid :: int
  ar_proposer_id :: int
  ar_ballot :: int
  ar_value_ballot :: int
  ar_value_size :: int
  ar_any_enabled :: int
  ar_value :: "byte list option"

text \<open>
  The flattened record on disk. \<^verbatim>\<open>disk_update_record\<close> assigns these fields only: the places of
  \<^verbatim>\<open>proposer_id\<close> and \<^verbatim>\<open>any_enabled\<close> in the block are never written.
\<close>

record flat_record =
  fl_iid :: int
  fl_ballot :: int
  fl_value_ballot :: int
  fl_value_size :: int
  fl_value :: "byte list"

record 's bdb =
  bdb_put :: "'s \<Rightarrow> 32 word \<Rightarrow> flat_record \<Rightarrow> int \<times> 's"
  bdb_get :: "'s \<Rightarrow> 32 word \<Rightarrow> int \<times> flat_record"
  bdb_sync :: "'s \<Rightarrow> int \<times> 's"
  DB_NOTFOUND :: int
  DB_KEYEMPTY :: int

section \<open>The disk helpers\<close>

text \<open>The key of an instance: its id plus one, as an unsigned record number.\<close>

definition recno :: "int \<Rightarrow> 32 word" where
  "recno iid = word_of_int (i32 (iid + 1))"

definition flatten :: "acceptor_record \<Rightarrow> flat_record" where
  "flatten r = \<lparr>fl_iid = ar_iid r, fl_ballot = ar_ballot r, fl_value_ballot = ar_value_ballot r,
     fl_value_size = ar_value_size r, fl_value = C_memcpy (ar_value r) (ar_value_size r)\<rparr>"

definition disk_force_syncrony :: "'s bdb \<Rightarrow> 's \<Rightarrow> int \<times> 's" where
  "disk_force_syncrony bdb s =
     (if PAXOS_ACCEPTOR_FORCE_DISK_FLUSH \<noteq> 0 then bdb_sync bdb s else (0, s))"

definition disk_update_record :: "'s bdb \<Rightarrow> acceptor_record \<Rightarrow> 's \<Rightarrow> int \<times> 's" where
  "disk_update_record bdb r s =
     (let (ret, s') = bdb_put bdb s (recno (ar_iid r)) (flatten r)
      in if ret \<noteq> 0 then (-1, s')
         else (ret, if PAXOS_ACCEPTOR_FORCE_DISK_FLUSH \<noteq> 0 then snd (bdb_sync bdb s') else s'))"

text \<open>
  A successful lookup copies the flattened fields into a fresh block; \<open>junk\<close> is what that block
  held when \<^verbatim>\<open>malloc\<close> returned it, and shows through in the two fields nothing assigns.
  \<^verbatim>\<open>malloc(0)\<close> yields a block, not the null pointer (as in glibc and on Mac OS X).
\<close>

definition unflatten :: "acceptor_record \<Rightarrow> flat_record \<Rightarrow> acceptor_record" where
  "unflatten junk f = junk\<lparr>ar_iid := fl_iid f, ar_ballot := fl_ballot f,
     ar_value_ballot := fl_value_ballot f, ar_value_size := fl_value_size f,
     ar_value := Some (take (nat (fl_value_size f)) (fl_value f))\<rparr>"

definition disk_lookup_record ::
    "'s bdb \<Rightarrow> acceptor_record \<Rightarrow> 's \<Rightarrow> int \<Rightarrow> acceptor_record option" where
  "disk_lookup_record bdb junk s instance_id =
     (let (ret, f) = bdb_get bdb s (recno instance_id)
      in if ret = DB_NOTFOUND bdb \<or> ret = DB_KEYEMPTY bdb then None
         else if ret \<noteq> 0 then None
         else Some (unflatten junk f))"

definition disk_lookup_ballot :: "'s bdb \<Rightarrow> 's \<Rightarrow> int \<Rightarrow> int" where
  "disk_lookup_ballot bdb s instance_id =
     (let (ret, f) = bdb_get bdb s (recno instance_id)
      in if ret = DB_NOTFOUND bdb \<or> ret = DB_KEYEMPTY bdb then 0
         else if ret \<noteq> 0 then -1
         else fl_ballot f)"

section \<open>What the helpers rely on\<close>

text \<open>
  Documented behaviour of a record-number database: record numbers start at 1; a put on a valid
  number succeeds (no disk failure is modelled) and a get of that number then returns its data;
  a put does not change what a get of another number returns, except that a missing record
  before the new end may turn from "not found" into "key empty"; a sync changes nothing.
\<close>

definition bdb_ok :: "'s bdb \<Rightarrow> bool" where
  "bdb_ok bdb \<longleftrightarrow>
     DB_NOTFOUND bdb \<noteq> 0 \<and> DB_KEYEMPTY bdb \<noteq> 0
   \<and> (\<forall>s k d. k \<noteq> 0 \<longrightarrow> fst (bdb_put bdb s k d) = 0)
   \<and> (\<forall>s k d. k \<noteq> 0 \<longrightarrow> bdb_get bdb (snd (bdb_put bdb s k d)) k = (0, d))
   \<and> (\<forall>s k k' d. k \<noteq> 0 \<and> k' \<noteq> k \<longrightarrow>
        (fst (bdb_get bdb (snd (bdb_put bdb s k d)) k') = 0 \<longleftrightarrow> fst (bdb_get bdb s k') = 0)
      \<and> (fst (bdb_get bdb s k') = 0 \<longrightarrow>
           bdb_get bdb (snd (bdb_put bdb s k d)) k' = bdb_get bdb s k'))
   \<and> (\<forall>s k. bdb_get bdb (snd (bdb_sync bdb s)) k = bdb_get bdb s k)"

lemma bdb_ok_codes: "bdb_ok bdb \<Longrightarrow> DB_NOTFOUND bdb \<noteq> 0 \<and> DB_KEYEMPTY bdb \<noteq> 0"
  unfolding bdb_ok_def by (elim conjE) (rule conjI)

lemma bdb_ok_put:
  assumes "bdb_ok bdb" and "k \<noteq> 0"
  shows "fst (bdb_put bdb s k d) = 0"
proof -
  have "\<forall>s k d. k \<noteq> 0 \<longrightarrow> fst (bdb_put bdb s k d) = 0"
    using assms(1) unfolding bdb_ok_def by (elim conjE) assumption
  then show ?thesis using assms(2) by (elim allE impE)
qed

lemma bdb_ok_get:
  assumes "bdb_ok bdb" and "k \<noteq> 0"
  shows "bdb_get bdb (snd (bdb_put bdb s k d)) k = (0, d)"
proof -
  have "\<forall>s k d. k \<noteq> 0 \<longrightarrow> bdb_get bdb (snd (bdb_put bdb s k d)) k = (0, d)"
    using assms(1) unfolding bdb_ok_def by (elim conjE) assumption
  then show ?thesis using assms(2) by (elim allE impE)
qed

lemma bdb_ok_other:
  assumes "bdb_ok bdb" and "k \<noteq> 0" and "k' \<noteq> k"
  shows "(fst (bdb_get bdb (snd (bdb_put bdb s k d)) k') = 0 \<longleftrightarrow> fst (bdb_get bdb s k') = 0)
   \<and> (fst (bdb_get bdb s k') = 0 \<longrightarrow>
        bdb_get bdb (snd (bdb_put bdb s k d)) k' = bdb_get bdb s k')"
proof -
  have "\<forall>s k k' d. k \<noteq> 0 \<and> k' \<noteq> k \<longrightarrow>
        (fst (bdb_get bdb (snd (bdb_put bdb s k d)) k') = 0 \<longleftrightarrow> fst (bdb_get bdb s k') = 0)
      \<and> (fst (bdb_get bdb s k') = 0 \<longrightarrow>
           bdb_get bdb (snd (bdb_put bdb s k d)) k' = bdb_get bdb s k')"
    using assms(1) unfolding bdb_ok_def by (elim conjE) assumption
  then show ?thesis using conjI [OF assms(2,3)] by (elim allE impE)
qed

text \<open>What is on disk for an instance.\<close>

definition disk_read :: "'s bdb \<Rightarrow> 's \<Rightarrow> int \<Rightarrow> flat_record option" where
  "disk_read bdb s i =
     (let (ret, f) = bdb_get bdb s (recno i) in if ret = 0 then Some f else None)"

definition disk_write :: "'s bdb \<Rightarrow> acceptor_record \<Rightarrow> 's \<Rightarrow> 's" where
  "disk_write bdb r s = snd (disk_update_record bdb r s)"

definition valid_iid :: "int \<Rightarrow> bool" where
  "valid_iid i \<longleftrightarrow> 0 \<le> i \<and> i < 2147483647"

lemma recno_valid: "valid_iid i \<Longrightarrow> uint (recno i) = i + 1"
proof -
  assume "valid_iid i"
  then have r: "0 \<le> i + 1" "i + 1 < 2147483648" by (simp_all add: valid_iid_def)
  have "uint (word_of_int (i + 1) :: 32 word) = (i + 1) mod 4294967296"
    by (simp only: uint_word_of_int) (simp add: take_bit_eq_mod)
  with r show ?thesis by (simp only: recno_def i32_id) simp
qed

lemma recno_nonzero: "valid_iid i \<Longrightarrow> recno i \<noteq> 0"
  using recno_valid [of i] by (auto simp: valid_iid_def)

lemma recno_inj: "valid_iid i \<Longrightarrow> valid_iid j \<Longrightarrow> recno i = recno j \<longleftrightarrow> i = j"
  by (simp only: word_uint_eq_iff recno_valid add_right_cancel)

lemma disk_write_put:
  assumes "bdb_ok bdb" and "valid_iid (ar_iid r)"
  shows "disk_write bdb r s = snd (bdb_put bdb s (recno (ar_iid r)) (flatten r))"
proof (cases "bdb_put bdb s (recno (ar_iid r)) (flatten r)")
  case (Pair ret s')
  with bdb_ok_put [OF assms(1) recno_nonzero [OF assms(2)], of s "flatten r"] have "ret = 0"
    by simp
  with Pair show ?thesis by (simp add: disk_write_def disk_update_record_def c_simps)
qed

lemma disk_read_get:
  "disk_read bdb s i =
     (if fst (bdb_get bdb s (recno i)) = 0 then Some (snd (bdb_get bdb s (recno i))) else None)"
  unfolding disk_read_def Let_def case_prod_unfold by (rule refl)

lemma disk_lookup_record_eq:
  assumes "bdb_ok bdb"
  shows "disk_lookup_record bdb junk s i = map_option (unflatten junk) (disk_read bdb s i)"
proof (cases "bdb_get bdb s (recno i)")
  case (Pair ret f)
  with bdb_ok_codes [OF assms] show ?thesis
    by (cases "ret = 0") (simp_all add: disk_lookup_record_def disk_read_get)
qed

lemma disk_lookup_ballot_eq:
  assumes "bdb_ok bdb" and "disk_read bdb s i = Some f"
  shows "disk_lookup_ballot bdb s i = fl_ballot f"
proof (cases "bdb_get bdb s (recno i)")
  case (Pair ret f)
  with bdb_ok_codes [OF assms(1)] assms(2) show ?thesis
    by (cases "ret = 0") (simp_all add: disk_lookup_ballot_def disk_read_get)
qed

text \<open>A lookup of a flattened record gives back its fields; the null value comes back empty.\<close>

lemma flatten_unflatten: "fl_value_size f = int (length (fl_value f)) \<Longrightarrow> flatten (unflatten junk f) = f"
  by (simp add: flatten_def unflatten_def)

section \<open>The contract of a record store, and an array of records in front of it\<close>

text \<open>
  An array in front of a store, indexed by instance id: the slot of an instance holds the
  highest instance written to it. Coherent means that the store knows every record of the
  array, and knows nothing of an instance above the one its slot holds.
\<close>

definition coherent ::
    "(int \<Rightarrow> 'f option) \<Rightarrow> ('r \<Rightarrow> int) \<Rightarrow> ('r \<Rightarrow> 'f) \<Rightarrow> (int \<Rightarrow> nat) \<Rightarrow> (nat \<Rightarrow> 'r) \<Rightarrow> bool" where
  "coherent rd key flat idx arr \<longleftrightarrow>
     (\<forall>i. valid_iid i \<longrightarrow>
        (key (arr (idx i)) = i \<longrightarrow> rd i = Some (flat (arr (idx i))))
      \<and> (key (arr (idx i)) < i \<longrightarrow> rd i = None))"

locale record_store =
  fixes ok :: "'b \<Rightarrow> bool"
    and wr :: "'b \<Rightarrow> 'r \<Rightarrow> 's \<Rightarrow> 's"
    and rd :: "'b \<Rightarrow> 's \<Rightarrow> int \<Rightarrow> 'f option"
    and key :: "'r \<Rightarrow> int"
    and flat :: "'r \<Rightarrow> 'f"
  assumes read_written: "ok b \<Longrightarrow> valid_iid (key r) \<Longrightarrow> rd b (wr b r s) (key r) = Some (flat r)"
    and read_other: "ok b \<Longrightarrow> valid_iid (key r) \<Longrightarrow> valid_iid i \<Longrightarrow> i \<noteq> key r \<Longrightarrow>
      rd b (wr b r s) i = rd b s i"
begin

lemma rd_wr:
  "ok b \<Longrightarrow> valid_iid (key r) \<Longrightarrow> valid_iid i \<Longrightarrow>
   rd b (wr b r s) i = (if i = key r then Some (flat r) else rd b s i)"
  using read_written read_other by auto

text \<open>Writing through: the newest instance of a slot goes to the array and to the store.\<close>

lemma coherent_write_through:
  assumes "ok b" "valid_iid (key r)"
    and "coherent (rd b s) key flat idx arr" and "key (arr (idx (key r))) \<le> key r"
  shows "coherent (rd b (wr b r s)) key flat idx (arr(idx (key r) := r))"
  using assms by (auto simp: coherent_def rd_wr)

text \<open>Writing past: an instance older than its slot goes to the store only.\<close>

lemma coherent_write_past:
  assumes "ok b" "valid_iid (key r)"
    and "coherent (rd b s) key flat idx arr" and "key r < key (arr (idx (key r)))"
  shows "coherent (rd b (wr b r s)) key flat idx arr"
  using assms by (auto simp: coherent_def rd_wr)

end

interpretation disk: record_store bdb_ok disk_write disk_read ar_iid flatten
proof unfold_locales
  fix b :: "'s bdb" and r :: acceptor_record and s
  assume ok: "bdb_ok b" and v: "valid_iid (ar_iid r)"
  show "disk_read b (disk_write b r s) (ar_iid r) = Some (flatten r)"
    using ok v by (simp add: disk_read_get disk_write_put bdb_ok_get recno_nonzero)
next
  fix b :: "'s bdb" and r :: acceptor_record and s i
  assume ok: "bdb_ok b" and v: "valid_iid (ar_iid r)" "valid_iid i" and ne: "i \<noteq> ar_iid r"
  from v ne have "recno i \<noteq> recno (ar_iid r)" by (simp add: recno_inj)
  with bdb_ok_other [OF ok recno_nonzero [OF v(1)], of "recno i" s "flatten r"]
  show "disk_read b (disk_write b r s) i = disk_read b s i"
    using ok v by (auto simp: disk_read_get disk_write_put)
qed

text \<open>A database kept as a map: an instance that satisfies the hypothesis.\<close>

definition map_bdb :: "(32 word \<Rightarrow> flat_record option) bdb" where
  "map_bdb = \<lparr>bdb_put = (\<lambda>s k d. (0, s(k := Some d))),
     bdb_get = (\<lambda>s k. case s k of
        None \<Rightarrow> (-30988, \<lparr>fl_iid = 0, fl_ballot = 0, fl_value_ballot = 0, fl_value_size = 0, fl_value = []\<rparr>)
      | Some d \<Rightarrow> (0, d)),
     bdb_sync = (\<lambda>s. (0, s)), DB_NOTFOUND = -30988, DB_KEYEMPTY = -30995\<rparr>"

lemma map_bdb_ok [simp]: "bdb_ok map_bdb"
  by (auto simp: bdb_ok_def map_bdb_def split: option.split)

section \<open>Opening and closing the database\<close>

text \<open>
  The calls on database files: \<^verbatim>\<open>remove\<close> of the C library, and Berkeley DB's \<^verbatim>\<open>db_create\<close>, \<^verbatim>\<open>open\<close>
  and \<^verbatim>\<open>close\<close>, over a state \<open>'f\<close> of the file system. Opening yields the database that is in the file,
  or a new one.
\<close>

datatype access_method = DB_BTREE | DB_RECNO | DB_HASH | DB_QUEUE

record ('f, 's) bdb_files =
  file_remove :: "string \<Rightarrow> 'f \<Rightarrow> 'f"
  db_create :: "'f \<Rightarrow> int \<times> 'f"
  db_open :: "access_method \<Rightarrow> string \<Rightarrow> 'f \<Rightarrow> int \<times> 's \<times> 'f"
  db_close :: "'s \<Rightarrow> 'f \<Rightarrow> int \<times> 'f"

text \<open>The access method the preprocessor selects: only \<^verbatim>\<open>BDB_USE_RECNO\<close> is defined.\<close>

definition configured_access_method :: access_method where
  "configured_access_method = DB_RECNO"

definition disk_init_permastorage :: "('f, 's) bdb_files \<Rightarrow> string \<Rightarrow> 'f \<Rightarrow> int \<times> 's option \<times> 'f" where
  "disk_init_permastorage lib acc_db_name fs =
     (let fs1 = file_remove lib acc_db_name fs;
          (ret, fs2) = db_create lib fs1
      in if ret \<noteq> 0 then (ret, None, fs2)
         else (let (ret2, db, fs3) = db_open lib configured_access_method acc_db_name fs2
               in if ret2 \<noteq> 0 then (ret2, None, fs3) else (0, Some db, fs3)))"

definition disk_cleanup_permastorage :: "('f, 's) bdb_files \<Rightarrow> 's \<Rightarrow> 'f \<Rightarrow> int \<times> 'f" where
  "disk_cleanup_permastorage lib db fs = db_close lib db fs"

text \<open>Documented behaviour: a database opened where its file was just removed has no record.\<close>

definition files_ok :: "'s bdb \<Rightarrow> ('f, 's) bdb_files \<Rightarrow> bool" where
  "files_ok bdb lib \<longleftrightarrow>
     (\<forall>m name fs db fs'. db_open lib m name (snd (db_create lib (file_remove lib name fs))) = (0, db, fs') \<longrightarrow>
        (\<forall>k. fst (bdb_get bdb db k) \<noteq> 0))"

lemma disk_init_empty:
  assumes "files_ok bdb lib" and "disk_init_permastorage lib name fs = (0, Some db, fs')"
  shows "disk_read bdb db i = None"
proof -
  obtain fs2 where "db_create lib (file_remove lib name fs) = (0, fs2)" "db_open lib configured_access_method name fs2 = (0, db, fs')"
    using assms(2) by (auto simp: disk_init_permastorage_def Let_def split: prod.splits if_splits)
  then have "\<forall>k. fst (bdb_get bdb db k) \<noteq> 0"
    using assms(1) unfolding files_ok_def by (metis snd_conv)
  then show ?thesis by (simp add: disk_read_get)
qed

lemma disk_init_result:
  "disk_init_permastorage lib name fs = (ret, db, fs') \<Longrightarrow> ret = 0 \<longleftrightarrow> db \<noteq> None"
  by (auto simp: disk_init_permastorage_def Let_def split: prod.splits if_splits)

text \<open>A file system kept as a map from names to databases: an instance that satisfies the hypothesis.\<close>

definition map_files :: "(string \<rightharpoonup> (32 word \<rightharpoonup> flat_record), 32 word \<rightharpoonup> flat_record) bdb_files" where
  "map_files = \<lparr>file_remove = (\<lambda>name fs. fs(name := None)), db_create = (\<lambda>fs. (0, fs)),
     db_open = (\<lambda>m name fs. (0, case fs name of None \<Rightarrow> Map.empty | Some db \<Rightarrow> db, fs)),
     db_close = (\<lambda>db fs. (0, fs))\<rparr>"

lemma map_files_ok [simp]: "files_ok map_bdb map_files"
  by (auto simp: files_ok_def map_bdb_def map_files_def)

end
