(* ===== verification/Acceptor.thy ===== *)
theory Acceptor
  imports Permastorage
begin

text \<open>
  \<^verbatim>\<open>lib/acceptor.c\<close>: the acceptor's state, one definition per function, in the order of the
  file. The static variables are the fields of \<open>acceptor\<close>; a pointer into
  \<^verbatim>\<open>acceptor_array\<close> is the slot's index, a pointer to a malloc'ed record is the record itself.
  The handlers return the \<^verbatim>\<open>int\<close> of the C function with the new state, and \<open>None\<close> where the
  code dereferences a null pointer.

  \<open>acc_env\<close> collects what is not the acceptor's own: the database, the answers of
  \<^verbatim>\<open>sendto\<close>, and the indeterminate contents of each block \<^verbatim>\<open>malloc\<close> returns (\<open>env_junk n\<close> for
  the \<open>n\<close>-th record allocated).
\<close>

section \<open>State\<close>

record 's acc_env =
  env_db :: "'s bdb"
  env_junk :: "nat \<Rightarrow> acceptor_record"
  env_sendto :: "datagram \<Rightarrow> int"

text \<open>
  The send buffer is kept as the promise batch under construction with
  \<^verbatim>\<open>send_buffer_size\<close>; a learn message is built in the same bytes and flushed at once, and
  every prepare batch starts by writing the batch header again.
\<close>

record 's acceptor =
  acceptor_id :: int
  acceptor_array :: "nat \<Rightarrow> acceptor_record"
  send_buffer_size :: int
  batch_acceptor_id :: int
  batch_promises :: "promise_msg list"
  acc_recv_buffer :: "byte list"
  acc_db :: 's
  acc_mallocs :: nat
  acc_sent :: "datagram list"

definition min_ballot :: int where
  "min_ballot = 2 * MAX_PROPOSERS"

section \<open>Sending\<close>

definition force_syncrony :: "'s acc_env \<Rightarrow> 's acceptor \<Rightarrow> 's acceptor" where
  "force_syncrony env st = st\<lparr>acc_db := snd (disk_force_syncrony (env_db env) (acc_db st))\<rparr>"

definition update_disk :: "'s acc_env \<Rightarrow> acceptor_record \<Rightarrow> 's acceptor \<Rightarrow> 's acceptor" where
  "update_disk env r st = st\<lparr>acc_db := disk_write (env_db env) r (acc_db st)\<rparr>"

definition set_slot :: "nat \<Rightarrow> acceptor_record \<Rightarrow> 's acceptor \<Rightarrow> 's acceptor" where
  "set_slot k r st = st\<lparr>acceptor_array := (acceptor_array st)(k := r)\<rparr>"

definition malloc_record :: "'s acc_env \<Rightarrow> 's acceptor \<Rightarrow> acceptor_record \<times> 's acceptor" where
  "malloc_record env st = (env_junk env (acc_mallocs st), st\<lparr>acc_mallocs := Suc (acc_mallocs st)\<rparr>)"

definition lookup_disk :: "'s acc_env \<Rightarrow> int \<Rightarrow> 's acceptor \<Rightarrow> acceptor_record option \<times> 's acceptor" where
  "lookup_disk env i st =
     (let (junk, st') = malloc_record env st
      in case disk_lookup_record (env_db env) junk (acc_db st) i of
           None \<Rightarrow> (None, st)
         | Some r \<Rightarrow> (Some r, st'))"

definition flush_send_buffer :: "'s acc_env \<Rightarrow> net \<Rightarrow> packet \<Rightarrow> 's acceptor \<Rightarrow> int \<times> 's acceptor" where
  "flush_send_buffer env addr msg st =
     (let d = (addr, send_buffer_size st, msg)
      in (udp_send (env_sendto env) d,
          st\<lparr>send_buffer_size := 0, acc_sent := acc_sent st @ [d]\<rparr>))"

definition flush_promises :: "'s acc_env \<Rightarrow> 's acceptor \<Rightarrow> 's acceptor" where
  "flush_promises env st =
     (let st1 = force_syncrony env st
      in snd (flush_send_buffer env Proposers_Net
           (Promise_Batch (batch_acceptor_id st1) (batch_promises st1)) st1))"

definition promise_of :: "acceptor_record \<Rightarrow> promise_msg" where
  "promise_of r = \<lparr>prm_iid = ar_iid r, prm_ballot = ar_ballot r,
     prm_value_ballot = ar_value_ballot r, prm_value_size = ar_value_size r,
     prm_value = (if ar_value_size r > 0 then C_memcpy (ar_value r) (ar_value_size r) else [])\<rparr>"

definition add_promise_to_send_buffer ::
    "'s acc_env \<Rightarrow> acceptor_record \<Rightarrow> 's acceptor \<Rightarrow> int \<times> 's acceptor" where
  "add_promise_to_send_buffer env r st =
     (let promise_sz = sizeof_promise_msg + ar_value_size r;
          st1 = (if promise_sz + send_buffer_size st > MAX_UDP_MSG_SIZE
                 then flush_promises env st else st);
          st2 = (if send_buffer_size st1 = 0
                 then st1\<lparr>batch_promises := [], batch_acceptor_id := acceptor_id st1,
                        send_buffer_size := send_buffer_size st1
                          + (sizeof_paxos_msg + sizeof_promise_batch_msg)\<rparr>
                 else st1)
      in (1, st2\<lparr>batch_promises := batch_promises st2 @ [promise_of r],
               send_buffer_size := send_buffer_size st2 + promise_sz\<rparr>))"

section \<open>Prepare\<close>

definition handle_prepare :: "'s acc_env \<Rightarrow> prepare_msg \<Rightarrow> 's acceptor \<Rightarrow> int \<times> 's acceptor" where
  "handle_prepare env msg st =
     (let k = GET_ACC_INDEX (pm_iid msg); r = acceptor_array st k
      in if pm_iid msg > ar_iid r then
           (let r' = r\<lparr>ar_iid := pm_iid msg, ar_ballot := pm_ballot msg, ar_value_ballot := -1,
                      ar_value_size := 0, ar_value := None\<rparr>
            in add_promise_to_send_buffer env r' (update_disk env r' (set_slot k r' st)))
         else if pm_iid msg = ar_iid r then
           (if pm_ballot msg \<le> ar_ballot r then (1, st)
            else (let r' = r\<lparr>ar_ballot := pm_ballot msg\<rparr>
                  in add_promise_to_send_buffer env r' (update_disk env r' (set_slot k r' st))))
         else
           (let (found, st1) = lookup_disk env (pm_iid msg) st;
                (r1, st2) = (case found of
                     None \<Rightarrow> (let (junk, st2) = malloc_record env st1
                              in (junk\<lparr>ar_iid := pm_iid msg, ar_ballot := -1,
                                    ar_value_ballot := -1, ar_value_size := 0,
                                    ar_value := None\<rparr>, st2))
                   | Some r1 \<Rightarrow> (r1, st1))
            in if pm_ballot msg > ar_ballot r1 then
                 (let r' = r1\<lparr>ar_ballot := pm_ballot msg\<rparr>
                  in add_promise_to_send_buffer env r' (update_disk env r' st2))
               else (0, st2)))"

definition handle_prepare_batch :: "'s acc_env \<Rightarrow> prepare_msg list \<Rightarrow> 's acceptor \<Rightarrow> int \<times> 's acceptor" where
  "handle_prepare_batch env bmsg st =
     (let st1 = st\<lparr>send_buffer_size := sizeof_paxos_msg + sizeof_promise_batch_msg,
                  batch_promises := [], batch_acceptor_id := acceptor_id st\<rparr>;
          st2 = fold (\<lambda>m s. snd (handle_prepare env m s)) bmsg st1;
          st3 = (if length (batch_promises st2) > 0 then flush_promises env st2 else st2)
      in (1, st3))"

section \<open>Accept\<close>

text \<open>The record after the update; the caller puts it back where \<^verbatim>\<open>rec\<close> points to.\<close>

definition accepted_record :: "acceptor_record \<Rightarrow> accept_msg \<Rightarrow> acceptor_record" where
  "accepted_record r amsg = r\<lparr>ar_iid := acm_iid amsg, ar_ballot := acm_ballot amsg,
     ar_value_ballot := acm_ballot amsg, ar_proposer_id := acm_proposer_id amsg,
     ar_value := Some (take (nat (acm_value_size amsg)) (acm_value amsg)),
     ar_value_size := acm_value_size amsg\<rparr>"

definition apply_accept ::
    "'s acc_env \<Rightarrow> acceptor_record \<Rightarrow> accept_msg \<Rightarrow> 's acceptor \<Rightarrow> acceptor_record \<times> 's acceptor" where
  "apply_accept env r amsg st =
     (let r' = accepted_record r amsg
      in (r', force_syncrony env (update_disk env r' st)))"

definition anyval_record :: "acceptor_record \<Rightarrow> int \<Rightarrow> int \<Rightarrow> acceptor_record" where
  "anyval_record r iid ballot = r\<lparr>ar_iid := iid, ar_ballot := ballot, ar_value_ballot := -1,
     ar_proposer_id := -1, ar_value := None, ar_value_size := 0, ar_any_enabled := 1\<rparr>"

definition apply_anyval ::
    "'s acc_env \<Rightarrow> acceptor_record \<Rightarrow> int \<Rightarrow> int \<Rightarrow> 's acceptor \<Rightarrow> acceptor_record \<times> 's acceptor" where
  "apply_anyval env r iid ballot st =
     (let r' = anyval_record r iid ballot in (r', update_disk env r' st))"

definition learn_of :: "int \<Rightarrow> acceptor_record \<Rightarrow> learn_msg" where
  "learn_of aid r = \<lparr>lm_acceptor_id = aid, lm_iid = ar_iid r, lm_ballot = ar_ballot r,
     lm_proposer_id = ar_proposer_id r, lm_value_size = ar_value_size r,
     lm_value = C_memcpy (ar_value r) (ar_value_size r)\<rparr>"

definition send_learn_message :: "'s acc_env \<Rightarrow> acceptor_record \<Rightarrow> 's acceptor \<Rightarrow> int \<times> 's acceptor" where
  "send_learn_message env r st =
     flush_send_buffer env Learners_Net (Learn (learn_of (acceptor_id st) r))
       (st\<lparr>send_buffer_size := sizeof_learn_msg + sizeof_paxos_msg + ar_value_size r\<rparr>)"

definition accept_enabled :: "acceptor_record \<Rightarrow> int \<Rightarrow> bool" where
  "accept_enabled r ballot \<longleftrightarrow>
     ar_any_enabled r \<noteq> 0 \<or> (ballot \<ge> ar_ballot r \<and> ballot \<ge> min_ballot)"

definition clear_any :: "acceptor_record \<Rightarrow> acceptor_record" where
  "clear_any r = (if ar_any_enabled r \<noteq> 0 then r\<lparr>ar_any_enabled := 0\<rparr> else r)"

definition handle_accept :: "'s acc_env \<Rightarrow> accept_msg \<Rightarrow> 's acceptor \<Rightarrow> int \<times> 's acceptor" where
  "handle_accept env amsg st =
     (let k = GET_ACC_INDEX (acm_iid amsg); r = acceptor_array st k
      in if acm_iid amsg = ar_iid r then
           (if accept_enabled r (acm_ballot amsg) then
              (let (r', st1) = apply_accept env (clear_any r) amsg st
               in send_learn_message env r' (set_slot k r' st1))
            else (0, st))
         else if acm_iid amsg > ar_iid r then
           (if acm_ballot amsg \<ge> min_ballot then
              (let (r', st1) = apply_accept env r amsg st
               in send_learn_message env r' (set_slot k r' st1))
            else (0, st))
         else
           (case lookup_disk env (acm_iid amsg) st of
              (None, st1) \<Rightarrow>
                (if acm_ballot amsg \<ge> min_ballot then
                   (let (junk, st2) = malloc_record env st1;
                        (r', st3) = apply_accept env (junk\<lparr>ar_value := None\<rparr>) amsg st2
                    in send_learn_message env r' st3)
                 else (0, st1))
            | (Some r1, st1) \<Rightarrow>
                (if accept_enabled r1 (acm_ballot amsg) then
                   (let (r', st2) = apply_accept env (clear_any r1) amsg st1
                    in send_learn_message env r' st2)
                 else (0, st1))))"

section \<open>Learner synchronisation\<close>

definition handle_lsync :: "'s acc_env \<Rightarrow> int \<Rightarrow> 's acceptor \<Rightarrow> int \<times> 's acceptor" where
  "handle_lsync env instance_id st =
     (let r = acceptor_array st (GET_ACC_INDEX instance_id)
      in if instance_id = ar_iid r then
           (if ar_value r \<noteq> None then send_learn_message env r st else (0, st))
         else if instance_id < ar_iid r then
           (case lookup_disk env instance_id st of
              (Some r1, st1) \<Rightarrow> (1, snd (send_learn_message env r1 st1))
            | (None, st1) \<Rightarrow> (0, st1))
         else (0, st))"

definition handle_batch_lsync :: "'s acc_env \<Rightarrow> int list \<Rightarrow> 's acceptor \<Rightarrow> int \<times> 's acceptor" where
  "handle_batch_lsync env ids st = (1, fold (\<lambda>i s. snd (handle_lsync env i s)) ids st)"

section \<open>Any\<close>

text \<open>
  In the branch where the disk has no record, \<^verbatim>\<open>apply_anyval\<close> is called with the null pointer.
\<close>

definition handle_anyval :: "'s acc_env \<Rightarrow> int \<Rightarrow> int \<Rightarrow> 's acceptor \<Rightarrow> (int \<times> 's acceptor) option" where
  "handle_anyval env ballot iid st =
     (let k = GET_ACC_INDEX iid; r = acceptor_array st k
      in if iid = ar_iid r then
           (if ar_any_enabled r \<noteq> 0 \<or> ballot \<ge> ar_ballot r then
              (let (r', st1) = apply_anyval env r iid ballot st in Some (1, set_slot k r' st1))
            else Some (0, st))
         else if iid > ar_iid r then
           (let (r', st1) = apply_anyval env r iid ballot st in Some (1, set_slot k r' st1))
         else
           (case lookup_disk env iid st of
              (None, st1) \<Rightarrow> None
            | (Some r1, st1) \<Rightarrow>
                (if ar_any_enabled r1 \<noteq> 0 \<or> ballot \<ge> ar_ballot r1
                 then Some (1, snd (apply_anyval env r1 iid ballot st1))
                 else Some (0, st1))))"

definition handle_batch_anyval ::
    "'s acc_env \<Rightarrow> int \<Rightarrow> int list \<Rightarrow> 's acceptor \<Rightarrow> (int \<times> 's acceptor) option" where
  "handle_batch_anyval env ballot ids st =
     map_option (Pair 1) (ofold (\<lambda>i s. map_option snd (handle_anyval env ballot i s)) ids st)"

section \<open>Dispatch and start-up\<close>

fun handle_message :: "'s acc_env \<Rightarrow> packet \<Rightarrow> 's acceptor \<Rightarrow> (int \<times> 's acceptor) option" where
  "handle_message env (Prepare_Batch ms) st = Some (handle_prepare_batch env ms st)"
| "handle_message env (Accept m) st = Some (handle_accept env m st)"
| "handle_message env (Lsync ids) st = Some (handle_batch_lsync env ids st)"
| "handle_message env (Anyval b ids) st = handle_batch_anyval env b ids st"
| "handle_message env _ st = Some (1, st)"   \<comment> \<open>unknown message type, printed\<close>

text \<open>
  \<^verbatim>\<open>get_next_message\<close>: a failed receive and a size that does not match are dropped; a packet
  whose own counts lead out of the receive buffer is \<open>None\<close>, the C behaviour being undefined.
\<close>

definition get_next_message :: "'s acc_env \<Rightarrow> recv_result \<Rightarrow> 's acceptor \<Rightarrow> 's acceptor option" where
  "get_next_message env recv st =
     (case recv of
        Recv_Fail \<Rightarrow> Some st
      | Recv dgram \<Rightarrow>
          (let buf = recv_into (acc_recv_buffer st) dgram;
               st1 = st\<lparr>acc_recv_buffer := buf\<rparr>
           in if \<not> size_matches buf (received (acc_recv_buffer st) dgram) then Some st1
              else (case rd32 buf 4 of
                      None \<Rightarrow> None
                    | Some ty \<Rightarrow>
                        if ty \<in> {PAXOS_PREPARE, PAXOS_ACCEPT, PAXOS_LSYNC, PAXOS_ANYVAL}
                        then (case rd_packet buf of
                                None \<Rightarrow> None
                              | Some p \<Rightarrow> map_option snd (handle_message env p st1))
                        else Some st1)))"

text \<open>
  The state \<^verbatim>\<open>acceptor_start\<close> leaves when it enters the event loop: statics are zero unless
  assigned, and \<^verbatim>\<open>disk_init_permastorage\<close> has removed any previous database file, so \<open>db0\<close> is
  the state of a new database. Any failing initialisation returns -1.
\<close>

definition static_record :: acceptor_record where
  "static_record = \<lparr>ar_iid = -1, ar_proposer_id = 0, ar_ballot = -1, ar_value_ballot = 0,
     ar_value_size = 0, ar_any_enabled = 0, ar_value = None\<rparr>"

definition acceptor_init :: "int \<Rightarrow> 's \<Rightarrow> 's acceptor" where
  "acceptor_init i db0 = \<lparr>acceptor_id = i, acceptor_array = (\<lambda>_. static_record),
     send_buffer_size = 0, batch_acceptor_id = 0, batch_promises = [],
     acc_recv_buffer = replicate (nat MAX_UDP_MSG_SIZE) 0, acc_db = db0, acc_mallocs = 0,
     acc_sent = []\<rparr>"

definition acceptor_start :: "int \<Rightarrow> int \<Rightarrow> int \<Rightarrow> int \<Rightarrow> int \<Rightarrow> int \<Rightarrow> 's \<Rightarrow> int + 's acceptor" where
  "acceptor_start i disk_ret learner_sock proposer_sock acceptor_sock libevent_ret db0 =
     (if disk_ret \<noteq> 0 then Inl (-1)
      else if learner_sock < 0 \<or> proposer_sock < 0 \<or> acceptor_sock < 0 then Inl (-1)
      else if libevent_ret < 0 then Inl (-1)
      else Inr (acceptor_init i db0))"

end
