(* ===== verification/Acceptor_Correct.thy ===== *)
theory Acceptor_Correct
  imports Acceptor
begin

text \<open>
  The acceptor against its abstract specification: a map from instances to what is recorded for
  them (promised ballot, accepted ballot, accepted value). The cache of \<^verbatim>\<open>acceptor_array\<close> and
  the database together implement this map (\<open>known\<close>), whatever collides in the array; every
  handler is a step on the map and sends what the map says.
\<close>

section \<open>Invariant and abstraction\<close>

definition value_wf :: "int \<Rightarrow> byte list option \<Rightarrow> bool" where
  "value_wf n v \<longleftrightarrow> 0 \<le> n \<and> n \<le> PAXOS_MAX_VALUE_SIZE
     \<and> (case v of None \<Rightarrow> n = 0 | Some bs \<Rightarrow> n = int (length bs))"

definition rec_wf :: "acceptor_record \<Rightarrow> bool" where
  "rec_wf r \<longleftrightarrow> in_i32 (ar_ballot r) \<and> in_i32 (ar_value_ballot r) \<and> in_i32 (ar_proposer_id r)
     \<and> value_wf (ar_value_size r) (ar_value r)"

definition flat_wf :: "int \<Rightarrow> flat_record \<Rightarrow> bool" where
  "flat_wf i f \<longleftrightarrow> fl_iid f = i \<and> in_i32 (fl_ballot f) \<and> in_i32 (fl_value_ballot f)
     \<and> value_wf (fl_value_size f) (Some (fl_value f))"

definition env_ok :: "'s acc_env \<Rightarrow> bool" where
  "env_ok env \<longleftrightarrow> bdb_ok (env_db env) \<and> (\<forall>n. in_i32 (ar_proposer_id (env_junk env n)))"

definition known :: "'s acc_env \<Rightarrow> 's acceptor \<Rightarrow> int \<Rightarrow> flat_record option" where
  "known env st i = (if valid_iid i then disk_read (env_db env) (acc_db st) i else None)"

definition acc_inv :: "'s acc_env \<Rightarrow> 's acceptor \<Rightarrow> bool" where
  "acc_inv env st \<longleftrightarrow>
     coherent (disk_read (env_db env) (acc_db st)) ar_iid flatten GET_ACC_INDEX (acceptor_array st)
   \<and> (\<forall>k. rec_wf (acceptor_array st k))
   \<and> (\<forall>i f. known env st i = Some f \<longrightarrow> flat_wf i f)
   \<and> in_i32 (acceptor_id st) \<and> length (acc_recv_buffer st) = nat MAX_UDP_MSG_SIZE"

text \<open>The slot an instance maps to.\<close>

definition slot :: "'s acceptor \<Rightarrow> int \<Rightarrow> acceptor_record" where
  "slot st i = acceptor_array st (GET_ACC_INDEX i)"

lemma force_syncrony_off [simp]: "force_syncrony env st = st"
  by (simp add: force_syncrony_def disk_force_syncrony_def c_simps)

lemma flatten_wf: "rec_wf r \<Longrightarrow> flat_wf (ar_iid r) (flatten r)"
  by (auto simp: rec_wf_def flat_wf_def flatten_def value_wf_def split: option.splits)

lemma unflatten_wf:
  "flat_wf i f \<Longrightarrow> in_i32 (ar_proposer_id junk) \<Longrightarrow>
   rec_wf (unflatten junk f) \<and> ar_iid (unflatten junk f) = i"
  by (auto simp: rec_wf_def flat_wf_def unflatten_def value_wf_def)

text \<open>Operations that leave the records alone keep the invariant and the abstraction.\<close>

lemma acc_inv_cong:
  "acceptor_array st' = acceptor_array st \<Longrightarrow> acc_db st' = acc_db st \<Longrightarrow>
   acceptor_id st' = acceptor_id st \<Longrightarrow> acc_recv_buffer st' = acc_recv_buffer st \<Longrightarrow>
   acc_inv env st' = acc_inv env st"
  by (simp add: acc_inv_def known_def)

lemma known_cong: "acc_db st' = acc_db st \<Longrightarrow> known env st' = known env st"
  by (simp add: known_def fun_eq_iff)

lemma flush_frame [frame]:
  "acceptor_array (snd (flush_send_buffer env a p st)) = acceptor_array st"
  "acc_db (snd (flush_send_buffer env a p st)) = acc_db st"
  "acceptor_id (snd (flush_send_buffer env a p st)) = acceptor_id st"
  "acc_recv_buffer (snd (flush_send_buffer env a p st)) = acc_recv_buffer st"
  "acc_mallocs (snd (flush_send_buffer env a p st)) = acc_mallocs st"
  by (simp_all add: flush_send_buffer_def Let_def)

lemma flush_promises_frame [frame]:
  "acceptor_array (flush_promises env st) = acceptor_array st"
  "acc_db (flush_promises env st) = acc_db st"
  "acceptor_id (flush_promises env st) = acceptor_id st"
  "acc_recv_buffer (flush_promises env st) = acc_recv_buffer st"
  "acc_mallocs (flush_promises env st) = acc_mallocs st"
  by (simp_all add: flush_promises_def Let_def frame)

lemma add_promise_frame [frame]:
  "acceptor_array (snd (add_promise_to_send_buffer env r st)) = acceptor_array st"
  "acc_db (snd (add_promise_to_send_buffer env r st)) = acc_db st"
  "acceptor_id (snd (add_promise_to_send_buffer env r st)) = acceptor_id st"
  "acc_recv_buffer (snd (add_promise_to_send_buffer env r st)) = acc_recv_buffer st"
  "acc_mallocs (snd (add_promise_to_send_buffer env r st)) = acc_mallocs st"
  by (simp_all add: add_promise_to_send_buffer_def Let_def frame)

lemma send_learn_frame [frame]:
  "acceptor_array (snd (send_learn_message env r st)) = acceptor_array st"
  "acc_db (snd (send_learn_message env r st)) = acc_db st"
  "acceptor_id (snd (send_learn_message env r st)) = acceptor_id st"
  "acc_recv_buffer (snd (send_learn_message env r st)) = acc_recv_buffer st"
  "acc_mallocs (snd (send_learn_message env r st)) = acc_mallocs st"
  by (simp_all add: send_learn_message_def frame)

lemma update_disk_frame [frame]:
  "acceptor_array (update_disk env r st) = acceptor_array st"
  "acceptor_id (update_disk env r st) = acceptor_id st"
  "acc_recv_buffer (update_disk env r st) = acc_recv_buffer st"
  "acc_mallocs (update_disk env r st) = acc_mallocs st"
  "acc_sent (update_disk env r st) = acc_sent st"
  "send_buffer_size (update_disk env r st) = send_buffer_size st"
  "batch_promises (update_disk env r st) = batch_promises st"
  "batch_acceptor_id (update_disk env r st) = batch_acceptor_id st"
  by (simp_all add: update_disk_def)

lemma set_slot_frame [frame]:
  "acc_db (set_slot k r st) = acc_db st"
  "acceptor_id (set_slot k r st) = acceptor_id st"
  "acc_recv_buffer (set_slot k r st) = acc_recv_buffer st"
  "acc_mallocs (set_slot k r st) = acc_mallocs st"
  "acc_sent (set_slot k r st) = acc_sent st"
  "send_buffer_size (set_slot k r st) = send_buffer_size st"
  "batch_promises (set_slot k r st) = batch_promises st"
  "batch_acceptor_id (set_slot k r st) = batch_acceptor_id st"
  by (simp_all add: set_slot_def)

lemma malloc_frame [frame]:
  "acceptor_array (snd (malloc_record env st)) = acceptor_array st"
  "acc_db (snd (malloc_record env st)) = acc_db st"
  "acceptor_id (snd (malloc_record env st)) = acceptor_id st"
  "acc_recv_buffer (snd (malloc_record env st)) = acc_recv_buffer st"
  "acc_sent (snd (malloc_record env st)) = acc_sent st"
  "send_buffer_size (snd (malloc_record env st)) = send_buffer_size st"
  "batch_promises (snd (malloc_record env st)) = batch_promises st"
  "batch_acceptor_id (snd (malloc_record env st)) = batch_acceptor_id st"
  "fst (malloc_record env st) = env_junk env (acc_mallocs st)"
  by (simp_all add: malloc_record_def)

section \<open>Reading and writing through the cache\<close>

lemma slot_known:
  assumes "acc_inv env st" and "valid_iid i"
  shows slot_hit: "ar_iid (slot st i) = i \<Longrightarrow> known env st i = Some (flatten (slot st i))"
    and slot_fresh: "ar_iid (slot st i) < i \<Longrightarrow> known env st i = None"
  using assms by (auto simp: acc_inv_def coherent_def known_def slot_def)

lemma slot_wf: "acc_inv env st \<Longrightarrow> rec_wf (slot st i)"
  by (simp add: acc_inv_def slot_def)

lemma known_wf: "acc_inv env st \<Longrightarrow> known env st i = Some f \<Longrightarrow> flat_wf i f"
  by (simp add: acc_inv_def)

lemma lookup_disk_known:
  assumes "env_ok env" and "valid_iid i"
  shows "lookup_disk env i st =
    (case known env st i of
       None \<Rightarrow> (None, st)
     | Some f \<Rightarrow> (Some (unflatten (env_junk env (acc_mallocs st)) f), snd (malloc_record env st)))"
  using assms
  by (simp add: lookup_disk_def malloc_record_def env_ok_def disk_lookup_record_eq known_def
      split: option.split)

lemma known_update_disk:
  assumes "env_ok env" and "valid_iid (ar_iid r)"
  shows "known env (update_disk env r st) = (known env st)(ar_iid r \<mapsto> flatten r)"
  using assms
  by (auto simp: fun_eq_iff known_def update_disk_def env_ok_def disk.rd_wr)

lemma acc_inv_store_cached:
  assumes inv: "acc_inv env st" and env: "env_ok env" and v: "valid_iid (ar_iid r)" and wf: "rec_wf r"
    and new: "ar_iid (slot st (ar_iid r)) \<le> ar_iid r"
  shows "acc_inv env (update_disk env r (set_slot (GET_ACC_INDEX (ar_iid r)) r st))"
proof -
  let ?st = "update_disk env r (set_slot (GET_ACC_INDEX (ar_iid r)) r st)"
  have "coherent (disk_read (env_db env) (disk_write (env_db env) r (acc_db st)))
      ar_iid flatten GET_ACC_INDEX ((acceptor_array st)(GET_ACC_INDEX (ar_iid r) := r))"
    using inv env v new
    by (intro disk.coherent_write_through) (auto simp: acc_inv_def env_ok_def slot_def)
  moreover have "flat_wf i f" if "known env ?st i = Some f" for i f
    using that inv flatten_wf [OF wf] known_update_disk [OF env v]
    by (auto simp: acc_inv_def known_cong [OF set_slot_frame(1)] split: if_splits)
  ultimately show ?thesis
    using inv wf by (simp add: acc_inv_def frame) (simp add: update_disk_def set_slot_def)
qed

lemma acc_inv_store_evicted:
  assumes inv: "acc_inv env st" and env: "env_ok env" and v: "valid_iid (ar_iid r)" and wf: "rec_wf r"
    and old: "ar_iid r < ar_iid (slot st (ar_iid r))"
  shows "acc_inv env (update_disk env r st)"
proof -
  have "coherent (disk_read (env_db env) (disk_write (env_db env) r (acc_db st)))
      ar_iid flatten GET_ACC_INDEX (acceptor_array st)"
    using inv env v old
    by (intro disk.coherent_write_past) (auto simp: acc_inv_def env_ok_def slot_def)
  moreover have "flat_wf i f" if "known env (update_disk env r st) i = Some f" for i f
    using that inv flatten_wf [OF wf] known_update_disk [OF env v]
    by (auto simp: acc_inv_def split: if_splits)
  ultimately show ?thesis
    using inv by (simp add: acc_inv_def frame) (simp add: update_disk_def)
qed

section \<open>Prepare: the specification and its implementation\<close>

definition promise_of_flat :: "flat_record \<Rightarrow> promise_msg" where
  "promise_of_flat f = \<lparr>prm_iid = fl_iid f, prm_ballot = fl_ballot f,
     prm_value_ballot = fl_value_ballot f, prm_value_size = fl_value_size f, prm_value = fl_value f\<rparr>"

text \<open>
  A prepare for an unknown instance, or with a ballot above the one recorded, raises the recorded
  ballot and is answered with the record; any other prepare changes and answers nothing.
\<close>

definition prepare_flat :: "prepare_msg \<Rightarrow> (int \<Rightarrow> flat_record option) \<Rightarrow> flat_record option" where
  "prepare_flat m F =
     (case F (pm_iid m) of
        None \<Rightarrow> Some \<lparr>fl_iid = pm_iid m, fl_ballot = pm_ballot m, fl_value_ballot = -1,
                  fl_value_size = 0, fl_value = []\<rparr>
      | Some f \<Rightarrow> if pm_ballot m > fl_ballot f then Some (f\<lparr>fl_ballot := pm_ballot m\<rparr>) else None)"

definition prepare_spec ::
    "prepare_msg \<Rightarrow> (int \<Rightarrow> flat_record option) \<Rightarrow> (int \<Rightarrow> flat_record option)" where
  "prepare_spec m F =
     (case prepare_flat m F of None \<Rightarrow> F | Some f \<Rightarrow> F(pm_iid m \<mapsto> f))"

fun prepare_replies :: "prepare_msg list \<Rightarrow> (int \<Rightarrow> flat_record option) \<Rightarrow> promise_msg list" where
  "prepare_replies [] F = []"
| "prepare_replies (m # ms) F =
     (case prepare_flat m F of None \<Rightarrow> [] | Some f \<Rightarrow> [promise_of_flat f])
     @ prepare_replies ms (prepare_spec m F)"

definition same_out :: "'s acceptor \<Rightarrow> 's acceptor \<Rightarrow> bool" where
  "same_out st st' \<longleftrightarrow> acc_sent st' = acc_sent st \<and> send_buffer_size st' = send_buffer_size st
     \<and> batch_promises st' = batch_promises st \<and> batch_acceptor_id st' = batch_acceptor_id st
     \<and> acceptor_id st' = acceptor_id st"

lemma promise_of_flatten: "rec_wf r \<Longrightarrow> promise_of r = promise_of_flat (flatten r)"
  by (auto simp: promise_of_def promise_of_flat_def flatten_def rec_wf_def value_wf_def
      split: option.splits)

lemma flatten_raise: "flatten (r\<lparr>ar_ballot := b\<rparr>) = (flatten r)\<lparr>fl_ballot := b\<rparr>"
  by (simp add: flatten_def)

lemma flatten_unflatten_wf: "flat_wf i f \<Longrightarrow> flatten (unflatten junk f) = f"
  by (simp add: flat_wf_def value_wf_def flatten_unflatten)

lemma acc_inv_malloc: "acc_inv env (snd (malloc_record env st)) = acc_inv env st"
  by (rule acc_inv_cong) (simp_all add: frame)

lemma known_malloc: "known env (snd (malloc_record env st)) = known env st"
  by (rule known_cong) (simp add: frame)

definition prepare_ok :: "prepare_msg \<Rightarrow> bool" where
  "prepare_ok m \<longleftrightarrow> valid_iid (pm_iid m) \<and> 0 \<le> pm_ballot m \<and> in_i32 (pm_ballot m)"

text \<open>
  What one prepare does, in each of the five branches of the code: it is ignored, or a promise
  for the new record joins the send buffer.
\<close>

definition ignores :: "'s acc_env \<Rightarrow> prepare_msg \<Rightarrow> 's acceptor \<Rightarrow> 's acceptor \<Rightarrow> bool" where
  "ignores env m st t \<longleftrightarrow> prepare_flat m (known env st) = None
     \<and> acc_inv env t \<and> known env t = known env st \<and> same_out st t"

definition promises :: "'s acc_env \<Rightarrow> prepare_msg \<Rightarrow> 's acceptor \<Rightarrow> 's acceptor \<Rightarrow> bool" where
  "promises env m st t \<longleftrightarrow> (\<exists>r st'. prepare_flat m (known env st) = Some (flatten r)
     \<and> t = snd (add_promise_to_send_buffer env r st')
     \<and> rec_wf r \<and> ar_iid r = pm_iid m \<and> acc_inv env st'
     \<and> known env st' = (known env st)(pm_iid m \<mapsto> flatten r) \<and> same_out st st')"

lemma promisesI:
  assumes "prepare_flat m (known env st) = Some (flatten r)"
    and "t = snd (add_promise_to_send_buffer env r st')" and "rec_wf r" and "ar_iid r = pm_iid m"
    and "acc_inv env st' \<and> known env st' = (known env st)(pm_iid m \<mapsto> flatten r) \<and> same_out st st'"
  shows "promises env m st t"
  using assms unfolding promises_def by blast

text \<open>Storing a record of the instance, in front of the disk or past the array.\<close>

lemma stored_cached:
  assumes "acc_inv env st" "env_ok env" "valid_iid i" "rec_wf r" "ar_iid r = i"
    and "ar_iid (slot st i) \<le> i"
  shows "acc_inv env (update_disk env r (set_slot (GET_ACC_INDEX i) r st))
    \<and> known env (update_disk env r (set_slot (GET_ACC_INDEX i) r st)) = (known env st)(i \<mapsto> flatten r)
    \<and> same_out st (update_disk env r (set_slot (GET_ACC_INDEX i) r st))"
  using assms acc_inv_store_cached [of env st r]
    known_update_disk [of env r "set_slot (GET_ACC_INDEX i) r st"]
  by (simp add: same_out_def frame known_cong [OF set_slot_frame(1)])

lemma stored_evicted:
  assumes "acc_inv env st" "env_ok env" "valid_iid i" "rec_wf r" "ar_iid r = i"
    and "i < ar_iid (slot st i)"
    and st1: "acceptor_array st1 = acceptor_array st" "acc_db st1 = acc_db st" "same_out st st1"
      "acc_recv_buffer st1 = acc_recv_buffer st"
  shows "acc_inv env (update_disk env r st1)
    \<and> known env (update_disk env r st1) = (known env st)(i \<mapsto> flatten r)
    \<and> same_out st (update_disk env r st1)"
  using assms acc_inv_store_evicted [of env st1 r] known_update_disk [of env r st1]
    acc_inv_cong [of st1 st env] known_cong [of st1 st env]
  by (simp add: same_out_def frame slot_def)

lemma prepare_fresh:
  assumes inv: "acc_inv env st" and env: "env_ok env" and m: "prepare_ok m"
    and fresh: "ar_iid (slot st (pm_iid m)) < pm_iid m"
  shows "promises env m st (snd (handle_prepare env m st))"
proof -
  let ?i = "pm_iid m"
  let ?r = "(slot st ?i)\<lparr>ar_iid := ?i, ar_ballot := pm_ballot m, ar_value_ballot := -1,
    ar_value_size := 0, ar_value := None\<rparr>"
  from m have v: "valid_iid ?i" and b: "in_i32 (pm_ballot m)" by (simp_all add: prepare_ok_def)
  have wf: "rec_wf ?r"
    using slot_wf [OF inv, of ?i] b by (simp add: rec_wf_def value_wf_def in_i32_def c_simps)
  show ?thesis
  proof (rule promisesI [OF _ _ wf _ stored_cached [OF inv env v wf]])
    show "prepare_flat m (known env st) = Some (flatten ?r)"
      using slot_fresh [OF inv v fresh] by (simp add: prepare_flat_def flatten_def)
  qed (use fresh in \<open>simp_all add: handle_prepare_def slot_def Let_def\<close>)
qed

lemma prepare_hit:
  assumes inv: "acc_inv env st" and env: "env_ok env" and m: "prepare_ok m"
    and hit: "ar_iid (slot st (pm_iid m)) = pm_iid m"
  shows "ignores env m st (snd (handle_prepare env m st))
    \<or> promises env m st (snd (handle_prepare env m st))"
proof (cases "pm_ballot m \<le> ar_ballot (slot st (pm_iid m))")
  case True
  then have "snd (handle_prepare env m st) = st"
    using hit by (simp add: handle_prepare_def slot_def)
  with True inv m slot_hit [OF inv _ hit] show ?thesis
    by (simp add: ignores_def prepare_flat_def prepare_ok_def flatten_def same_out_def)
next
  case False
  let ?i = "pm_iid m"
  let ?r = "(slot st ?i)\<lparr>ar_ballot := pm_ballot m\<rparr>"
  from m have v: "valid_iid ?i" and b: "in_i32 (pm_ballot m)" by (simp_all add: prepare_ok_def)
  have wf: "rec_wf ?r" using slot_wf [OF inv, of ?i] b by (simp add: rec_wf_def)
  have "promises env m st (snd (handle_prepare env m st))"
  proof (rule promisesI [OF _ _ wf _ stored_cached [OF inv env v wf]])
    show "prepare_flat m (known env st) = Some (flatten ?r)"
      using False slot_hit [OF inv v hit] by (simp add: prepare_flat_def flatten_def)
  qed (use False hit in \<open>simp_all add: handle_prepare_def slot_def Let_def\<close>)
  then show ?thesis ..
qed

lemma prepare_evicted_new:
  assumes inv: "acc_inv env st" and env: "env_ok env" and m: "prepare_ok m"
    and evicted: "pm_iid m < ar_iid (slot st (pm_iid m))" and none: "known env st (pm_iid m) = None"
  shows "promises env m st (snd (handle_prepare env m st))"
proof -
  let ?i = "pm_iid m" and ?st1 = "snd (malloc_record env st)"
  let ?r = "(env_junk env (acc_mallocs st))\<lparr>ar_iid := ?i, ar_ballot := -1,
    ar_value_ballot := -1, ar_value_size := 0, ar_value := None\<rparr>\<lparr>ar_ballot := pm_ballot m\<rparr>"
  from m have v: "valid_iid ?i" and b: "in_i32 (pm_ballot m)" "0 \<le> pm_ballot m"
    by (simp_all add: prepare_ok_def)
  have wf: "rec_wf ?r"
    using env b by (simp add: env_ok_def rec_wf_def value_wf_def in_i32_def c_simps)
  have "lookup_disk env ?i st = (None, st)" using lookup_disk_known [OF env v, of st] none by simp
  then have "snd (handle_prepare env m st)
      = snd (add_promise_to_send_buffer env ?r (update_disk env ?r ?st1))"
    using evicted b by (simp add: handle_prepare_def slot_def malloc_record_def Let_def)
  moreover have "prepare_flat m (known env st) = Some (flatten ?r)"
    using none by (simp add: prepare_flat_def flatten_def)
  ultimately show ?thesis
    using wf stored_evicted [OF inv env v wf _ evicted, of ?st1]
    by (intro promisesI [of m env st ?r _ "update_disk env ?r ?st1"])
      (simp_all add: frame same_out_def)
qed

lemma prepare_evicted_old:
  assumes inv: "acc_inv env st" and env: "env_ok env" and m: "prepare_ok m"
    and evicted: "pm_iid m < ar_iid (slot st (pm_iid m))" and some: "known env st (pm_iid m) = Some f"
  shows "ignores env m st (snd (handle_prepare env m st))
    \<or> promises env m st (snd (handle_prepare env m st))"
proof -
  let ?i = "pm_iid m" and ?st1 = "snd (malloc_record env st)"
  let ?u = "unflatten (env_junk env (acc_mallocs st)) f"
  let ?r = "?u\<lparr>ar_ballot := pm_ballot m\<rparr>"
  from m have v: "valid_iid ?i" and b: "in_i32 (pm_ballot m)" by (simp_all add: prepare_ok_def)
  have f: "flat_wf ?i f" using inv some by (rule known_wf)
  have u: "rec_wf ?u \<and> ar_iid ?u = ?i"
    using env by (intro unflatten_wf [OF f]) (simp add: env_ok_def)
  then have wf: "rec_wf ?r" using b by (simp add: rec_wf_def)
  have lk: "lookup_disk env ?i st = (Some ?u, ?st1)" and fb: "ar_ballot ?u = fl_ballot f"
    using lookup_disk_known [OF env v, of st] some by (simp_all add: unflatten_def)
  show ?thesis
  proof (cases "pm_ballot m > fl_ballot f")
    case True
    then have "snd (handle_prepare env m st)
        = snd (add_promise_to_send_buffer env ?r (update_disk env ?r ?st1))"
      using evicted lk fb by (simp add: handle_prepare_def slot_def Let_def)
    moreover have "prepare_flat m (known env st) = Some (flatten ?r)"
      using True some by (simp add: prepare_flat_def flatten_raise flatten_unflatten_wf [OF f])
    ultimately have "promises env m st (snd (handle_prepare env m st))"
      using wf u stored_evicted [OF inv env v wf _ evicted, of ?st1]
      by (intro promisesI [of m env st ?r _ "update_disk env ?r ?st1"])
        (simp_all add: frame same_out_def)
    then show ?thesis ..
  next
    case False
    then have "snd (handle_prepare env m st) = ?st1"
      using evicted lk fb by (simp add: handle_prepare_def slot_def Let_def)
    with False some inv show ?thesis
      by (simp add: ignores_def prepare_flat_def acc_inv_malloc known_malloc same_out_def frame)
  qed
qed

lemma handle_prepare_step:
  assumes "acc_inv env st" and "env_ok env" and "prepare_ok m"
  shows "ignores env m st (snd (handle_prepare env m st))
    \<or> promises env m st (snd (handle_prepare env m st))"
proof -
  consider "ar_iid (slot st (pm_iid m)) < pm_iid m" | "ar_iid (slot st (pm_iid m)) = pm_iid m"
    | "pm_iid m < ar_iid (slot st (pm_iid m))" "known env st (pm_iid m) = None"
    | f where "pm_iid m < ar_iid (slot st (pm_iid m))" "known env st (pm_iid m) = Some f"
    by (cases "known env st (pm_iid m)") (auto simp: not_less linorder_neq_iff intro: linorder_cases)
  then show ?thesis
    using assms prepare_fresh prepare_hit prepare_evicted_new prepare_evicted_old by cases blast+
qed

text \<open>The records after a prepare, whatever the send buffer holds.\<close>

lemma handle_prepare_records:
  assumes "acc_inv env st" and "env_ok env" and "prepare_ok m"
  shows "acc_inv env (snd (handle_prepare env m st))
    \<and> known env (snd (handle_prepare env m st)) = prepare_spec m (known env st)"
  using handle_prepare_step [OF assms]
proof
  assume "promises env m st (snd (handle_prepare env m st))"
  then obtain r st' where p: "prepare_flat m (known env st) = Some (flatten r)"
      "snd (handle_prepare env m st) = snd (add_promise_to_send_buffer env r st')"
      "acc_inv env st'" "known env st' = (known env st)(pm_iid m \<mapsto> flatten r)"
    unfolding promises_def by blast
  then show ?thesis
    using acc_inv_cong [of "snd (handle_prepare env m st)" st' env]
      known_cong [of "snd (handle_prepare env m st)" st' env]
    by (simp add: frame prepare_spec_def)
qed (simp add: ignores_def prepare_spec_def)

section \<open>The promise buffer\<close>

text \<open>
  While a batch is handled, the size counter is the size of the promise batch under
  construction, header included, and the batch fits a datagram.
\<close>

definition batch_inv :: "'s acceptor \<Rightarrow> bool" where
  "batch_inv st \<longleftrightarrow>
     send_buffer_size st = 16 + sum_list (map promise_size (batch_promises st))
   \<and> send_buffer_size st \<le> MAX_UDP_MSG_SIZE
   \<and> list_all wf_promise (batch_promises st)
   \<and> batch_acceptor_id st = acceptor_id st \<and> in_i32 (acceptor_id st)"

definition promises_in :: "datagram \<Rightarrow> promise_msg list" where
  "promises_in d = (case snd (snd d) of Promise_Batch a ps \<Rightarrow> ps | _ \<Rightarrow> [])"

definition promise_datagram :: "int \<Rightarrow> datagram \<Rightarrow> bool" where
  "promise_datagram a d \<longleftrightarrow> fst d = Proposers_Net \<and> datagram_ok d
     \<and> (\<exists>ps. ps \<noteq> [] \<and> snd (snd d) = Promise_Batch a ps)"

lemma promise_size_pos: "16 \<le> promise_size p"
  by (simp add: promise_size_def c_simps)

lemma sum_promise_size_nonneg: "0 \<le> sum_list (map promise_size ps)"
  by (induction ps) (auto simp: promise_size_def c_simps)

lemma promise_of_size:
  "rec_wf r \<Longrightarrow> promise_size (promise_of r) = sizeof_promise_msg + ar_value_size r"
  by (auto simp: promise_size_def promise_of_def rec_wf_def value_wf_def split: option.splits)

lemma promise_of_wf: "rec_wf r \<Longrightarrow> in_i32 (ar_iid r) \<Longrightarrow> wf_promise (promise_of r)"
  by (auto simp: wf_promise_def promise_of_def rec_wf_def value_wf_def in_i32_def c_simps
      split: option.splits)

lemma flush_promises_sends:
  assumes "batch_inv st" and "batch_promises st \<noteq> []"
  obtains d where "acc_sent (flush_promises env st) = acc_sent st @ [d]"
    "promise_datagram (acceptor_id st) d" "promises_in d = batch_promises st"
    "send_buffer_size (flush_promises env st) = 0"
    "batch_promises (flush_promises env st) = batch_promises st"
proof
  let ?d = "(Proposers_Net, send_buffer_size st, Promise_Batch (acceptor_id st) (batch_promises st))"
  show "acc_sent (flush_promises env st) = acc_sent st @ [?d]"
    using assms(1) by (simp add: flush_promises_def flush_send_buffer_def Let_def batch_inv_def)
  have "datagram_ok ?d"
    using assms(1) unfolding batch_inv_def
    by (intro datagram_okI) (simp_all only: size_Promise_Batch wf_fields.simps, simp_all)
  then show "promise_datagram (acceptor_id st) ?d"
    using assms(2) by (simp add: promise_datagram_def)
qed (simp_all add: promises_in_def flush_promises_def flush_send_buffer_def Let_def)

text \<open>
  Adding a promise: everything sent so far and the batch, read as one list of promises, grows by
  exactly this promise at its end.
\<close>

definition promises_out :: "datagram list \<Rightarrow> 's acceptor \<Rightarrow> promise_msg list" where
  "promises_out ds st = concat (map promises_in ds) @ batch_promises st"

lemma add_promise_out:
  assumes inv: "batch_inv st" and wf: "rec_wf r" and i: "in_i32 (ar_iid r)"
  obtains ds where "acc_sent (snd (add_promise_to_send_buffer env r st)) = acc_sent st @ ds"
    "\<forall>d\<in>set ds. promise_datagram (acceptor_id st) d"
    "promises_out ds (snd (add_promise_to_send_buffer env r st)) = batch_promises st @ [promise_of r]"
    "batch_inv (snd (add_promise_to_send_buffer env r st))"
proof -
  let ?n = "sizeof_promise_msg + ar_value_size r"
  have n: "0 < ?n" "?n \<le> 8976"
    using wf by (auto simp: rec_wf_def value_wf_def c_simps)
  have pos: "16 \<le> send_buffer_size st"
    using inv sum_promise_size_nonneg by (simp add: batch_inv_def)
  show thesis
  proof (cases "?n + send_buffer_size st > MAX_UDP_MSG_SIZE")
    case False
    with pos have add: "snd (add_promise_to_send_buffer env r st) = st\<lparr>batch_promises :=
        batch_promises st @ [promise_of r], send_buffer_size := send_buffer_size st + ?n\<rparr>"
      by (simp add: add_promise_to_send_buffer_def Let_def)
    show thesis
      by (rule that [of "[]"])
        (use add inv wf i False in \<open>simp_all add: promises_out_def batch_inv_def promise_of_size promise_of_wf\<close>)
  next
    case True
    with n inv have "batch_promises st \<noteq> []" by (auto simp: batch_inv_def c_simps)
    with inv obtain d where d: "acc_sent (flush_promises env st) = acc_sent st @ [d]"
      "promise_datagram (acceptor_id st) d" "promises_in d = batch_promises st"
      "send_buffer_size (flush_promises env st) = 0"
      by (rule flush_promises_sends)
    let ?t = "snd (add_promise_to_send_buffer env r st)"
    have t: "acc_sent ?t = acc_sent st @ [d]" "batch_promises ?t = [promise_of r]"
      "send_buffer_size ?t = 16 + ?n" "batch_acceptor_id ?t = acceptor_id st"
      using True d by (simp_all add: add_promise_to_send_buffer_def Let_def frame c_simps)
    show thesis
      by (rule that [of "[d]"])
        (use t d inv wf i n in \<open>simp_all add: promises_out_def batch_inv_def promise_of_size
          promise_of_wf frame c_simps\<close>)
  qed
qed

section \<open>Batches of prepares\<close>

lemma in_i32_valid: "valid_iid i \<Longrightarrow> in_i32 i"
  by (simp add: valid_iid_def in_i32_def)

lemma handle_prepare_out:
  assumes inv: "acc_inv env st" and env: "env_ok env" and m: "prepare_ok m" and batch: "batch_inv st"
  defines "t \<equiv> snd (handle_prepare env m st)"
  shows "acc_inv env t \<and> known env t = prepare_spec m (known env st) \<and> batch_inv t
    \<and> acceptor_id t = acceptor_id st
    \<and> (\<exists>ds. acc_sent t = acc_sent st @ ds \<and> (\<forall>d\<in>set ds. promise_datagram (acceptor_id st) d)
        \<and> promises_out ds t = batch_promises st @ prepare_replies [m] (known env st))"
  using handle_prepare_step [OF inv env m]
proof
  assume "ignores env m st (snd (handle_prepare env m st))"
  then show ?thesis
    using batch unfolding t_def
    by (intro conjI exI [of _ "[]"])
      (auto simp: ignores_def prepare_spec_def batch_inv_def same_out_def promises_out_def)
next
  assume "promises env m st (snd (handle_prepare env m st))"
  then obtain r st' where p: "prepare_flat m (known env st) = Some (flatten r)"
      "t = snd (add_promise_to_send_buffer env r st')" "rec_wf r" "ar_iid r = pm_iid m"
      "acc_inv env st'" "known env st' = (known env st)(pm_iid m \<mapsto> flatten r)" "same_out st st'"
    unfolding promises_def t_def by blast
  have "batch_inv st'" using p(7) batch by (simp add: batch_inv_def same_out_def)
  moreover have "in_i32 (ar_iid r)" using m p(4) by (simp add: prepare_ok_def in_i32_valid)
  ultimately obtain ds where "acc_sent t = acc_sent st' @ ds"
      "\<forall>d\<in>set ds. promise_datagram (acceptor_id st') d"
      "promises_out ds t = batch_promises st' @ [promise_of r]" "batch_inv t"
    using add_promise_out [of st' r env] p(2,3) by metis
  moreover have "acc_inv env t = acc_inv env st'" "known env t = known env st'"
    "acceptor_id t = acceptor_id st'"
    using p(2) acc_inv_cong [of t st' env] known_cong [of t st' env] by (simp_all add: frame)
  ultimately show ?thesis
    using p by (auto simp: prepare_spec_def same_out_def promise_of_flatten)
qed

lemma fold_prepare_out:
  assumes "\<forall>m\<in>set ms. prepare_ok m" and "env_ok env" and "acc_inv env st" and "batch_inv st"
  defines "t \<equiv> fold (\<lambda>m s. snd (handle_prepare env m s)) ms st"
  shows "acc_inv env t \<and> known env t = fold prepare_spec ms (known env st) \<and> batch_inv t
    \<and> acceptor_id t = acceptor_id st
    \<and> (\<exists>ds. acc_sent t = acc_sent st @ ds \<and> (\<forall>d\<in>set ds. promise_datagram (acceptor_id st) d)
        \<and> promises_out ds t = batch_promises st @ prepare_replies ms (known env st))"
  using assms(1,3,4) unfolding t_def
proof (induction ms arbitrary: st)
  case Nil
  then show ?case by (auto simp: promises_out_def)
next
  case (Cons m ms)
  let ?s = "snd (handle_prepare env m st)"
  from Cons.prems have m: "prepare_ok m" and ms: "\<forall>m\<in>set ms. prepare_ok m" by simp_all
  note step = handle_prepare_out [OF Cons.prems(2) assms(2) m Cons.prems(3)]
  from step obtain ds1 where d1: "acc_sent ?s = acc_sent st @ ds1"
      "\<forall>d\<in>set ds1. promise_datagram (acceptor_id st) d"
      "promises_out ds1 ?s = batch_promises st @ prepare_replies [m] (known env st)"
    by blast
  let ?t = "fold (\<lambda>m s. snd (handle_prepare env m s)) ms ?s"
  have IH: "acc_inv env ?t \<and> known env ?t = fold prepare_spec ms (known env ?s) \<and> batch_inv ?t
    \<and> acceptor_id ?t = acceptor_id ?s
    \<and> (\<exists>ds. acc_sent ?t = acc_sent ?s @ ds \<and> (\<forall>d\<in>set ds. promise_datagram (acceptor_id ?s) d)
        \<and> promises_out ds ?t = batch_promises ?s @ prepare_replies ms (known env ?s))"
    using Cons.IH [of ?s] step ms by blast
  then obtain ds2 where d2: "acc_sent ?t = acc_sent ?s @ ds2"
      "\<forall>d\<in>set ds2. promise_datagram (acceptor_id ?s) d"
      "promises_out ds2 ?t = batch_promises ?s @ prepare_replies ms (known env ?s)"
    by blast
  have "promises_out (ds1 @ ds2) ?t = batch_promises st @ prepare_replies (m # ms) (known env st)"
    using d1(3) d2(3) step by (simp add: promises_out_def)
  moreover have "acc_sent ?t = acc_sent st @ ds1 @ ds2" using d1(1) d2(1) by simp
  moreover have "\<forall>d\<in>set (ds1 @ ds2). promise_datagram (acceptor_id st) d"
    using d1(2) d2(2) step by auto
  ultimately show ?case using IH step by (simp del: prepare_replies.simps)
qed

lemma handle_prepare_batch_out:
  assumes "\<forall>m\<in>set ms. prepare_ok m" and "env_ok env" and inv: "acc_inv env st"
  defines "t \<equiv> snd (handle_prepare_batch env ms st)"
  shows "acc_inv env t \<and> known env t = fold prepare_spec ms (known env st)
    \<and> acceptor_id t = acceptor_id st
    \<and> (\<exists>ds. acc_sent t = acc_sent st @ ds \<and> (\<forall>d\<in>set ds. promise_datagram (acceptor_id st) d)
        \<and> concat (map promises_in ds) = prepare_replies ms (known env st))"
proof -
  let ?st1 = "st\<lparr>send_buffer_size := sizeof_paxos_msg + sizeof_promise_batch_msg,
    batch_promises := [], batch_acceptor_id := acceptor_id st\<rparr>"
  let ?st2 = "fold (\<lambda>m s. snd (handle_prepare env m s)) ms ?st1"
  have st1: "acc_inv env ?st1" "known env ?st1 = known env st"
    using inv acc_inv_cong [of ?st1 st env] known_cong [of ?st1 st env] by simp_all
  have "batch_inv ?st1" using inv by (simp add: batch_inv_def acc_inv_def c_simps)
  note out = fold_prepare_out [OF assms(1,2) st1(1) this]
  then obtain ds where ds: "acc_sent ?st2 = acc_sent st @ ds"
      "\<forall>d\<in>set ds. promise_datagram (acceptor_id st) d"
      "promises_out ds ?st2 = prepare_replies ms (known env st)"
    using st1(2) by auto
  show ?thesis
  proof (cases "batch_promises ?st2 = []")
    case True
    then have "t = ?st2" by (simp add: t_def handle_prepare_batch_def Let_def)
    with True out st1 ds show ?thesis
      by (intro conjI exI [of _ ds]) (simp_all add: promises_out_def)
  next
    case False
    then have t: "t = flush_promises env ?st2" by (simp add: t_def handle_prepare_batch_def Let_def)
    from False out obtain d where d: "acc_sent t = acc_sent ?st2 @ [d]"
        "promise_datagram (acceptor_id ?st2) d" "promises_in d = batch_promises ?st2"
      unfolding t using flush_promises_sends [of ?st2 env] by blast
    have "acc_inv env t = acc_inv env ?st2" "known env t = known env ?st2"
      "acceptor_id t = acceptor_id ?st2"
      using t acc_inv_cong [of t ?st2 env] known_cong [of t ?st2 env] by (simp_all add: frame)
    with out st1 ds d show ?thesis
      by (intro conjI exI [of _ "ds @ [d]"]) (auto simp: promises_out_def)
  qed
qed

end
