(* ===== verification/Acceptor_Accept.thy ===== *)
theory Acceptor_Accept
  imports Acceptor_Correct
begin

text \<open>
  Accept, any and learner-sync requests against the abstract map of \<open>Acceptor_Correct\<close>, the
  invariant under every message, and the acceptor's event loop on encoded packets.
\<close>

section \<open>Specifications\<close>

text \<open>
  The any flag the handlers consult for an instance: the flag of its slot when the slot holds the
  instance; for an instance the disk returns, the indeterminate content of the fresh block.
\<close>

definition sees_any :: "'s acc_env \<Rightarrow> 's acceptor \<Rightarrow> int \<Rightarrow> bool" where
  "sees_any env st i =
     (if ar_iid (slot st i) = i then ar_any_enabled (slot st i) \<noteq> 0
      else ar_any_enabled (env_junk env (acc_mallocs st)) \<noteq> 0)"

definition accept_ok :: "bool \<Rightarrow> accept_msg \<Rightarrow> (int \<Rightarrow> flat_record option) \<Rightarrow> bool" where
  "accept_ok any m F =
     (case F (acm_iid m) of
        None \<Rightarrow> acm_ballot m \<ge> min_ballot
      | Some f \<Rightarrow> any \<or> (acm_ballot m \<ge> fl_ballot f \<and> acm_ballot m \<ge> min_ballot))"

definition accept_flat :: "accept_msg \<Rightarrow> flat_record" where
  "accept_flat m = \<lparr>fl_iid = acm_iid m, fl_ballot = acm_ballot m, fl_value_ballot = acm_ballot m,
     fl_value_size = acm_value_size m, fl_value = acm_value m\<rparr>"

definition learn_of_accept :: "int \<Rightarrow> accept_msg \<Rightarrow> learn_msg" where
  "learn_of_accept a m = \<lparr>lm_acceptor_id = a, lm_iid = acm_iid m, lm_ballot = acm_ballot m,
     lm_proposer_id = acm_proposer_id m, lm_value_size = acm_value_size m, lm_value = acm_value m\<rparr>"

definition accept_msg_ok :: "accept_msg \<Rightarrow> bool" where
  "accept_msg_ok m \<longleftrightarrow> valid_iid (acm_iid m) \<and> wf_accept m \<and> acm_value_size m \<le> PAXOS_MAX_VALUE_SIZE"

definition learn_datagram :: "learn_msg \<Rightarrow> datagram" where
  "learn_datagram l = (Learners_Net, 28 + lm_value_size l, Learn l)"

section \<open>Learn messages\<close>

lemma send_learn_sent:
  "acc_sent (snd (send_learn_message env r st)) = acc_sent st @ [learn_datagram (learn_of (acceptor_id st) r)]"
  by (simp add: send_learn_message_def flush_send_buffer_def learn_datagram_def learn_of_def Let_def
      c_simps)

lemma learn_datagram_ok:
  "rec_wf r \<Longrightarrow> valid_iid (ar_iid r) \<Longrightarrow> in_i32 a \<Longrightarrow> datagram_ok (learn_datagram (learn_of a r))"
  unfolding learn_datagram_def
  by (intro datagram_okI)
    (auto simp: packet_sizes learn_of_def rec_wf_def value_wf_def wf_learn_def in_i32_def valid_iid_def
      c_simps simp del: of_nat_add split: option.splits)

lemma accepted_record_wf:
  "accept_msg_ok m \<Longrightarrow> rec_wf (accepted_record r m) \<and> ar_iid (accepted_record r m) = acm_iid m"
  by (auto simp: accept_msg_ok_def wf_accept_def rec_wf_def value_wf_def accepted_record_def)

lemma accepted_record_flat:
  "accept_msg_ok m \<Longrightarrow> flatten (accepted_record r m) = accept_flat m"
  by (simp add: accept_msg_ok_def wf_accept_def accepted_record_def flatten_def accept_flat_def)

lemma learn_of_accepted:
  "accept_msg_ok m \<Longrightarrow> learn_of a (accepted_record r m) = learn_of_accept a m"
  by (simp add: accept_msg_ok_def wf_accept_def accepted_record_def learn_of_def learn_of_accept_def)

section \<open>Accept\<close>

text \<open>What a handler that accepts does, and what one that refuses does.\<close>

definition accepts :: "'s acc_env \<Rightarrow> accept_msg \<Rightarrow> 's acceptor \<Rightarrow> 's acceptor \<Rightarrow> bool" where
  "accepts env m st t \<longleftrightarrow> acc_inv env t \<and> known env t = (known env st)(acm_iid m \<mapsto> accept_flat m)
     \<and> acceptor_id t = acceptor_id st
     \<and> acc_sent t = acc_sent st @ [learn_datagram (learn_of_accept (acceptor_id st) m)]
     \<and> datagram_ok (learn_datagram (learn_of_accept (acceptor_id st) m))"

definition refuses :: "'s acc_env \<Rightarrow> 's acceptor \<Rightarrow> 's acceptor \<Rightarrow> bool" where
  "refuses env st t \<longleftrightarrow> acc_inv env t \<and> known env t = known env st
     \<and> acceptor_id t = acceptor_id st \<and> acc_sent t = acc_sent st"

lemma acceptsI:
  assumes m: "accept_msg_ok m" and inv: "acc_inv env st"
    and t: "t = snd (send_learn_message env (accepted_record r m) st')"
    and st': "acc_inv env st' \<and> known env st' = (known env st)(acm_iid m \<mapsto> flatten (accepted_record r m))
      \<and> same_out st st'"
  shows "accepts env m st t"
proof -
  note wf = accepted_record_wf [OF m, of r]
  have "acc_inv env t = acc_inv env st'" "known env t = known env st'"
    using t acc_inv_cong [of t st' env] known_cong [of t st' env] by (simp_all add: frame)
  moreover have "datagram_ok (learn_datagram (learn_of_accept (acceptor_id st) m))"
    using learn_datagram_ok [of "accepted_record r m" "acceptor_id st"] wf m inv
    by (simp add: learn_of_accepted accept_msg_ok_def acc_inv_def)
  ultimately show ?thesis
    using st' t m
    by (simp add: accepts_def accepted_record_flat send_learn_sent learn_of_accepted frame same_out_def)
qed

lemma accept_cached:
  assumes inv: "acc_inv env st" and env: "env_ok env" and m: "accept_msg_ok m"
    and new: "ar_iid (slot st (acm_iid m)) \<le> acm_iid m"
  shows "if accept_ok (sees_any env st (acm_iid m)) m (known env st)
    then accepts env m st (snd (handle_accept env m st))
    else refuses env st (snd (handle_accept env m st))"
proof -
  let ?i = "acm_iid m" and ?k = "GET_ACC_INDEX (acm_iid m)" and ?t = "snd (handle_accept env m st)"
  from m have v: "valid_iid ?i" by (simp add: accept_msg_ok_def)
  have yes: "accepts env m st ?t"
    if "?t = snd (send_learn_message env (accepted_record r m)
        (set_slot ?k (accepted_record r m) (update_disk env (accepted_record r m) st)))" for r
  proof (rule acceptsI [OF m inv that])
    have "set_slot ?k (accepted_record r m) (update_disk env (accepted_record r m) st)
        = update_disk env (accepted_record r m) (set_slot ?k (accepted_record r m) st)"
      by (simp add: set_slot_def update_disk_def)
    then show "acc_inv env (set_slot ?k (accepted_record r m) (update_disk env (accepted_record r m) st))
      \<and> known env (set_slot ?k (accepted_record r m) (update_disk env (accepted_record r m) st))
          = (known env st)(?i \<mapsto> flatten (accepted_record r m))
      \<and> same_out st (set_slot ?k (accepted_record r m) (update_disk env (accepted_record r m) st))"
      using stored_cached [OF inv env v _ _ new] accepted_record_wf [OF m] by simp
  qed
  have no: "refuses env st ?t" if "?t = st" using that inv by (simp add: refuses_def)
  show ?thesis
  proof (cases "ar_iid (slot st ?i) = ?i")
    case True
    have "accept_ok (sees_any env st ?i) m (known env st) = accept_enabled (slot st ?i) (acm_ballot m)"
      using slot_hit [OF inv v True] True
      by (simp add: accept_ok_def accept_enabled_def sees_any_def flatten_def)
    then show ?thesis
      using True yes [of "clear_any (slot st ?i)"] no
      by (simp add: handle_accept_def apply_accept_def slot_def Let_def)
  next
    case False
    with new have "ar_iid (slot st ?i) < ?i" by simp
    then show ?thesis
      using slot_fresh [OF inv v] yes [of "slot st ?i"] no
      by (simp add: accept_ok_def handle_accept_def apply_accept_def slot_def Let_def)
  qed
qed

lemma accept_evicted:
  assumes inv: "acc_inv env st" and env: "env_ok env" and m: "accept_msg_ok m"
    and old: "acm_iid m < ar_iid (slot st (acm_iid m))"
  shows "if accept_ok (sees_any env st (acm_iid m)) m (known env st)
    then accepts env m st (snd (handle_accept env m st))
    else refuses env st (snd (handle_accept env m st))"
proof -
  let ?i = "acm_iid m" and ?t = "snd (handle_accept env m st)" and ?st1 = "snd (malloc_record env st)"
  from m have v: "valid_iid ?i" by (simp add: accept_msg_ok_def)
  have yes: "accepts env m st ?t"
    if "?t = snd (send_learn_message env (accepted_record r m)
        (update_disk env (accepted_record r m) ?st1))" for r
    using stored_evicted [OF inv env v _ _ old, of "accepted_record r m" ?st1]
      accepted_record_wf [OF m, of r]
    by (intro acceptsI [OF m inv that]) (simp_all add: frame same_out_def)
  have no: "refuses env st ?t" if "?t = st \<or> ?t = ?st1"
    using that inv by (auto simp: refuses_def acc_inv_malloc known_malloc frame)
  note lk = lookup_disk_known [OF env v, of st]
  show ?thesis
  proof (cases "known env st ?i")
    case None
    then show ?thesis
      using old lk yes [of "(env_junk env (acc_mallocs st))\<lparr>ar_value := None\<rparr>"] no
      by (cases "min_ballot \<le> acm_ballot m")
        (simp_all add: accept_ok_def handle_accept_def apply_accept_def slot_def malloc_record_def Let_def)
  next
    case (Some f)
    let ?u = "unflatten (env_junk env (acc_mallocs st)) f"
    have "accept_ok (sees_any env st ?i) m (known env st) = accept_enabled ?u (acm_ballot m)"
      using Some old by (simp add: accept_ok_def accept_enabled_def sees_any_def unflatten_def)
    then show ?thesis
      using Some old lk yes [of "clear_any ?u"] no
      by (cases "accept_enabled ?u (acm_ballot m)")
        (simp_all add: handle_accept_def apply_accept_def slot_def Let_def)
  qed
qed

lemma handle_accept_out:
  assumes "acc_inv env st" and "env_ok env" and "accept_msg_ok m"
  shows "if accept_ok (sees_any env st (acm_iid m)) m (known env st)
    then accepts env m st (snd (handle_accept env m st))
    else refuses env st (snd (handle_accept env m st))"
  using accept_cached [OF assms] accept_evicted [OF assms] by (cases rule: linorder_le_cases
      [of "ar_iid (slot st (acm_iid m))" "acm_iid m"]) (auto simp: le_less)

section \<open>Any\<close>

definition any_flat :: "int \<Rightarrow> int \<Rightarrow> flat_record" where
  "any_flat i b = \<lparr>fl_iid = i, fl_ballot = b, fl_value_ballot = -1, fl_value_size = 0, fl_value = []\<rparr>"

definition any_ok :: "bool \<Rightarrow> int \<Rightarrow> int \<Rightarrow> (int \<Rightarrow> flat_record option) \<Rightarrow> bool" where
  "any_ok any b i F = (case F i of None \<Rightarrow> True | Some f \<Rightarrow> any \<or> b \<ge> fl_ballot f)"

text \<open>The branch that passes the null pointer on.\<close>

definition any_crashes :: "'s acc_env \<Rightarrow> 's acceptor \<Rightarrow> int \<Rightarrow> bool" where
  "any_crashes env st i \<longleftrightarrow> i < ar_iid (slot st i) \<and> known env st i = None"

lemma anyval_record_wf:
  "in_i32 b \<Longrightarrow> rec_wf (anyval_record r i b) \<and> ar_iid (anyval_record r i b) = i
     \<and> flatten (anyval_record r i b) = any_flat i b"
  by (simp add: rec_wf_def value_wf_def anyval_record_def flatten_def any_flat_def in_i32_def c_simps)

definition anys :: "'s acc_env \<Rightarrow> int \<Rightarrow> int \<Rightarrow> 's acceptor \<Rightarrow> 's acceptor \<Rightarrow> bool" where
  "anys env b i st t \<longleftrightarrow> acc_inv env t \<and> known env t = (known env st)(i \<mapsto> any_flat i b)
     \<and> acceptor_id t = acceptor_id st \<and> acc_sent t = acc_sent st
     \<and> (ar_iid (slot st i) \<le> i \<longrightarrow> ar_any_enabled (slot t i) = 1)"

lemma handle_anyval_cached:
  assumes inv: "acc_inv env st" and env: "env_ok env" and v: "valid_iid i" and b: "in_i32 b"
    and new: "ar_iid (slot st i) \<le> i"
  obtains t where "handle_anyval env b i st = Some (if any_ok (sees_any env st i) b i (known env st) then 1 else 0, t)"
    "if any_ok (sees_any env st i) b i (known env st) then anys env b i st t else refuses env st t"
proof -
  let ?r = "anyval_record (slot st i) i b"
  let ?t = "set_slot (GET_ACC_INDEX i) ?r (update_disk env ?r st)"
  note wf = anyval_record_wf [OF b, of "slot st i" i]
  have "?t = update_disk env ?r (set_slot (GET_ACC_INDEX i) ?r st)"
    by (simp add: set_slot_def update_disk_def)
  then have t: "anys env b i st ?t"
    using stored_cached [OF inv env v _ _ new, of ?r] wf
    by (simp add: anys_def same_out_def) (simp add: slot_def set_slot_def update_disk_def anyval_record_def)
  show thesis
  proof (cases "ar_iid (slot st i) = i")
    case True
    have ok: "any_ok (sees_any env st i) b i (known env st)
        = (ar_any_enabled (slot st i) \<noteq> 0 \<or> b \<ge> ar_ballot (slot st i))"
      using slot_hit [OF inv v True] True by (simp add: any_ok_def sees_any_def flatten_def)
    show thesis
    proof (cases "any_ok (sees_any env st i) b i (known env st)")
      case True
      with ok t show thesis
        by (intro that [of ?t]) (use \<open>ar_iid (slot st i) = i\<close> in
            \<open>simp_all add: handle_anyval_def apply_anyval_def slot_def Let_def\<close>)
    next
      case False
      with ok inv show thesis
        by (intro that [of st]) (use \<open>ar_iid (slot st i) = i\<close> in
            \<open>simp_all add: handle_anyval_def refuses_def slot_def Let_def\<close>)
    qed
  next
    case False
    with new have less: "ar_iid (slot st i) < i" by simp
    then have "any_ok (sees_any env st i) b i (known env st)"
      using slot_fresh [OF inv v] by (simp add: any_ok_def)
    with t less show thesis
      by (intro that [of ?t]) (simp_all add: handle_anyval_def apply_anyval_def slot_def Let_def)
  qed
qed

lemma handle_anyval_evicted:
  assumes inv: "acc_inv env st" and env: "env_ok env" and v: "valid_iid i" and b: "in_i32 b"
    and old: "i < ar_iid (slot st i)" and some: "known env st i = Some f"
  obtains t where "handle_anyval env b i st = Some (if any_ok (sees_any env st i) b i (known env st) then 1 else 0, t)"
    "if any_ok (sees_any env st i) b i (known env st) then anys env b i st t else refuses env st t"
proof -
  let ?u = "unflatten (env_junk env (acc_mallocs st)) f" and ?st1 = "snd (malloc_record env st)"
  let ?r = "anyval_record ?u i b"
  note wf = anyval_record_wf [OF b, of ?u i]
  have lk: "lookup_disk env i st = (Some ?u, ?st1)"
    using lookup_disk_known [OF env v, of st] some by simp
  have t: "anys env b i st (update_disk env ?r ?st1)"
    using stored_evicted [OF inv env v _ _ old, of ?r ?st1] wf old
    by (simp add: anys_def same_out_def frame)
  have ok: "any_ok (sees_any env st i) b i (known env st)
      = (ar_any_enabled ?u \<noteq> 0 \<or> b \<ge> ar_ballot ?u)"
    using some old by (simp add: any_ok_def sees_any_def unflatten_def)
  show thesis
  proof (cases "any_ok (sees_any env st i) b i (known env st)")
    case True
    with ok t lk old show thesis
      by (intro that [of "update_disk env ?r ?st1"])
        (simp_all add: handle_anyval_def apply_anyval_def slot_def Let_def)
  next
    case False
    with ok inv lk old show thesis
      by (intro that [of ?st1])
        (simp_all add: handle_anyval_def refuses_def slot_def Let_def acc_inv_malloc known_malloc frame)
  qed
qed

lemma handle_anyval_crash:
  assumes "env_ok env" and "valid_iid i" and "any_crashes env st i"
  shows "handle_anyval env b i st = None"
  using assms lookup_disk_known [of env i st]
  by (simp add: any_crashes_def handle_anyval_def slot_def Let_def)

lemma handle_anyval_out:
  assumes inv: "acc_inv env st" and env: "env_ok env" and v: "valid_iid i" and b: "in_i32 b"
  shows "case handle_anyval env b i st of
      None \<Rightarrow> any_crashes env st i
    | Some (ret, t) \<Rightarrow> \<not> any_crashes env st i
        \<and> (if any_ok (sees_any env st i) b i (known env st) then ret = 1 \<and> anys env b i st t
           else ret = 0 \<and> refuses env st t)"
proof (cases "ar_iid (slot st i) \<le> i")
  case True
  show ?thesis
    by (rule handle_anyval_cached [OF inv env v b True]) (use True in \<open>auto simp: any_crashes_def\<close>)
next
  case False
  then have old: "i < ar_iid (slot st i)" by simp
  show ?thesis
  proof (cases "known env st i")
    case None
    with old have "any_crashes env st i" by (simp add: any_crashes_def)
    with handle_anyval_crash [OF env v] show ?thesis by simp
  next
    case (Some f)
    show ?thesis
      by (rule handle_anyval_evicted [OF inv env v b old Some]) (use Some in \<open>auto simp: any_crashes_def\<close>)
  qed
qed

section \<open>Learner synchronisation\<close>

definition learn_of_flat :: "int \<Rightarrow> int \<Rightarrow> flat_record \<Rightarrow> learn_msg" where
  "learn_of_flat a p f = \<lparr>lm_acceptor_id = a, lm_iid = fl_iid f, lm_ballot = fl_ballot f,
     lm_proposer_id = p, lm_value_size = fl_value_size f, lm_value = fl_value f\<rparr>"

text \<open>
  The answer to a sync request: nothing for an instance without a record or with a record in
  memory that holds no value; the record in memory; or, from disk, the record whatever it is,
  with the proposer id the fresh block happens to hold.
\<close>

definition lsync_reply :: "'s acc_env \<Rightarrow> 's acceptor \<Rightarrow> int \<Rightarrow> learn_msg option" where
  "lsync_reply env st i =
     (case known env st i of
        None \<Rightarrow> None
      | Some f \<Rightarrow>
          if ar_iid (slot st i) = i
          then (if ar_value (slot st i) = None then None
                else Some (learn_of_flat (acceptor_id st) (ar_proposer_id (slot st i)) f))
          else Some (learn_of_flat (acceptor_id st)
                 (ar_proposer_id (env_junk env (acc_mallocs st))) f))"

definition replies :: "learn_msg option \<Rightarrow> datagram list" where
  "replies l = (case l of None \<Rightarrow> [] | Some l \<Rightarrow> [learn_datagram l])"

lemma learn_of_flatten: "learn_of a r = learn_of_flat a (ar_proposer_id r) (flatten r)"
  by (simp add: learn_of_def learn_of_flat_def flatten_def)

lemma unflatten_proposer [simp]: "ar_proposer_id (unflatten junk f) = ar_proposer_id junk"
  by (simp add: unflatten_def)

lemma handle_lsync_sent:
  assumes inv: "acc_inv env st" and env: "env_ok env" and v: "valid_iid i"
  defines "t \<equiv> snd (handle_lsync env i st)"
  shows "acc_inv env t \<and> known env t = known env st \<and> acceptor_id t = acceptor_id st
    \<and> acc_sent t = acc_sent st @ replies (lsync_reply env st i)"
proof -
  let ?s = "slot st i"
  have send: ?thesis
    if t: "t = snd (send_learn_message env r st')" and l: "lsync_reply env st i = Some (learn_of (acceptor_id st) r)"
      and st': "st' = st \<or> st' = snd (malloc_record env st)" for r st'
  proof -
    have "acc_inv env st'" "known env st' = known env st" "acceptor_id st' = acceptor_id st"
      "acc_sent st' = acc_sent st"
      using st' inv by (auto simp: acc_inv_malloc known_malloc frame)
    moreover have "acc_inv env t = acc_inv env st'" "known env t = known env st'"
      using t acc_inv_cong [of t st' env] known_cong [of t st' env] by (simp_all add: frame)
    ultimately show ?thesis using t l by (simp add: send_learn_sent replies_def frame)
  qed
  have none: ?thesis if "t = st" "lsync_reply env st i = None"
    using that inv by (simp add: replies_def)
  consider (fresh) "ar_iid ?s < i" | (hit) "ar_iid ?s = i" | (evicted) "i < ar_iid ?s" by linarith
  then show ?thesis
  proof cases
    case fresh
    then show ?thesis
      using slot_fresh [OF inv v fresh]
      by (intro none) (simp_all add: t_def handle_lsync_def lsync_reply_def slot_def Let_def)
  next
    case hit
    show ?thesis
    proof (cases "ar_value ?s")
      case None
      with hit show ?thesis
        by (intro none) (simp_all add: t_def handle_lsync_def lsync_reply_def slot_def Let_def
            split: option.split)
    next
      case (Some v')
      with hit slot_hit [OF inv v hit] show ?thesis
        by (intro send [of ?s st])
          (simp_all add: t_def handle_lsync_def lsync_reply_def learn_of_flatten slot_def Let_def)
    qed
  next
    case evicted
    show ?thesis
    proof (cases "known env st i")
      case None
      with evicted lookup_disk_known [OF env v, of st] show ?thesis
        by (intro none) (simp_all add: t_def handle_lsync_def lsync_reply_def slot_def Let_def)
    next
      case (Some f)
      let ?u = "unflatten (env_junk env (acc_mallocs st)) f"
      have "flatten ?u = f" using known_wf [OF inv Some] by (rule flatten_unflatten_wf)
      with Some evicted lookup_disk_known [OF env v, of st] show ?thesis
        by (intro send [of ?u "snd (malloc_record env st)"])
          (simp_all add: t_def handle_lsync_def lsync_reply_def learn_of_flatten slot_def Let_def)
    qed
  qed
qed

lemma lsync_reply_ok:
  assumes inv: "acc_inv env st" and env: "env_ok env" and v: "valid_iid i"
    and l: "lsync_reply env st i = Some l"
  shows "datagram_ok (learn_datagram l)"
proof -
  obtain f p where f: "known env st i = Some f" and lf: "l = learn_of_flat (acceptor_id st) p f"
    and p: "in_i32 p"
    using l slot_wf [OF inv, of i] env
    by (auto simp: lsync_reply_def env_ok_def rec_wf_def split: option.splits if_splits)
  have fw: "flat_wf i f" using known_wf [OF inv f] .
  define r where "r = (undefined :: acceptor_record)\<lparr>ar_iid := i, ar_proposer_id := p,
    ar_ballot := fl_ballot f, ar_value_ballot := fl_value_ballot f,
    ar_value_size := fl_value_size f, ar_value := Some (fl_value f)\<rparr>"
  have "rec_wf r" "ar_iid r = i" "l = learn_of (acceptor_id st) r"
    using fw p lf by (simp_all add: r_def rec_wf_def flat_wf_def learn_of_def learn_of_flat_def value_wf_def)
  then show ?thesis
    using learn_datagram_ok [of r "acceptor_id st"] v inv by (simp add: acc_inv_def)
qed

section \<open>Every message keeps the invariant\<close>

text \<open>
  The messages a correct peer sends: instance ids that have a record number, ballots that are
  not negative in a prepare, values within the library's limit.
\<close>

fun packet_ok :: "packet \<Rightarrow> bool" where
  "packet_ok (Prepare_Batch ms) \<longleftrightarrow> list_all prepare_ok ms"
| "packet_ok (Accept m) \<longleftrightarrow> accept_msg_ok m"
| "packet_ok (Lsync ids) \<longleftrightarrow> list_all valid_iid ids"
| "packet_ok (Anyval b ids) \<longleftrightarrow> in_i32 b \<and> list_all valid_iid ids"
| "packet_ok _ \<longleftrightarrow> True"

text \<open>The invariant of a run: the records, and all that was ever handed to the network.\<close>

definition run_inv :: "'s acc_env \<Rightarrow> 's acceptor \<Rightarrow> bool" where
  "run_inv env st \<longleftrightarrow> acc_inv env st \<and> (\<forall>d\<in>set (acc_sent st). datagram_ok d)"

lemma handle_lsync_run:
  assumes "run_inv env st" and "env_ok env" and "valid_iid i"
  shows "run_inv env (snd (handle_lsync env i st))"
  using assms handle_lsync_sent [of env st i] lsync_reply_ok [of env st i]
  by (auto simp: run_inv_def replies_def split: option.splits)

lemma handle_anyval_run:
  assumes "run_inv env st" and "env_ok env" and "valid_iid i" and "in_i32 b"
    and "handle_anyval env b i st = Some (ret, t)"
  shows "run_inv env t"
  using assms handle_anyval_out [of env st i b]
  by (auto simp: run_inv_def anys_def refuses_def split: if_splits)

lemma handle_message_run:
  assumes inv: "run_inv env st" and env: "env_ok env" and p: "packet_ok p"
    and msg: "handle_message env p st = Some (ret, t)"
  shows "run_inv env t"
proof (cases p)
  case (Prepare_Batch ms)
  with p msg handle_prepare_batch_out [OF _ env, of ms st] inv show ?thesis
    by (auto simp: run_inv_def list_all_iff promise_datagram_def)
next
  case (Accept m)
  with p msg handle_accept_out [OF _ env, of st m] inv show ?thesis
    by (auto simp: run_inv_def accepts_def refuses_def split: if_splits)
next
  case (Lsync ids)
  have "run_inv env (fold (\<lambda>i s. snd (handle_lsync env i s)) ids st)"
    by (rule fold_invariant_set [where P = "run_inv env"])
      (use Lsync p inv env in \<open>auto simp: list_all_iff handle_lsync_run\<close>)
  with Lsync msg show ?thesis by (auto simp: handle_batch_lsync_def)
next
  case (Anyval b ids)
  with msg have o: "ofold (\<lambda>i s. map_option snd (handle_anyval env b i s)) ids st = Some t"
    by (auto simp: handle_batch_anyval_def)
  show ?thesis
  proof (rule ofold_invariant [where P = "run_inv env", OF _ inv o])
    fix i s s'
    assume "i \<in> set ids" "run_inv env s" "map_option snd (handle_anyval env b i s) = Some s'"
    with Anyval p env show "run_inv env s'" by (auto simp: list_all_iff intro: handle_anyval_run)
  qed
qed (use msg inv in auto)

section \<open>The event loop on encoded packets\<close>

lemma received_encode:
  assumes "length buf = nat MAX_UDP_MSG_SIZE" and "wf_packet p"
  shows "recv_into buf (encode_packet p) = encode_packet p @ drop (length (encode_packet p)) buf"
    and "received buf (encode_packet p) = int (length (encode_packet p))"
  using assms by (simp_all add: wf_packet_def recv_into_short received_def c_simps)

lemma get_next_message_encode:
  assumes buf: "length (acc_recv_buffer st) = nat MAX_UDP_MSG_SIZE" and p: "wf_packet p"
  defines "st1 \<equiv> st\<lparr>acc_recv_buffer := recv_into (acc_recv_buffer st) (encode_packet p)\<rparr>"
  shows "get_next_message env (Recv (encode_packet p)) st = map_option snd (handle_message env p st1)"
proof -
  note r = received_encode [OF buf p]
  let ?buf = "recv_into (acc_recv_buffer st) (encode_packet p)"
  have "size_matches ?buf (received (acc_recv_buffer st) (encode_packet p))"
    unfolding r using p by (rule size_matches_encode)
  moreover have "rd32 ?buf 4 = Some (packet_type p)"
    unfolding r by (rule rd32_encode_type)
  moreover have "rd_packet ?buf = Some p"
    unfolding r using p by (rule rd_packet_encode)
  moreover have "packet_type p \<in> {PAXOS_PREPARE, PAXOS_ACCEPT, PAXOS_LSYNC, PAXOS_ANYVAL}
      \<or> packet_type p \<notin> {PAXOS_PREPARE, PAXOS_ACCEPT, PAXOS_LSYNC, PAXOS_ANYVAL}
        \<and> handle_message env p st1 = Some (1, st1)"
    by (cases p) (simp_all add: c_simps)
  ultimately show ?thesis
    unfolding st1_def get_next_message_def by (elim disjE conjE) (simp_all only: Let_def
        recv_result.case option.case if_True if_False not_True_eq_False option.map snd_conv)
qed

text \<open>
  The states the event loop can reach from a new database when correct peers send on the group
  and the network drops, repeats, reorders and truncates datagrams.
\<close>

inductive acceptor_reach :: "'s acc_env \<Rightarrow> int \<Rightarrow> 's \<Rightarrow> 's acceptor \<Rightarrow> bool"
  for env :: "'s acc_env" and i :: int and db0 :: 's where
  start: "acceptor_reach env i db0 (acceptor_init i db0)"
| packet: "acceptor_reach env i db0 st \<Longrightarrow> wf_packet p \<Longrightarrow> packet_ok p \<Longrightarrow>
    get_next_message env (Recv (encode_packet p)) st = Some t \<Longrightarrow> acceptor_reach env i db0 t"
| damaged: "acceptor_reach env i db0 st \<Longrightarrow>
    \<not> size_matches (recv_into (acc_recv_buffer st) d) (received (acc_recv_buffer st) d) \<Longrightarrow>
    get_next_message env (Recv d) st = Some t \<Longrightarrow> acceptor_reach env i db0 t"
| failed: "acceptor_reach env i db0 st \<Longrightarrow>
    get_next_message env Recv_Fail st = Some t \<Longrightarrow> acceptor_reach env i db0 t"

definition empty_db :: "'s acc_env \<Rightarrow> 's \<Rightarrow> bool" where
  "empty_db env db \<longleftrightarrow> (\<forall>i. valid_iid i \<longrightarrow> disk_read (env_db env) db i = None)"

lemma acc_inv_init:
  "empty_db env db0 \<Longrightarrow> in_i32 i \<Longrightarrow> acc_inv env (acceptor_init i db0)"
  by (auto simp: acc_inv_def acceptor_init_def coherent_def empty_db_def known_def rec_wf_def
      value_wf_def static_record_def in_i32_def valid_iid_def c_simps)

lemma run_inv_recv_buffer:
  "run_inv env st \<Longrightarrow> run_inv env (st\<lparr>acc_recv_buffer := recv_into (acc_recv_buffer st) d\<rparr>)"
  by (auto simp: run_inv_def acc_inv_def known_def)

lemma acceptor_reach_run_inv:
  assumes "acceptor_reach env i db0 st" and env: "env_ok env" and "empty_db env db0" and "in_i32 i"
  shows "run_inv env st"
  using assms(1)
proof (induction rule: acceptor_reach.induct)
  case start
  show ?case using acc_inv_init [OF assms(3,4)] by (simp add: run_inv_def acceptor_init_def)
next
  case (packet st p t)
  have "length (acc_recv_buffer st) = nat MAX_UDP_MSG_SIZE"
    using packet.IH by (simp add: run_inv_def acc_inv_def)
  with packet.hyps obtain ret where
    "handle_message env p (st\<lparr>acc_recv_buffer := recv_into (acc_recv_buffer st) (encode_packet p)\<rparr>) = Some (ret, t)"
    by (auto simp: get_next_message_encode)
  then show ?case using handle_message_run run_inv_recv_buffer packet env by blast
next
  case (damaged st d t)
  then show ?case using run_inv_recv_buffer [of env st d] by (simp add: get_next_message_def Let_def)
next
  case (failed st t)
  then show ?case by (simp add: get_next_message_def)
qed

end
