(* ===== verification/Acceptor_Properties.thy ===== *)
theory Acceptor_Properties
  imports Acceptor_Accept
begin

text \<open>
  The properties of the acceptor, each with a witness on a concrete run over a database kept as a
  map. The first group is what the acceptor guarantees; the second is where the code departs from
  the protocol: a promise answered as a value, an any flag that outlives a promise, an accepted
  value that is forgotten, a null pointer.
\<close>

section \<open>A concrete acceptor for the witnesses\<close>

definition wit_env :: "(32 word \<Rightarrow> flat_record option) acc_env" where
  "wit_env = \<lparr>env_db = map_bdb, env_junk = (\<lambda>_. static_record), env_sendto = (\<lambda>d. fst (snd d))\<rparr>"

definition wit_init :: "(32 word \<Rightarrow> flat_record option) acceptor" where
  "wit_init = acceptor_init 1 (\<lambda>_. None)"

lemma wit_env_ok [simp]: "env_ok wit_env"
  by (simp add: env_ok_def wit_env_def static_record_def in_i32_def)

lemma wit_empty [simp]: "empty_db wit_env (\<lambda>_. None)"
  by (simp add: empty_db_def wit_env_def disk_read_def map_bdb_def)

lemma wit_inv [simp]: "acc_inv wit_env wit_init"
  unfolding wit_init_def by (intro acc_inv_init) (simp_all add: in_i32_def)

lemma wit_known [simp]: "known wit_env wit_init = (\<lambda>_. None)"
  by (simp add: known_def fun_eq_iff wit_init_def acceptor_init_def disk_read_def wit_env_def map_bdb_def)

lemma wit_slot: "slot wit_init i = static_record"
  by (simp add: slot_def wit_init_def acceptor_init_def)

definition wit_prepare :: prepare_msg where
  "wit_prepare = \<lparr>pm_iid = 5, pm_ballot = 20\<rparr>"

definition wit_accept :: accept_msg where
  "wit_accept = \<lparr>acm_iid = 5, acm_ballot = 20, acm_value_size = 2, acm_proposer_id = 1,
     acm_value = [104, 105]\<rparr>"

lemma wit_prepare_ok [simp]: "prepare_ok wit_prepare"
  by (simp add: prepare_ok_def wit_prepare_def valid_iid_def in_i32_def)

lemma wit_accept_ok [simp]: "accept_msg_ok wit_accept"
  by (simp add: accept_msg_ok_def wit_accept_def valid_iid_def wf_accept_def in_i32_def c_simps)

section \<open>What the acceptor guarantees\<close>

text \<open>C6. In every state the acceptor's event loop can reach from a new database, whatever the
  network drops, repeats, reorders or damages, the record array and the database agree (the array
  is a write-through cache of the disk, slot collisions included), every record is well formed,
  and every datagram handed to the network is a well-formed packet of at most
  \<^verbatim>\<open>MAX_UDP_MSG_SIZE\<close> bytes whose byte count is the one passed to \<^verbatim>\<open>sendto\<close>.\<close>

theorem acceptor_run_invariant:
  assumes "acceptor_reach env i db0 st" and "env_ok env" and "empty_db env db0" and "in_i32 i"
  shows "acc_inv env st \<and> (\<forall>d\<in>set (acc_sent st). datagram_ok d)"
  using acceptor_reach_run_inv [OF assms] by (simp add: run_inv_def)

lemma wit_reach:
  "\<exists>st. acceptor_reach wit_env 1 (\<lambda>_. None) st \<and> acc_sent st \<noteq> []"
proof -
  let ?p = "Prepare_Batch [wit_prepare]"
  let ?st1 = "wit_init\<lparr>acc_recv_buffer := recv_into (acc_recv_buffer wit_init) (encode_packet ?p)\<rparr>"
  let ?t = "snd (handle_prepare_batch wit_env [wit_prepare] ?st1)"
  have p: "wf_packet ?p" "packet_ok ?p"
    by (simp_all add: wf_packet_def length_encode_packet wit_prepare_def wf_prepare_def in_i32_def c_simps)
      (simp add: prepare_ok_def valid_iid_def in_i32_def)
  have "length (acc_recv_buffer wit_init) = nat MAX_UDP_MSG_SIZE"
    by (simp add: wit_init_def acceptor_init_def)
  then have "get_next_message wit_env (Recv (encode_packet ?p)) wit_init = Some ?t"
    using p by (simp add: get_next_message_encode)
  then have reach: "acceptor_reach wit_env 1 (\<lambda>_. None) ?t"
    using acceptor_reach.packet [OF acceptor_reach.start p] by (simp add: wit_init_def)
  have "run_inv wit_env wit_init"
    using wit_inv by (simp add: run_inv_def) (simp add: wit_init_def acceptor_init_def)
  then have inv: "acc_inv wit_env ?st1" "known wit_env ?st1 = (\<lambda>_. None)"
    using run_inv_recv_buffer [of wit_env wit_init] known_cong [of ?st1 wit_init wit_env]
    by (simp_all add: run_inv_def)
  obtain ds where ds: "acc_sent ?t = acc_sent ?st1 @ ds"
      "concat (map promises_in ds) = prepare_replies [wit_prepare] (\<lambda>_. None)"
    using handle_prepare_batch_out [OF _ wit_env_ok inv(1), of "[wit_prepare]"] inv(2) by auto
  then have "ds \<noteq> []" by (auto simp: prepare_flat_def)
  with ds reach show ?thesis by (intro exI [of _ ?t]) simp
qed

theorem acceptor_run_invariant_witness:
  "\<exists>st. acceptor_reach wit_env 1 (\<lambda>_. None) st \<and> acc_sent st \<noteq> []
     \<and> acc_inv wit_env st \<and> (\<forall>d\<in>set (acc_sent st). datagram_ok d)"
proof -
  obtain st where st: "acceptor_reach wit_env 1 (\<lambda>_. None) st" "acc_sent st \<noteq> []"
    using wit_reach by blast
  moreover have "in_i32 1" by (simp add: in_i32_def)
  ultimately show ?thesis using acceptor_run_invariant [OF st(1)] by auto
qed

text \<open>C7. A batch of prepares is answered as the abstract map prescribes: each prepare of an
  unknown instance or with a higher ballot raises the recorded ballot and is answered with the
  accepted ballot and value on record, in the order of the batch; all others change nothing. The
  answers are spread over as many non-empty promise packets as the datagram size demands, each
  carrying this acceptor's id.\<close>

theorem handle_prepare_batch_correct:
  assumes "acc_inv env st" and "env_ok env" and "\<forall>m\<in>set ms. prepare_ok m"
  defines "t \<equiv> snd (handle_prepare_batch env ms st)"
  shows "acc_inv env t \<and> known env t = fold prepare_spec ms (known env st)
    \<and> (\<exists>ds. acc_sent t = acc_sent st @ ds \<and> (\<forall>d\<in>set ds. promise_datagram (acceptor_id st) d)
        \<and> concat (map promises_in ds) = prepare_replies ms (known env st))"
  using handle_prepare_batch_out [OF assms(3,2,1)] unfolding t_def by blast

theorem handle_prepare_batch_correct_witness:
  "prepare_ok wit_prepare \<and>
   known wit_env (snd (handle_prepare_batch wit_env [wit_prepare] wit_init)) 5
     = Some \<lparr>fl_iid = 5, fl_ballot = 20, fl_value_ballot = -1, fl_value_size = 0, fl_value = []\<rparr>"
  using handle_prepare_batch_correct [of wit_env wit_init "[wit_prepare]"]
  by (simp add: prepare_spec_def prepare_flat_def) (simp add: wit_prepare_def)

text \<open>C8. An accept request is decided by the record alone: for an unknown instance by the minimum
  ballot; otherwise by the any flag or by a ballot not below the recorded one and the minimum. If
  it is accepted, the record becomes the request's ballot and value and exactly one well-formed
  learn message for it goes to the learners; if not, nothing is recorded and nothing sent. This
  holds whether the record was in the array or had to be fetched from disk.\<close>

theorem handle_accept_correct:
  assumes "acc_inv env st" and "env_ok env" and "accept_msg_ok m"
  shows "if accept_ok (sees_any env st (acm_iid m)) m (known env st)
    then accepts env m st (snd (handle_accept env m st))
    else refuses env st (snd (handle_accept env m st))"
  using handle_accept_out [OF assms] .

theorem handle_accept_correct_witness:
  "accept_msg_ok wit_accept \<and> accepts wit_env wit_accept wit_init (snd (handle_accept wit_env wit_accept wit_init))"
  using handle_accept_correct [OF wit_inv wit_env_ok wit_accept_ok]
  by (simp add: accept_ok_def) (simp add: wit_accept_def min_ballot_def c_simps)

text \<open>C14. A promise is respected by an acceptor that is not any-enabled for the instance: an
  accept below the recorded ballot changes no record and sends nothing.\<close>

theorem promise_respected:
  assumes "acc_inv env st" and "env_ok env" and "accept_msg_ok m"
    and "known env st (acm_iid m) = Some f" and "acm_ballot m < fl_ballot f"
    and "\<not> sees_any env st (acm_iid m)"
  shows "known env (snd (handle_accept env m st)) = known env st
    \<and> acc_sent (snd (handle_accept env m st)) = acc_sent st"
  using handle_accept_out [OF assms(1-3)] assms(4-6) by (simp add: accept_ok_def refuses_def)

text \<open>A state that has promised ballot 30 for instance 5.\<close>

definition wit_promised :: "(32 word \<Rightarrow> flat_record option) acceptor" where
  "wit_promised = snd (handle_prepare_batch wit_env [wit_prepare\<lparr>pm_ballot := 30\<rparr>] wit_init)"

lemma wit_promised_facts:
  "acc_inv wit_env wit_promised"
  "known wit_env wit_promised 5
     = Some \<lparr>fl_iid = 5, fl_ballot = 30, fl_value_ballot = -1, fl_value_size = 0, fl_value = []\<rparr>"
  using handle_prepare_batch_out [of "[wit_prepare\<lparr>pm_ballot := 30\<rparr>]" wit_env wit_init]
  by (simp_all add: wit_promised_def prepare_spec_def prepare_flat_def)
    (simp_all add: wit_prepare_def prepare_ok_def valid_iid_def in_i32_def)

lemma wit_promised_slot: "ar_iid (slot wit_promised 5) = 5 \<and> ar_any_enabled (slot wit_promised 5) = 0"
  by (simp add: wit_promised_def handle_prepare_batch_def handle_prepare_def wit_prepare_def slot_def
      frame Let_def wit_init_def acceptor_init_def static_record_def set_slot_def)

theorem promise_respected_witness:
  "acm_ballot wit_accept < 30 \<and> \<not> sees_any wit_env wit_promised 5
   \<and> known wit_env (snd (handle_accept wit_env wit_accept wit_promised)) = known wit_env wit_promised"
proof -
  have "\<not> sees_any wit_env wit_promised 5" using wit_promised_slot by (simp add: sees_any_def)
  with promise_respected [OF wit_promised_facts(1) wit_env_ok wit_accept_ok] wit_promised_facts(2)
  show ?thesis by (simp add: wit_accept_def)
qed

text \<open>C20. An any message for one instance: on a record with the any flag or a ballot not above the
  message's, and for a new instance, it records the ballot, forgets any value and enables the
  record for one accept of any ballot; otherwise it changes nothing. It crashes exactly when the
  slot holds a newer instance and the disk has no record.\<close>

theorem handle_anyval_correct:
  assumes "acc_inv env st" and "env_ok env" and "valid_iid i" and "in_i32 b"
  shows "case handle_anyval env b i st of
      None \<Rightarrow> any_crashes env st i
    | Some (ret, t) \<Rightarrow> \<not> any_crashes env st i
        \<and> (if any_ok (sees_any env st i) b i (known env st) then ret = 1 \<and> anys env b i st t
           else ret = 0 \<and> refuses env st t)"
  using handle_anyval_out [OF assms] .

theorem handle_anyval_correct_witness:
  "valid_iid 5 \<and> (\<exists>t. handle_anyval wit_env 20 5 wit_init = Some (1, t)
     \<and> known wit_env t 5 = Some (any_flat 5 20) \<and> ar_any_enabled (slot t 5) = 1)"
proof -
  have v: "valid_iid 5" "in_i32 20" by (simp_all add: valid_iid_def in_i32_def)
  have "\<not> any_crashes wit_env wit_init 5"
    by (simp add: any_crashes_def wit_slot static_record_def)
  with handle_anyval_correct [OF wit_inv wit_env_ok v] v show ?thesis
    by (auto simp: any_ok_def anys_def wit_slot static_record_def split: option.splits)
qed

text \<open>C21. A sync request sends exactly the reply of the specification, a well-formed learn message
  for the instance, and changes no record. The ballot of that learn is the ballot last promised,
  whatever ballot the value was accepted at.\<close>

theorem handle_lsync_correct:
  assumes "acc_inv env st" and "env_ok env" and "valid_iid i"
  defines "t \<equiv> snd (handle_lsync env i st)"
  shows "known env t = known env st \<and> acc_sent t = acc_sent st @ replies (lsync_reply env st i)
    \<and> (\<forall>l. lsync_reply env st i = Some l \<longrightarrow> datagram_ok (learn_datagram l) \<and> lm_iid l = i
         \<and> map_option fl_ballot (known env st i) = Some (lm_ballot l))"
proof -
  have "lm_iid l = i \<and> map_option fl_ballot (known env st i) = Some (lm_ballot l)"
    if "lsync_reply env st i = Some l" for l
    using that known_wf [OF assms(1), of i]
    by (auto simp: lsync_reply_def learn_of_flat_def flat_wf_def split: option.splits if_splits)
  then show ?thesis
    using handle_lsync_sent [OF assms(1-3)] lsync_reply_ok [OF assms(1-3)] unfolding t_def by blast
qed

definition wit_accepted :: "(32 word \<Rightarrow> flat_record option) acceptor" where
  "wit_accepted = snd (handle_accept wit_env wit_accept wit_init)"

lemma wit_accepted_accepts: "accepts wit_env wit_accept wit_init wit_accepted"
  using handle_accept_out [OF wit_inv wit_env_ok wit_accept_ok] unfolding wit_accepted_def
  by (simp add: accept_ok_def) (simp add: wit_accept_def min_ballot_def c_simps)

lemma wit_accepted_facts:
  "acc_inv wit_env wit_accepted" "known wit_env wit_accepted 5 = Some (accept_flat wit_accept)"
  using wit_accepted_accepts by (simp_all add: accepts_def wit_accept_def)

lemma wit_accepted_slot:
  "slot wit_accepted 5 = accepted_record static_record wit_accept"
  by (simp add: wit_accepted_def handle_accept_def wit_accept_def slot_def apply_accept_def
      frame Let_def wit_init_def acceptor_init_def static_record_def set_slot_def min_ballot_def c_simps)

theorem handle_lsync_correct_witness:
  "valid_iid 5 \<and> (\<exists>l. lsync_reply wit_env wit_accepted 5 = Some l \<and> lm_value l = [104, 105]
     \<and> acc_sent (snd (handle_lsync wit_env 5 wit_accepted)) = acc_sent wit_accepted @ [learn_datagram l])"
proof -
  have v: "valid_iid 5" by (simp add: valid_iid_def)
  have "\<exists>l. lsync_reply wit_env wit_accepted 5 = Some l \<and> lm_value l = [104, 105]"
    using wit_accepted_facts(2) wit_accepted_slot
    by (simp add: lsync_reply_def accepted_record_def learn_of_flat_def accept_flat_def)
       (simp add: wit_accept_def)
  with handle_lsync_correct [OF wit_accepted_facts(1) wit_env_ok v] v show ?thesis
    by (auto simp: replies_def)
qed

text \<open>C30. The event loop hands a well-formed packet of the acceptor's group to its handler, whatever
  an earlier, longer datagram left in the receive buffer.\<close>

theorem get_next_message_roundtrip:
  assumes "length (acc_recv_buffer st) = nat MAX_UDP_MSG_SIZE" and "wf_packet p"
  shows "get_next_message env (Recv (encode_packet p)) st = map_option snd
    (handle_message env p (st\<lparr>acc_recv_buffer := recv_into (acc_recv_buffer st) (encode_packet p)\<rparr>))"
  using get_next_message_encode [OF assms] .

theorem get_next_message_roundtrip_witness:
  "wf_packet (Accept wit_accept) \<and>
   get_next_message wit_env (Recv (encode_packet (Accept wit_accept))) wit_init
     = Some (snd (handle_accept wit_env wit_accept
         (wit_init\<lparr>acc_recv_buffer := recv_into (acc_recv_buffer wit_init) (encode_packet (Accept wit_accept))\<rparr>)))"
proof -
  have p: "wf_packet (Accept wit_accept)"
    by (simp add: wf_packet_def length_encode_packet length_accept_bytes wit_accept_def wf_accept_def
        in_i32_def c_simps)
  have "length (acc_recv_buffer wit_init) = nat MAX_UDP_MSG_SIZE"
    by (simp add: wit_init_def acceptor_init_def)
  from get_next_message_roundtrip [OF this p] p show ?thesis by simp
qed

section \<open>Where the code departs from the protocol\<close>

text \<open>An instance whose slot has gone to a newer one is answered from disk.\<close>

lemma evicted_slot:
  assumes "acc_inv env st" and "valid_iid j" and "known env st j \<noteq> None"
    and "GET_ACC_INDEX j = GET_ACC_INDEX i" and "i < j"
  shows "i < ar_iid (slot st i)"
proof -
  have "slot st i = slot st j" using assms(4) by (simp add: slot_def)
  moreover have "\<not> ar_iid (slot st j) < j" using assms(3) slot_fresh [OF assms(1,2)] by auto
  ultimately show ?thesis using assms(5) by simp
qed

text \<open>The acceptor answers a sync request for an instance it merely promised with a learn
  message, once a newer instance has taken the slot: the learners are told that the empty value
  was accepted at the promised ballot, although this acceptor accepted nothing.\<close>

theorem lsync_learns_a_bare_promise:
  assumes "acc_inv env st" and "env_ok env" and "valid_iid i" and "valid_iid j"
    and "known env st i = Some \<lparr>fl_iid = i, fl_ballot = b, fl_value_ballot = -1, fl_value_size = 0, fl_value = []\<rparr>"
    and "GET_ACC_INDEX j = GET_ACC_INDEX i" and "i < j" and "known env st j \<noteq> None"
  shows "\<exists>p. acc_sent (snd (handle_lsync env i st)) = acc_sent st @ [learn_datagram
    \<lparr>lm_acceptor_id = acceptor_id st, lm_iid = i, lm_ballot = b, lm_proposer_id = p,
     lm_value_size = 0, lm_value = []\<rparr>]"
proof -
  have "i < ar_iid (slot st i)" using evicted_slot [OF assms(1,4,8,6,7)] .
  then have "lsync_reply env st i = Some (learn_of_flat (acceptor_id st)
      (ar_proposer_id (env_junk env (acc_mallocs st))) (the (known env st i)))"
    using assms(5) by (simp add: lsync_reply_def)
  with handle_lsync_sent [OF assms(1-3)] assms(5) show ?thesis
    by (intro exI [of _ "ar_proposer_id (env_junk env (acc_mallocs st))"])
      (simp add: replies_def learn_of_flat_def)
qed

definition wit_evicted :: "(32 word \<Rightarrow> flat_record option) acceptor" where
  "wit_evicted = snd (handle_prepare_batch wit_env
     [wit_prepare, wit_prepare\<lparr>pm_iid := 1029\<rparr>] wit_init)"

lemma wit_evicted_facts:
  "acc_inv wit_env wit_evicted"
  "known wit_env wit_evicted 5
     = Some \<lparr>fl_iid = 5, fl_ballot = 20, fl_value_ballot = -1, fl_value_size = 0, fl_value = []\<rparr>"
  "known wit_env wit_evicted 1029 \<noteq> None"
  using handle_prepare_batch_out [of "[wit_prepare, wit_prepare\<lparr>pm_iid := 1029\<rparr>]" wit_env wit_init]
  by (simp_all add: wit_evicted_def prepare_spec_def prepare_flat_def)
    (simp_all add: wit_prepare_def prepare_ok_def valid_iid_def in_i32_def)

theorem lsync_learns_a_bare_promise_witness:
  "\<exists>p. acc_sent (snd (handle_lsync wit_env 5 wit_evicted)) = acc_sent wit_evicted @ [learn_datagram
    \<lparr>lm_acceptor_id = acceptor_id wit_evicted, lm_iid = 5, lm_ballot = 20, lm_proposer_id = p,
     lm_value_size = 0, lm_value = []\<rparr>]"
proof -
  have v: "valid_iid 5" "valid_iid 1029" "GET_ACC_INDEX 1029 = GET_ACC_INDEX 5" "(5::int) < 1029"
    by (simp_all add: valid_iid_def GET_ACC_INDEX_mod)
  show ?thesis
    by (rule lsync_learns_a_bare_promise [OF wit_evicted_facts(1) wit_env_ok v(1,2)
          wit_evicted_facts(2) v(3,4) wit_evicted_facts(3)])
qed

text \<open>After a value was recorded and a higher ballot promised, a sync reply presents the value as
  accepted at the promised ballot, at which no accept was ever handled.\<close>

theorem lsync_reports_promise_as_vote:
  assumes "acc_inv env st" and "env_ok env" and "prepare_ok m"
    and "known env st (pm_iid m) = Some f" and "fl_ballot f < pm_ballot m"
    and "lsync_reply env (snd (handle_prepare env m st)) (pm_iid m) = Some l"
  shows "lm_ballot l = pm_ballot m \<and> lm_value l = fl_value f
    \<and> known env (snd (handle_prepare env m st)) (pm_iid m) = Some (f\<lparr>fl_ballot := pm_ballot m\<rparr>)"
proof -
  have "known env (snd (handle_prepare env m st)) (pm_iid m) = Some (f\<lparr>fl_ballot := pm_ballot m\<rparr>)"
    using handle_prepare_records [OF assms(1-3)] assms(4,5)
    by (simp add: prepare_spec_def prepare_flat_def)
  with assms(6) show ?thesis
    by (auto simp: lsync_reply_def learn_of_flat_def split: if_splits)
qed

text \<open>The effect of a prepare on the slot of its instance.\<close>

lemma handle_prepare_slot:
  assumes "ar_iid (slot st (pm_iid m)) \<le> pm_iid m"
  shows "ar_iid (slot (snd (handle_prepare env m st)) (pm_iid m)) = pm_iid m
    \<and> ar_any_enabled (slot (snd (handle_prepare env m st)) (pm_iid m))
        = ar_any_enabled (slot st (pm_iid m))
    \<and> (ar_iid (slot st (pm_iid m)) = pm_iid m \<longrightarrow>
         ar_value (slot (snd (handle_prepare env m st)) (pm_iid m)) = ar_value (slot st (pm_iid m)))"
  using assms
  by (auto simp: handle_prepare_def slot_def Let_def frame set_slot_def)

lemma prepare_batch_slot:
  fixes env :: "'s acc_env"
  assumes "ar_iid (slot st (pm_iid m)) \<le> pm_iid m"
  defines "t \<equiv> snd (handle_prepare_batch env [m] st)"
  shows "ar_iid (slot t (pm_iid m)) = pm_iid m
    \<and> ar_any_enabled (slot t (pm_iid m)) = ar_any_enabled (slot st (pm_iid m))"
proof -
  let ?u = "st\<lparr>send_buffer_size := sizeof_paxos_msg + sizeof_promise_batch_msg, batch_promises := [],
    batch_acceptor_id := acceptor_id st\<rparr>"
  have "slot t (pm_iid m) = slot (snd (handle_prepare env m ?u)) (pm_iid m)"
    by (simp add: t_def handle_prepare_batch_def slot_def frame Let_def)
  then show ?thesis using handle_prepare_slot [of ?u m env] assms(1) by (simp add: slot_def)
qed

theorem lsync_reports_promise_as_vote_witness:
  "\<exists>l. lsync_reply wit_env (snd (handle_prepare wit_env (wit_prepare\<lparr>pm_ballot := 30\<rparr>) wit_accepted)) 5 = Some l
     \<and> lm_ballot l = 30 \<and> lm_value l = [104, 105]"
proof -
  let ?m = "wit_prepare\<lparr>pm_ballot := 30\<rparr>"
  let ?t = "snd (handle_prepare wit_env ?m wit_accepted)"
  have m: "prepare_ok ?m" "pm_iid ?m = 5" "pm_ballot ?m = 30"
    by (simp_all add: wit_prepare_def prepare_ok_def valid_iid_def in_i32_def)
  have s: "ar_iid (slot ?t 5) = 5" "ar_value (slot ?t 5) \<noteq> None"
    using handle_prepare_slot [of wit_accepted ?m wit_env] m wit_accepted_slot
    by (simp_all add: accepted_record_def wit_accept_def)
  have "known wit_env ?t 5 \<noteq> None"
    using handle_prepare_records [OF wit_accepted_facts(1) wit_env_ok m(1)] wit_accepted_facts(2) m
    by (simp add: prepare_spec_def prepare_flat_def split: option.split)
  then obtain l where l: "lsync_reply wit_env ?t 5 = Some l"
    using s by (auto simp: lsync_reply_def)
  with lsync_reports_promise_as_vote [OF wit_accepted_facts(1) wit_env_ok m(1), of "accept_flat wit_accept" l]
    wit_accepted_facts(2) m
  show ?thesis by (simp add: accept_flat_def) (simp add: wit_accept_def)
qed

text \<open>An any flag outlives the promises made after it, also of later instances in the same slot:
  while the slot carries it, a prepare is answered with a promise of its ballot and the next
  accept for that instance is accepted at any ballot, below the promised one too.\<close>

theorem any_flag_breaks_promise:
  assumes "acc_inv env st" and "env_ok env" and "prepare_ok m" and "accept_msg_ok a"
    and "acm_iid a = pm_iid m" and "ar_iid (slot st (pm_iid m)) \<le> pm_iid m"
    and "ar_any_enabled (slot st (pm_iid m)) \<noteq> 0"
    and "prepare_flat m (known env st) = Some f"
  defines "t \<equiv> snd (handle_prepare env m st)"
  shows "known env t (pm_iid m) = Some f \<and> fl_ballot f = pm_ballot m
    \<and> accepts env a t (snd (handle_accept env a t))"
proof -
  have t: "acc_inv env t" "known env t (pm_iid m) = Some f"
    using handle_prepare_records [OF assms(1-3)] assms(8)
    unfolding t_def by (simp_all add: prepare_spec_def)
  have "sees_any env t (pm_iid m)"
    using handle_prepare_slot [OF assms(6), of env] assms(7) unfolding t_def sees_any_def by simp
  then have "accepts env a t (snd (handle_accept env a t))"
    using handle_accept_out [OF t(1) assms(2,4)] t(2) assms(5) by (simp add: accept_ok_def)
  moreover have "fl_ballot f = pm_ballot m"
    using assms(8) by (auto simp: prepare_flat_def split: option.splits if_splits)
  ultimately show ?thesis using t(2) by simp
qed

definition wit_any :: "(32 word \<Rightarrow> flat_record option) acceptor" where
  "wit_any = snd (the (handle_anyval wit_env 20 5 wit_init))"

lemma wit_any_facts:
  "acc_inv wit_env wit_any" "known wit_env wit_any 5 = Some (any_flat 5 20)"
  "known wit_env wit_any 1029 = None"
  "slot wit_any 5 = anyval_record static_record 5 20" "slot wit_any 1029 = anyval_record static_record 5 20"
proof -
  have "acc_inv wit_env wit_any \<and> known wit_env wit_any = [5 \<mapsto> any_flat 5 20]"
    using handle_anyval_out [OF wit_inv wit_env_ok, of 5 20] wit_slot
    by (auto simp: wit_any_def any_crashes_def any_ok_def anys_def static_record_def valid_iid_def
        in_i32_def split: option.splits)
  then show "acc_inv wit_env wit_any" "known wit_env wit_any 5 = Some (any_flat 5 20)"
    "known wit_env wit_any 1029 = None" by simp_all
  show "slot wit_any 5 = anyval_record static_record 5 20"
    "slot wit_any 1029 = anyval_record static_record 5 20"
    by (simp_all add: wit_any_def handle_anyval_def apply_anyval_def slot_def Let_def frame set_slot_def
        wit_init_def acceptor_init_def GET_ACC_INDEX_mod) (simp_all add: static_record_def)
qed

theorem any_flag_breaks_promise_witness:
  "acm_ballot (wit_accept\<lparr>acm_iid := 1029, acm_ballot := 11\<rparr>) < 30
   \<and> accepts wit_env (wit_accept\<lparr>acm_iid := 1029, acm_ballot := 11\<rparr>)
      (snd (handle_prepare wit_env \<lparr>pm_iid = 1029, pm_ballot = 30\<rparr> wit_any))
      (snd (handle_accept wit_env (wit_accept\<lparr>acm_iid := 1029, acm_ballot := 11\<rparr>)
        (snd (handle_prepare wit_env \<lparr>pm_iid = 1029, pm_ballot = 30\<rparr> wit_any))))"
proof -
  let ?m = "\<lparr>pm_iid = 1029, pm_ballot = 30\<rparr>" and ?a = "wit_accept\<lparr>acm_iid := 1029, acm_ballot := 11\<rparr>"
  let ?f = "\<lparr>fl_iid = 1029, fl_ballot = 30, fl_value_ballot = -1, fl_value_size = 0, fl_value = []\<rparr>"
  have ok: "prepare_ok ?m" "accept_msg_ok ?a" "acm_iid ?a = pm_iid ?m"
    by (simp_all add: prepare_ok_def accept_msg_ok_def wit_accept_def valid_iid_def wf_accept_def
        in_i32_def c_simps)
  have s: "ar_iid (slot wit_any (pm_iid ?m)) \<le> pm_iid ?m" "ar_any_enabled (slot wit_any (pm_iid ?m)) \<noteq> 0"
    using wit_any_facts(5) by (simp_all add: anyval_record_def)
  have f: "prepare_flat ?m (known wit_env wit_any) = Some ?f"
    using wit_any_facts(3) by (simp add: prepare_flat_def)
  show ?thesis
    using any_flag_breaks_promise [OF wit_any_facts(1) wit_env_ok ok s f] by simp
qed

text \<open>An any message of a ballot not below the recorded one makes the acceptor forget the value
  it accepted: a later prepare is promised with no value.\<close>

theorem anyval_forgets_value:
  assumes "acc_inv env st" and "env_ok env" and "valid_iid i" and "in_i32 b"
    and "known env st i = Some f" and "fl_ballot f \<le> b"
    and "pm_iid m = i" and "b < pm_ballot m"
  shows "\<exists>t. handle_anyval env b i st = Some (1, t) \<and> acc_inv env t
    \<and> prepare_replies [m] (known env t) = [\<lparr>prm_iid = i, prm_ballot = pm_ballot m,
        prm_value_ballot = -1, prm_value_size = 0, prm_value = []\<rparr>]"
proof -
  have "any_ok (sees_any env st i) b i (known env st)" "\<not> any_crashes env st i"
    using assms(5,6) by (simp_all add: any_ok_def any_crashes_def)
  with handle_anyval_out [OF assms(1-4)] obtain t where
    "handle_anyval env b i st = Some (1, t)" "anys env b i st t"
    by (auto split: option.splits)
  then show ?thesis
    using assms(7,8) by (auto simp: anys_def prepare_flat_def any_flat_def promise_of_flat_def)
qed

theorem anyval_forgets_value_witness:
  "known wit_env wit_accepted 5 = Some (accept_flat wit_accept)
   \<and> (\<exists>t. handle_anyval wit_env 20 5 wit_accepted = Some (1, t)
      \<and> prepare_replies [\<lparr>pm_iid = 5, pm_ballot = 30\<rparr>] (known wit_env t)
          = [\<lparr>prm_iid = 5, prm_ballot = 30, prm_value_ballot = -1, prm_value_size = 0, prm_value = []\<rparr>])"
proof -
  have v: "valid_iid 5" "in_i32 20" by (simp_all add: valid_iid_def in_i32_def)
  have b: "fl_ballot (accept_flat wit_accept) \<le> 20" "pm_iid \<lparr>pm_iid = 5, pm_ballot = 30\<rparr> = 5"
    "20 < pm_ballot \<lparr>pm_iid = 5, pm_ballot = 30\<rparr>"
    by (simp_all add: accept_flat_def wit_accept_def)
  show ?thesis
    using anyval_forgets_value [OF wit_accepted_facts(1) wit_env_ok v wit_accepted_facts(2) b]
      wit_accepted_facts(2) by auto
qed

end
