(* ===== verification/Leader.thy ===== *)
theory Leader
  imports Wire
begin

text \<open>
  \<^verbatim>\<open>lib/leader.c\<close>: the leader's state and one definition per function, in the order of the file.
  The static variables are the fields of \<open>leader\<close>, a pointer into \<^verbatim>\<open>proposer_array\<close> is the slot's
  index, and the two timers are flags that say whether they are set. \<open>None\<close> is a failed assertion
  or an access outside \<^verbatim>\<open>promises[N_OF_ACCEPTORS]\<close>.

  The send buffer \<^verbatim>\<open>msg\<close> is kept as its type, its size and its two readings, the prepare batch and
  the any message; each callback that uses it starts by writing the header of the reading it
  needs.
\<close>

section \<open>State\<close>

datatype status_flag = p1_new | p1_pending | p1_ready | p1_finished

text \<open>The constants of the enumeration, in the order C numbers them.\<close>

fun status_code :: "status_flag \<Rightarrow> int" where
  "status_code p1_new = 0"
| "status_code p1_pending = 1"
| "status_code p1_ready = 2"
| "status_code p1_finished = 3"

instantiation status_flag :: linorder
begin

definition less_eq_status_flag :: "status_flag \<Rightarrow> status_flag \<Rightarrow> bool" where
  "less_eq_status_flag s t \<longleftrightarrow> status_code s \<le> status_code t"

definition less_status_flag :: "status_flag \<Rightarrow> status_flag \<Rightarrow> bool" where
  "less_status_flag s t \<longleftrightarrow> status_code s < status_code t"

instance
proof
  fix s t u :: status_flag
  show "s \<le> t \<Longrightarrow> t \<le> s \<Longrightarrow> s = t"
    by (cases s; cases t) (simp_all add: less_eq_status_flag_def)
qed (auto simp: less_eq_status_flag_def less_status_flag_def)

end

record promise_info =
  pi_iid :: int
  pi_value_ballot :: int
  pi_value_size :: int
  pi_value :: "byte list option"

record proposer_record =
  pr_iid :: int
  pr_ballot :: int
  pr_status :: status_flag
  pr_promise_count :: int
  pr_promises :: "promise_info list"

record phase1_info =
  pending_count :: int
  ready_count :: int
  highest_ready :: int
  first_to_check :: int
  last_to_check :: int

record leader =
  lead_quorum :: int
  lead_proposer_id :: int
  lead_current_iid :: int
  p1info :: phase1_info
  p2_current_iid :: int
  proposer_array :: "nat \<Rightarrow> proposer_record"
  msg_type :: int
  msg_data_size :: int
  prep_batch :: "prepare_msg list"
  any_ballot :: int
  any_ids :: "int list"
  leader_recv_buffer :: "byte list"
  leader_listening :: bool
  phase1_armed :: bool
  phase2_armed :: bool
  lead_sent :: "datagram list"

definition FIRST_BALLOT :: "leader \<Rightarrow> int" where
  "FIRST_BALLOT st = i32 (2 * MAX_PROPOSERS + lead_proposer_id st)"

definition BALLOT_NEXT :: "int \<Rightarrow> int" where
  "BALLOT_NEXT lastBal = i32 (lastBal + MAX_PROPOSERS)"

text \<open>The remainder of C has the sign of the dividend.\<close>

definition VALUE_OWNER :: "int \<Rightarrow> int" where
  "VALUE_OWNER bal = sgn bal * (\<bar>bal\<bar> mod MAX_PROPOSERS)"

definition leader_deliver_value :: "int \<Rightarrow> leader \<Rightarrow> leader" where
  "leader_deliver_value iid st =
     st\<lparr>lead_current_iid := i32 (iid + 1),
        p1info := (p1info st)\<lparr>ready_count := i32 (ready_count (p1info st) - 1)\<rparr>\<rparr>"

section \<open>The send buffer\<close>

definition leader_msg :: "leader \<Rightarrow> packet" where
  "leader_msg st = (if msg_type st = PAXOS_PREPARE then Prepare_Batch (prep_batch st)
     else Anyval (any_ballot st) (any_ids st))"

definition leader_flush_send_buffer :: "leader \<Rightarrow> leader" where
  "leader_flush_send_buffer st =
     st\<lparr>lead_sent := lead_sent st @ [(Acceptors_Net, sizeof_paxos_msg + msg_data_size st, leader_msg st)]\<rparr>"

definition set_phase1_check_timeout :: "leader \<Rightarrow> leader" where
  "set_phase1_check_timeout st = st\<lparr>phase1_armed := True\<rparr>"

definition set_phase2_check_timeout :: "leader \<Rightarrow> leader" where
  "set_phase2_check_timeout st = st\<lparr>p2_current_iid := lead_current_iid st, phase2_armed := True\<rparr>"

definition init_prepare_batch :: "leader \<Rightarrow> leader" where
  "init_prepare_batch st =
     st\<lparr>msg_type := PAXOS_PREPARE, msg_data_size := sizeof_prepare_batch_msg, prep_batch := []\<rparr>"

definition add_prepare_to_buffer :: "int \<Rightarrow> int \<Rightarrow> leader \<Rightarrow> leader" where
  "add_prepare_to_buffer iid ballot st =
     (let st1 = st\<lparr>msg_data_size := msg_data_size st + sizeof_prepare_msg,
                   prep_batch := prep_batch st @ [\<lparr>pm_iid = iid, pm_ballot = ballot\<rparr>]\<rparr>
      in if to_size_t (msg_data_size st1 + sizeof_paxos_msg + sizeof_prepare_msg) > to_size_t MAX_UDP_MSG_SIZE
         then init_prepare_batch (leader_flush_send_buffer st1)
         else st1)"

section \<open>Phase 1\<close>

definition no_promise :: promise_info where
  "no_promise = \<lparr>pi_iid = -1, pi_value_ballot = -1, pi_value_size = 0, pi_value = None\<rparr>"

definition clear_promises :: "proposer_record \<Rightarrow> proposer_record" where
  "clear_promises r = r\<lparr>pr_promise_count := 0, pr_promises := replicate (nat N_OF_ACCEPTORS) no_promise\<rparr>"

definition set_record :: "nat \<Rightarrow> proposer_record \<Rightarrow> leader \<Rightarrow> leader" where
  "set_record k r st = st\<lparr>proposer_array := (proposer_array st)(k := r)\<rparr>"

definition add_pending :: "int \<Rightarrow> leader \<Rightarrow> leader" where
  "add_pending n st = st\<lparr>p1info := (p1info st)\<lparr>pending_count := i32 (pending_count (p1info st) + n)\<rparr>\<rparr>"

definition add_ready :: "int \<Rightarrow> leader \<Rightarrow> leader" where
  "add_ready n st = st\<lparr>p1info := (p1info st)\<lparr>ready_count := i32 (ready_count (p1info st) + n)\<rparr>\<rparr>"

text \<open>The bodies of the two phase 1 loops, for instance \<open>i\<close>.\<close>

definition phase1_open :: "int \<Rightarrow> leader \<Rightarrow> leader" where
  "phase1_open i st =
     (let k = GET_PRO_INDEX i; r = proposer_array st k
      in if pr_iid r < i \<or> pr_status r = p1_new then
           (let r' = clear_promises (r\<lparr>pr_iid := i, pr_ballot := FIRST_BALLOT st, pr_status := p1_pending\<rparr>)
            in add_prepare_to_buffer i (pr_ballot r') (set_record k r' (add_pending 1 st)))
         else st)"

definition phase1_retry :: "int \<Rightarrow> leader \<Rightarrow> leader" where
  "phase1_retry i st =
     (let k = GET_PRO_INDEX i; r = proposer_array st k
      in if pr_iid r = i \<and> pr_status r = p1_pending then
           (let r' = clear_promises (r\<lparr>pr_ballot := BALLOT_NEXT (pr_ballot r)\<rparr>)
            in add_prepare_to_buffer (pr_iid r') (pr_ballot r') (set_record k r' st))
         else st)"

definition widen_check :: "int \<Rightarrow> int \<Rightarrow> leader \<Rightarrow> leader" where
  "widen_check lo hi st =
     (let p = p1info st
      in st\<lparr>p1info := p\<lparr>first_to_check := (if first_to_check p > lo then lo else first_to_check p),
                        last_to_check := (if last_to_check p < hi then hi else last_to_check p)\<rparr>\<rparr>)"

definition execute_phase1 :: "leader \<Rightarrow> leader" where
  "execute_phase1 st =
     (let lo = i32 (highest_ready (p1info st) + 1); hi = i32 (lo + PROPOSER_PREEXEC_WIN_SIZE);
          st1 = widen_check lo hi (fold phase1_open [lo..hi] st)
      in if length (prep_batch st1) > 0 then leader_flush_send_buffer st1 else st1)"

definition phase1_check_cb :: "leader \<Rightarrow> leader" where
  "phase1_check_cb st =
     (let st1 = fold phase1_retry [first_to_check (p1info st) .. last_to_check (p1info st)]
                  (init_prepare_batch (st\<lparr>phase1_armed := False\<rparr>));
          st2 = (if i32 (pending_count (p1info st1) + ready_count (p1info st1)) < PROPOSER_PREEXEC_WIN_SIZE div 2
                 then execute_phase1 st1 else st1);
          st3 = (if length (prep_batch st2) > 0 then leader_flush_send_buffer st2 else st2)
      in set_phase1_check_timeout st3)"

section \<open>Promises\<close>

definition store_promise :: "promise_msg \<Rightarrow> promise_info \<Rightarrow> promise_info" where
  "store_promise prom p =
     (let p1 = p\<lparr>pi_iid := prm_iid prom, pi_value_ballot := prm_value_ballot prom\<rparr>
      in if prm_value_ballot prom \<noteq> -1
         then p1\<lparr>pi_value_size := prm_value_size prom,
                 pi_value := Some (take (nat (prm_value_size prom)) (prm_value prom))\<rparr>
         else p1)"

definition promote_ready :: "proposer_record \<Rightarrow> leader \<Rightarrow> leader" where
  "promote_ready r st =
     (let p = p1info st
      in widen_check (pr_iid r) (pr_iid r)
           (st\<lparr>p1info := p\<lparr>pending_count := i32 (pending_count p - 1), ready_count := i32 (ready_count p + 1),
                 highest_ready := (if highest_ready p < pr_iid r then pr_iid r else highest_ready p)\<rparr>\<rparr>))"

definition handle_promise :: "promise_msg \<Rightarrow> int \<Rightarrow> nat \<Rightarrow> leader \<Rightarrow> (int \<times> leader) option" where
  "handle_promise prom aid k st =
     (let r = proposer_array st k
      in if pr_iid r \<noteq> prm_iid prom then Some (0, st)
         else if pr_status r \<noteq> p1_pending then Some (0, st)
         else if pr_ballot r \<noteq> prm_ballot prom then Some (0, st)
         else if aid < 0 \<or> aid \<ge> int (length (pr_promises r)) then None
         else if pi_iid (pr_promises r ! nat aid) \<noteq> -1 \<and> pr_ballot r = prm_ballot prom then Some (0, st)
         else
           (let r1 = r\<lparr>pr_promise_count := i32 (pr_promise_count r + 1),
                       pr_promises := (pr_promises r)[nat aid := store_promise prom (pr_promises r ! nat aid)]\<rparr>
            in if pr_promise_count r1 < lead_quorum st then Some (0, set_record k r1 st)
               else Some (1, promote_ready r1 (set_record k (r1\<lparr>pr_status := p1_ready\<rparr>) st))))"

section \<open>Phase 2\<close>

text \<open>The loop of \<^verbatim>\<open>phase2_value\<close>: the largest value ballot so far and the promise that has it.\<close>

definition phase2_pick :: "promise_info \<Rightarrow> int \<times> promise_info option \<Rightarrow> int \<times> promise_info option" where
  "phase2_pick p = (\<lambda>(max_ballot, pi).
     if pi_iid p = -1 then (max_ballot, pi)
     else if pi_value_ballot p \<noteq> -1 \<and> pi_value_ballot p > max_ballot then (pi_value_ballot p, Some p)
     else (max_ballot, pi))"

definition phase2_value :: "proposer_record \<Rightarrow> promise_info option" where
  "phase2_value r = snd (fold phase2_pick (pr_promises r) (-1, None))"

definition init_anyval :: "leader \<Rightarrow> leader" where
  "init_anyval st = st\<lparr>msg_type := PAXOS_ANYVAL, msg_data_size := sizeof_anyval_msg, any_ballot := -1, any_ids := []\<rparr>"

definition append_anymsg_to_buffer :: "int \<Rightarrow> leader \<Rightarrow> leader" where
  "append_anymsg_to_buffer iid st =
     (let st1 = st\<lparr>msg_data_size := msg_data_size st + sizeof_int, any_ids := any_ids st @ [iid]\<rparr>
      in if to_size_t (msg_data_size st1 + sizeof_paxos_msg + sizeof_int) > to_size_t MAX_UDP_MSG_SIZE
         then (leader_flush_send_buffer st1)\<lparr>msg_data_size := sizeof_anyval_msg, any_ballot := -1, any_ids := []\<rparr>
         else st1)"

definition accept_of :: "proposer_record \<Rightarrow> promise_info \<Rightarrow> accept_msg" where
  "accept_of r pi = \<lparr>acm_iid = pr_iid r, acm_ballot = pr_ballot r, acm_value_size = pi_value_size pi,
     acm_proposer_id = VALUE_OWNER (pi_value_ballot pi), acm_value = C_memcpy (pi_value pi) (pi_value_size pi)\<rparr>"

definition send_accept :: "proposer_record \<Rightarrow> promise_info \<Rightarrow> leader \<Rightarrow> leader" where
  "send_accept r pi st =
     st\<lparr>lead_sent := lead_sent st @
          [(Acceptors_Net, sizeof_paxos_msg + (sizeof_accept_msg + pi_value_size pi), Accept (accept_of r pi))]\<rparr>"

definition phase2_one :: "int \<Rightarrow> leader \<Rightarrow> leader" where
  "phase2_one i st =
     (let k = GET_PRO_INDEX i; r = proposer_array st k
      in if pr_status r \<noteq> p1_ready then st
         else set_record k (r\<lparr>pr_status := p1_finished\<rparr>)
           (case phase2_value r of
              None \<Rightarrow> append_anymsg_to_buffer i
                (if pr_ballot r > any_ballot st then st\<lparr>any_ballot := pr_ballot r\<rparr> else st)
            | Some pi \<Rightarrow> send_accept r pi st))"

definition execute_phase2 :: "int \<Rightarrow> int \<Rightarrow> leader \<Rightarrow> leader" where
  "execute_phase2 first_iid last_iid st =
     (let st1 = fold phase2_one [first_iid..last_iid] (init_anyval st)
      in if length (any_ids st1) > 0 then leader_flush_send_buffer st1 else st1)"

definition leader_handle_promise_msg :: "int \<Rightarrow> promise_msg list \<Rightarrow> leader \<Rightarrow> leader option" where
  "leader_handle_promise_msg aid proms st =
     (let first_iid = (if proms = [] then -1 else prm_iid (hd proms));
          last_iid = (if proms = [] then -1 else prm_iid (last proms))
      in map_option (execute_phase2 first_iid last_iid)
           (ofold (\<lambda>prom st. map_option snd (handle_promise prom aid (GET_PRO_INDEX (prm_iid prom)) st)) proms st))"

text \<open>
  A failed \<^verbatim>\<open>recvfrom\<close> leaves the buffer as it was and a size of -1, which the comparison with a
  \<^verbatim>\<open>size_t\<close> turns into the largest size.
\<close>

definition leader_handle_proposer_msg :: "recv_result \<Rightarrow> leader \<Rightarrow> leader option" where
  "leader_handle_proposer_msg recv st =
     (let (msg_size, buf) = (case recv of
            Recv_Fail \<Rightarrow> (-1, leader_recv_buffer st)
          | Recv dgram \<Rightarrow> (received (leader_recv_buffer st) dgram, recv_into (leader_recv_buffer st) dgram));
          st1 = st\<lparr>leader_recv_buffer := buf\<rparr>
      in do {
        ty \<leftarrow> rd32 buf 4;
        if ty = PAXOS_PROMISE then
          if to_size_t msg_size < to_size_t (sizeof_paxos_msg + sizeof_promise_batch_msg) then Some st1
          else do {
            aid \<leftarrow> rd32 buf 8;
            n \<leftarrow> rd32 buf 12;
            proms \<leftarrow> rd_promises buf 16 (nat n);
            leader_handle_promise_msg aid proms st1 }
        else Some st1 })"

text \<open>The socket and event of the leader: \<open>sock\<close> and \<open>event_ret\<close> are the answers of the system calls.\<close>

definition register_leader_sock :: "bool \<Rightarrow> int \<Rightarrow> int \<Rightarrow> leader \<Rightarrow> leader" where
  "register_leader_sock is_leader sock event_ret st =
     (if \<not> is_leader then st
      else if sock < 0 then st
      else if event_ret \<noteq> 0 then st
      else st\<lparr>leader_listening := True\<rparr>)"

definition phase2_restart :: "nat \<Rightarrow> leader \<Rightarrow> leader" where
  "phase2_restart k st =
     (let r = proposer_array st k;
          fin = (pr_status r = p1_finished);
          r' = clear_promises (r\<lparr>pr_ballot := BALLOT_NEXT (pr_ballot r),
                 pr_status := (if fin then p1_pending else pr_status r)\<rparr>);
          st1 = set_record k r' (if fin then add_pending 1 (add_ready (-1) st) else st)
      in leader_flush_send_buffer (add_prepare_to_buffer (pr_iid r') (pr_ballot r') st1))"

definition phase2_check_cb :: "leader \<Rightarrow> leader option" where
  "phase2_check_cb st =
     (let st0 = st\<lparr>phase2_armed := False\<rparr>
      in if lead_current_iid st0 = p2_current_iid st0 then
           (let st1 = init_prepare_batch st0; k = GET_PRO_INDEX (lead_current_iid st1)
            in if pr_iid (proposer_array st1 k) \<noteq> lead_current_iid st1 then None
               else Some (set_phase2_check_timeout (phase2_restart k st1)))
         else Some (set_phase2_check_timeout st0))"

section \<open>Start-up\<close>

definition static_proposer_record :: proposer_record where
  "static_proposer_record = \<lparr>pr_iid = 0, pr_ballot = 0, pr_status = p1_new, pr_promise_count = 0,
     pr_promises = replicate (nat N_OF_ACCEPTORS) \<lparr>pi_iid = 0, pi_value_ballot = 0, pi_value_size = 0, pi_value = None\<rparr>\<rparr>"

definition leader_static :: leader where
  "leader_static = \<lparr>lead_quorum = 0, lead_proposer_id = 0, lead_current_iid = 0,
     p1info = \<lparr>pending_count = 0, ready_count = 0, highest_ready = 0, first_to_check = 0, last_to_check = 0\<rparr>,
     p2_current_iid = 0, proposer_array = (\<lambda>_. static_proposer_record), msg_type = 0, msg_data_size = 0,
     prep_batch = [], any_ballot = 0, any_ids = [], leader_recv_buffer = replicate (nat MAX_UDP_MSG_SIZE) 0,
     leader_listening = False, phase1_armed = False, phase2_armed = False, lead_sent = []\<rparr>"

text \<open>The state \<^verbatim>\<open>leader_init\<close> leaves from a given one; its result is always 0.\<close>

definition leader_init_state :: "int \<Rightarrow> leader \<Rightarrow> leader" where
  "leader_init_state prop_id st =
     init_prepare_batch (set_phase2_check_timeout
       (st\<lparr>lead_quorum := quorum_of N_OF_ACCEPTORS, lead_proposer_id := prop_id,
           p1info := \<lparr>pending_count = 0, ready_count = 0, highest_ready = -1,
                      first_to_check = 0, last_to_check = 0\<rparr>,
           p2_current_iid := -1\<rparr>))"

definition leader_init :: "int \<Rightarrow> leader \<Rightarrow> int \<times> leader" where
  "leader_init prop_id st = (0, set_phase1_check_timeout (execute_phase1 (leader_init_state prop_id st)))"

end
