(* ===== verification/Leader_Correct.thy ===== *)
theory Leader_Correct
  imports Leader
begin

text \<open>
  The two phase 1 loops and the prepare batches they send. Both loops have one shape: for each
  instance of a range whose slot meets a condition, the slot's record is replaced and a prepare
  for it goes to the send buffer. \<open>prepare_loop\<close> is that shape; its effect is given in one step,
  the new array and the list of prepares, and the batches are shown to be that list cut in
  datagrams.
\<close>

section \<open>Frames\<close>

lemma add_prepare_frame [frame]:
  "proposer_array (add_prepare_to_buffer i b st) = proposer_array st"
  "p1info (add_prepare_to_buffer i b st) = p1info st"
  "lead_quorum (add_prepare_to_buffer i b st) = lead_quorum st"
  "lead_proposer_id (add_prepare_to_buffer i b st) = lead_proposer_id st"
  "lead_current_iid (add_prepare_to_buffer i b st) = lead_current_iid st"
  "leader_recv_buffer (add_prepare_to_buffer i b st) = leader_recv_buffer st"
  by (simp_all add: add_prepare_to_buffer_def init_prepare_batch_def leader_flush_send_buffer_def Let_def)

lemma add_prepare_commute:
  "add_prepare_to_buffer i b (st\<lparr>proposer_array := A\<rparr>) = (add_prepare_to_buffer i b st)\<lparr>proposer_array := A\<rparr>"
  "add_prepare_to_buffer i b (st\<lparr>p1info := p\<rparr>) = (add_prepare_to_buffer i b st)\<lparr>p1info := p\<rparr>"
  by (simp_all add: add_prepare_to_buffer_def init_prepare_batch_def leader_flush_send_buffer_def
      leader_msg_def Let_def)

definition send_prepares :: "(int \<times> int) list \<Rightarrow> leader \<Rightarrow> leader" where
  "send_prepares = fold (\<lambda>(i, b). add_prepare_to_buffer i b)"

lemma send_prepares_simps [simp]:
  "send_prepares [] st = st"
  "send_prepares ((i, b) # xs) st = send_prepares xs (add_prepare_to_buffer i b st)"
  by (simp_all add: send_prepares_def)

lemma send_prepares_commute:
  "send_prepares xs (st\<lparr>proposer_array := A\<rparr>) = (send_prepares xs st)\<lparr>proposer_array := A\<rparr>"
  "send_prepares xs (st\<lparr>p1info := p\<rparr>) = (send_prepares xs st)\<lparr>p1info := p\<rparr>"
  by (induction xs arbitrary: st) (auto simp: add_prepare_commute)

lemma send_prepares_frame [frame]:
  "proposer_array (send_prepares xs st) = proposer_array st"
  "p1info (send_prepares xs st) = p1info st"
  "lead_quorum (send_prepares xs st) = lead_quorum st"
  "lead_proposer_id (send_prepares xs st) = lead_proposer_id st"
  "lead_current_iid (send_prepares xs st) = lead_current_iid st"
  "leader_recv_buffer (send_prepares xs st) = leader_recv_buffer st"
  by (induction xs arbitrary: st) (auto simp: frame)

section \<open>The common loop\<close>

text \<open>\<open>d\<close> is what one round adds to \<^verbatim>\<open>pending_count\<close>: one for an opened instance, nothing for a retry.\<close>

definition pend :: "int \<Rightarrow> leader \<Rightarrow> leader" where
  "pend d st = (if d = 0 then st else add_pending d st)"

lemma pend_Suc: "pend (d * int n) (pend d st) = pend (d * int (Suc n)) st"
proof (cases "d = 0 \<or> n = 0")
  case False
  then have "d * int n \<noteq> 0" "d * int (Suc n) \<noteq> 0" by simp_all
  then show ?thesis using False by (simp add: pend_def add_pending_def i32_add_right algebra_simps)
qed (auto simp: pend_def)

lemma pend_commute:
  "pend d (add_prepare_to_buffer i b st) = add_prepare_to_buffer i b (pend d st)"
  "pend d (st\<lparr>proposer_array := A\<rparr>) = (pend d st)\<lparr>proposer_array := A\<rparr>"
  "proposer_array (pend d st) = proposer_array st"
  by (simp_all add: pend_def add_pending_def add_prepare_commute frame)

definition prepare_loop ::
    "(int \<Rightarrow> proposer_record \<Rightarrow> bool) \<Rightarrow> (int \<Rightarrow> proposer_record \<Rightarrow> proposer_record) \<Rightarrow> int
     \<Rightarrow> int \<Rightarrow> leader \<Rightarrow> leader" where
  "prepare_loop c g d i st =
     (let k = GET_PRO_INDEX i; r = proposer_array st k
      in if c i r then add_prepare_to_buffer i (pr_ballot (g i r)) (set_record k (g i r) (pend d st))
         else st)"

definition loop_array ::
    "(int \<Rightarrow> proposer_record \<Rightarrow> bool) \<Rightarrow> (int \<Rightarrow> proposer_record \<Rightarrow> proposer_record) \<Rightarrow> int list
     \<Rightarrow> (nat \<Rightarrow> proposer_record) \<Rightarrow> nat \<Rightarrow> proposer_record" where
  "loop_array c g is A k =
     (case find (\<lambda>i. GET_PRO_INDEX i = k \<and> c i (A k)) is of None \<Rightarrow> A k | Some i \<Rightarrow> g i (A k))"

definition loop_hits ::
    "(int \<Rightarrow> proposer_record \<Rightarrow> bool) \<Rightarrow> int list \<Rightarrow> (nat \<Rightarrow> proposer_record) \<Rightarrow> int list" where
  "loop_hits c is A = filter (\<lambda>i. c i (A (GET_PRO_INDEX i))) is"

text \<open>No slot is hit twice: a second instance of the same slot does not meet the condition.\<close>

definition one_hit ::
    "(int \<Rightarrow> proposer_record \<Rightarrow> bool) \<Rightarrow> (int \<Rightarrow> proposer_record \<Rightarrow> proposer_record) \<Rightarrow> int list
     \<Rightarrow> (nat \<Rightarrow> proposer_record) \<Rightarrow> bool" where
  "one_hit c g is A \<longleftrightarrow> distinct is \<and> (\<forall>i\<in>set is. \<forall>j\<in>set is.
     i \<noteq> j \<longrightarrow> GET_PRO_INDEX i = GET_PRO_INDEX j \<longrightarrow> c i (A (GET_PRO_INDEX i)) \<longrightarrow>
     \<not> c j (A (GET_PRO_INDEX i)) \<and> \<not> c j (g i (A (GET_PRO_INDEX i))))"

lemma one_hit_step:
  assumes "one_hit c g (i # is) A" and "c i (A (GET_PRO_INDEX i))"
  defines "A' \<equiv> A(GET_PRO_INDEX i := g i (A (GET_PRO_INDEX i)))"
  shows "one_hit c g is A'" and "loop_hits c is A' = loop_hits c is A"
    and "loop_array c g is A' = loop_array c g (i # is) A"
    and "\<forall>j\<in>set (loop_hits c is A). A' (GET_PRO_INDEX j) = A (GET_PRO_INDEX j)"
proof -
  let ?k = "GET_PRO_INDEX i"
  have other: "\<not> c j (A ?k)" "\<not> c j (g i (A ?k))" if "j \<in> set is" "GET_PRO_INDEX j = ?k" for j
    using assms(1,2) that by (auto simp: one_hit_def)
  have same: "c j (A' (GET_PRO_INDEX j)) = c j (A (GET_PRO_INDEX j))" if "j \<in> set is" for j
    using other [OF that] by (cases "GET_PRO_INDEX j = ?k") (auto simp: A'_def)
  show "loop_hits c is A' = loop_hits c is A"
    unfolding loop_hits_def using same by (intro filter_cong) auto
  show kept: "\<forall>j\<in>set (loop_hits c is A). A' (GET_PRO_INDEX j) = A (GET_PRO_INDEX j)"
    using other by (auto simp: loop_hits_def A'_def)
  show "one_hit c g is A'"
    unfolding one_hit_def
  proof (intro conjI ballI impI)
    show "distinct is" using assms(1) by (simp add: one_hit_def)
    fix j l assume jl: "j \<in> set is" "l \<in> set is" "j \<noteq> l" "GET_PRO_INDEX j = GET_PRO_INDEX l"
      "c j (A' (GET_PRO_INDEX j))"
    then have c: "c j (A (GET_PRO_INDEX j))" using same [OF jl(1)] by blast
    then have ne: "GET_PRO_INDEX j \<noteq> ?k" using other jl(1) by auto
    with assms(1) jl c show "\<not> c l (A' (GET_PRO_INDEX j))" "\<not> c l (g j (A' (GET_PRO_INDEX j)))"
      by (auto simp: one_hit_def A'_def)
  qed
  show "loop_array c g is A' = loop_array c g (i # is) A"
  proof
    fix k
    show "loop_array c g is A' k = loop_array c g (i # is) A k"
    proof (cases "k = ?k")
      case True
      then have "find (\<lambda>j. GET_PRO_INDEX j = k \<and> c j (A' k)) is = None"
        using other by (auto simp: find_None_iff A'_def)
      then show ?thesis using True assms(2) by (simp add: loop_array_def A'_def)
    next
      case False
      then show ?thesis by (simp add: loop_array_def A'_def fun_upd_other split: option.split)
    qed
  qed
qed

theorem prepare_loop_effect:
  assumes "one_hit c g is (proposer_array st)"
  shows "fold (prepare_loop c g d) is st =
    send_prepares (map (\<lambda>i. (i, pr_ballot (g i (proposer_array st (GET_PRO_INDEX i)))))
        (loop_hits c is (proposer_array st)))
      (pend (d * int (length (loop_hits c is (proposer_array st))))
        (st\<lparr>proposer_array := loop_array c g is (proposer_array st)\<rparr>))"
  using assms
proof (induction "is" arbitrary: st)
  case Nil
  then show ?case by (simp add: loop_hits_def loop_array_def pend_def)
next
  case (Cons i "is")
  let ?A = "proposer_array st" and ?k = "GET_PRO_INDEX i"
  show ?case
  proof (cases "c i (?A ?k)")
    case False
    then have "one_hit c g is ?A" using Cons.prems by (simp add: one_hit_def)
    moreover have "loop_array c g (i # is) ?A = loop_array c g is ?A"
      using False by (auto simp: loop_array_def fun_eq_iff)
    ultimately show ?thesis
      using False Cons.IH [of st] by (simp add: prepare_loop_def loop_hits_def Let_def)
  next
    case True
    let ?A' = "?A(?k := g i (?A ?k))"
    let ?st = "add_prepare_to_buffer i (pr_ballot (g i (?A ?k))) (set_record ?k (g i (?A ?k)) (pend d st))"
    note step = one_hit_step [OF Cons.prems True]
    have A': "proposer_array ?st = ?A'" by (simp add: frame set_record_def pend_def add_pending_def)
    have balls: "map (\<lambda>j. (j, pr_ballot (g j (?A' (GET_PRO_INDEX j))))) (loop_hits c is ?A)
      = map (\<lambda>j. (j, pr_ballot (g j (?A (GET_PRO_INDEX j))))) (loop_hits c is ?A)"
      using step(4) by (intro map_cong) auto
    have "fold (prepare_loop c g d) (i # is) st = fold (prepare_loop c g d) is ?st"
      using True by (simp add: prepare_loop_def Let_def)
    also have "\<dots> = send_prepares (map (\<lambda>j. (j, pr_ballot (g j (?A (GET_PRO_INDEX j))))) (loop_hits c is ?A))
      (pend (d * int (length (loop_hits c is ?A)))
        (?st\<lparr>proposer_array := loop_array c g (i # is) ?A\<rparr>))"
      using Cons.IH [of ?st, unfolded A' step(2,3) balls, OF step(1)] .
    also have "\<dots> = send_prepares (map (\<lambda>j. (j, pr_ballot (g j (?A (GET_PRO_INDEX j))))) (loop_hits c (i # is) ?A))
      (pend (d * int (length (loop_hits c (i # is) ?A)))
        (st\<lparr>proposer_array := loop_array c g (i # is) ?A\<rparr>))"
      using True
      by (simp add: loop_hits_def set_record_def pend_commute pend_Suc flip: add_prepare_commute(1))
    finally show ?thesis .
  qed
qed

section \<open>The two loops\<close>

definition opens :: "int \<Rightarrow> proposer_record \<Rightarrow> bool" where
  "opens i r \<longleftrightarrow> pr_iid r < i \<or> pr_status r = p1_new"

definition opened :: "int \<Rightarrow> int \<Rightarrow> proposer_record \<Rightarrow> proposer_record" where
  "opened b i r = clear_promises (r\<lparr>pr_iid := i, pr_ballot := b, pr_status := p1_pending\<rparr>)"

definition retries :: "int \<Rightarrow> proposer_record \<Rightarrow> bool" where
  "retries i r \<longleftrightarrow> pr_iid r = i \<and> pr_status r = p1_pending"

definition retried :: "int \<Rightarrow> proposer_record \<Rightarrow> proposer_record" where
  "retried i r = clear_promises (r\<lparr>pr_ballot := BALLOT_NEXT (pr_ballot r)\<rparr>)"

lemma phase1_open_loop:
  "FIRST_BALLOT st = b \<Longrightarrow> phase1_open i st = prepare_loop opens (opened b) 1 i st"
  by (simp add: phase1_open_def prepare_loop_def opens_def opened_def pend_def Let_def)

lemma phase1_retry_loop: "phase1_retry i st = prepare_loop retries retried 0 i st"
  by (auto simp: phase1_retry_def prepare_loop_def retries_def retried_def pend_def clear_promises_def Let_def)

lemma fold_phase1_open:
  "fold phase1_open is st = fold (prepare_loop opens (opened (FIRST_BALLOT st)) 1) is st"
proof -
  have frame1: "FIRST_BALLOT (prepare_loop c g d i s) = FIRST_BALLOT s" for c g d i s
    by (simp add: prepare_loop_def FIRST_BALLOT_def set_record_def pend_def add_pending_def frame Let_def)
  have "FIRST_BALLOT st = b \<Longrightarrow> fold phase1_open is st = fold (prepare_loop opens (opened b) 1) is st" for b
    by (induction "is" arbitrary: st) (simp_all add: phase1_open_loop frame1)
  then show ?thesis by simp
qed

lemma fold_phase1_retry: "fold phase1_retry is st = fold (prepare_loop retries retried 0) is st"
  by (rule fold_cong) (auto simp: phase1_retry_loop fun_eq_iff)

lemma one_hit_retry: "distinct is \<Longrightarrow> one_hit retries retried is A"
  by (auto simp: one_hit_def retries_def retried_def clear_promises_def)

lemma one_hit_open:
  assumes "hi < lo + 512"
  shows "one_hit opens (opened b) [lo..hi] A"
  unfolding one_hit_def
proof (intro conjI ballI impI)
  fix i j assume "i \<in> set [lo..hi]" "j \<in> set [lo..hi]" "i \<noteq> j" "GET_PRO_INDEX i = GET_PRO_INDEX j"
  moreover have "i = j" if "GET_PRO_INDEX i = GET_PRO_INDEX j" "lo \<le> i" "i \<le> hi" "lo \<le> j" "j \<le> hi"
    using that assms by (intro GET_PRO_INDEX_window [of i j lo]) simp_all
  ultimately show "\<not> opens j (A (GET_PRO_INDEX i))" "\<not> opens j (opened b i (A (GET_PRO_INDEX i)))"
    by auto
qed simp

text \<open>The slot of the array after each loop.\<close>

lemma find_SomeD: "find P xs = Some x \<Longrightarrow> x \<in> set xs \<and> P x"
  by (induction xs) (auto split: if_splits)

lemma find_unique:
  assumes "\<forall>x\<in>set xs. P x \<longrightarrow> x = y" and "y \<in> set xs" "P y"
  shows "find P xs = Some y"
proof (cases "find P xs")
  case None
  with assms show ?thesis by (auto simp: find_None_iff)
next
  case (Some x)
  with assms(1) find_SomeD [OF Some] show ?thesis by simp
qed

lemma loop_array_retry:
  assumes "\<And>k. pr_status (A k) = p1_pending \<Longrightarrow> GET_PRO_INDEX (pr_iid (A k)) = k"
  shows "loop_array retries retried [lo..hi] A k =
    (if pr_status (A k) = p1_pending \<and> lo \<le> pr_iid (A k) \<and> pr_iid (A k) \<le> hi
     then retried (pr_iid (A k)) (A k) else A k)"
proof (cases "pr_status (A k) = p1_pending \<and> lo \<le> pr_iid (A k) \<and> pr_iid (A k) \<le> hi")
  case True
  then have "find (\<lambda>i. GET_PRO_INDEX i = k \<and> retries i (A k)) [lo..hi] = Some (pr_iid (A k))"
    using assms [of k] by (intro find_unique) (auto simp: retries_def)
  with True show ?thesis by (simp add: loop_array_def)
next
  case False
  then have "find (\<lambda>i. GET_PRO_INDEX i = k \<and> retries i (A k)) [lo..hi] = None"
    by (auto simp: find_None_iff retries_def)
  with False show ?thesis by (auto simp: loop_array_def)
qed

lemma loop_array_open_cases:
  "loop_array opens (opened b) is A k = A k
   \<or> (\<exists>i\<in>set is. GET_PRO_INDEX i = k \<and> opens i (A k) \<and> loop_array opens (opened b) is A k = opened b i (A k))"
proof (cases "find (\<lambda>i. GET_PRO_INDEX i = k \<and> opens i (A k)) is")
  case None
  then show ?thesis by (simp add: loop_array_def)
next
  case (Some i)
  have "i \<in> set is" "GET_PRO_INDEX i = k" "opens i (A k)" using find_SomeD [OF Some] by auto
  with Some show ?thesis by (auto simp: loop_array_def)
qed

end
