(* ===== verification/Leader_Invariant.thy ===== *)
theory Leader_Invariant
  imports Leader_Correct
begin

text \<open>
  The leader's reachable states and their invariant: what each slot of \<^verbatim>\<open>proposer_array\<close> holds in
  each status, and what every datagram the leader has sent looks like. \<open>n\<close> counts the events
  handled; it bounds how far the ballots and instance ids can have grown.
\<close>

section \<open>Ballots\<close>

text \<open>The ballots of the leader \<open>pid\<close> within \<open>n\<close> increments.\<close>

definition owned :: "int \<Rightarrow> nat \<Rightarrow> int \<Rightarrow> bool" where
  "owned pid n b \<longleftrightarrow> (\<exists>m\<le>n. b = 20 + pid + 10 * int m)"

definition in_bounds :: "int \<Rightarrow> nat \<Rightarrow> bool" where
  "in_bounds pid n \<longleftrightarrow> 0 \<le> pid \<and> pid < MAX_PROPOSERS \<and> n \<le> 40000000"

lemma owned_mono: "owned pid n b \<Longrightarrow> n \<le> n' \<Longrightarrow> owned pid n' b"
  unfolding owned_def using le_trans by blast

lemma owned_range: "owned pid n b \<Longrightarrow> in_bounds pid n \<Longrightarrow> 20 \<le> b \<and> b \<le> 400000029"
  by (auto simp: owned_def in_bounds_def c_simps)

lemma owned_in_i32: "owned pid n b \<Longrightarrow> in_bounds pid n \<Longrightarrow> in_i32 b"
  using owned_range [of pid n b] by (simp add: in_i32_def)

lemma owned_first: "owned pid n (20 + pid)"
  by (auto simp: owned_def)

lemma owned_next:
  assumes "owned pid n b" "in_bounds pid n"
  shows "owned pid (Suc n) (BALLOT_NEXT b)"
proof -
  obtain m where m: "m \<le> n" "b = 20 + pid + 10 * int m" using assms(1) by (auto simp: owned_def)
  have "BALLOT_NEXT b = b + 10" using owned_range [OF assms] by (simp add: BALLOT_NEXT_def c_simps)
  with m show ?thesis unfolding owned_def by (intro exI [of _ "Suc m"]) simp
qed

lemma owned_mod: "owned pid n b \<Longrightarrow> in_bounds pid k \<Longrightarrow> b mod 10 = pid"
  by (auto simp: owned_def in_bounds_def c_simps) presburger

section \<open>Slots\<close>

definition promises_held :: "proposer_record \<Rightarrow> int" where
  "promises_held r = int (length (filter (\<lambda>p. pi_iid p \<noteq> -1) (pr_promises r)))"

definition promise_ok :: "proposer_record \<Rightarrow> promise_info \<Rightarrow> bool" where
  "promise_ok r p \<longleftrightarrow> (pi_iid p = -1 \<or> pi_iid p = pr_iid r)
     \<and> (pi_value_ballot p \<noteq> -1 \<longrightarrow> (\<exists>v. pi_value p = Some v \<and> pi_value_size p = int (length v) \<and> length v \<le> 8968))"

definition slot_ok :: "int \<Rightarrow> nat \<Rightarrow> nat \<Rightarrow> proposer_record \<Rightarrow> bool" where
  "slot_ok pid n k r \<longleftrightarrow> length (pr_promises r) = nat N_OF_ACCEPTORS \<and>
     (if pr_status r = p1_new then pr_iid r = 0
      else GET_PRO_INDEX (pr_iid r) = k \<and> 0 \<le> pr_iid r \<and> pr_iid r \<le> 51 * int n + 50
        \<and> owned pid n (pr_ballot r) \<and> (\<forall>p\<in>set (pr_promises r). promise_ok r p)
        \<and> pr_promise_count r = promises_held r
        \<and> (if pr_status r = p1_pending then promises_held r < quorum_of N_OF_ACCEPTORS
           else promises_held r = quorum_of N_OF_ACCEPTORS))"

lemma slot_ok_mono: "slot_ok pid n k r \<Longrightarrow> n \<le> n' \<Longrightarrow> slot_ok pid n' k r"
  using owned_mono [of pid n _ n'] by (auto simp: slot_ok_def split: if_splits)

text \<open>A record whose promises were cleared is a pending slot.\<close>

lemma slot_ok_cleared:
  assumes "GET_PRO_INDEX i = k" "0 \<le> i" "i \<le> 51 * int n + 50" "owned pid n b"
    and "pr_iid r = i" "pr_ballot r = b" "pr_status r = p1_pending"
  shows "slot_ok pid n k (clear_promises r)"
  using assms by (auto simp: slot_ok_def clear_promises_def promises_held_def promise_ok_def no_promise_def
      numeral_3_eq_3)

section \<open>What is sent\<close>

definition prep_datagram :: "prepare_msg list \<Rightarrow> datagram" where
  "prep_datagram ms = (Acceptors_Net, int (length (encode_packet (Prepare_Batch ms))), Prepare_Batch ms)"

fun packet_ballots :: "packet \<Rightarrow> int set" where
  "packet_ballots (Prepare_Batch ms) = pm_ballot ` set ms"
| "packet_ballots (Accept m) = {acm_ballot m}"
| "packet_ballots (Anyval b _) = {b}"
| "packet_ballots _ = {}"

definition leader_datagram :: "int \<Rightarrow> nat \<Rightarrow> datagram \<Rightarrow> bool" where
  "leader_datagram pid n d \<longleftrightarrow> fst d = Acceptors_Net \<and> datagram_ok d
     \<and> packet_type (snd (snd d)) \<in> {PAXOS_PREPARE, PAXOS_ACCEPT, PAXOS_ANYVAL}
     \<and> (\<forall>b\<in>packet_ballots (snd (snd d)). owned pid n b)"

lemma leader_datagram_mono: "leader_datagram pid n d \<Longrightarrow> n \<le> n' \<Longrightarrow> leader_datagram pid n' d"
  using owned_mono [of pid n _ n'] by (auto simp: leader_datagram_def)

definition wf_batch :: "int \<Rightarrow> nat \<Rightarrow> prepare_msg list \<Rightarrow> bool" where
  "wf_batch pid n ms \<longleftrightarrow> (\<forall>m\<in>set ms. wf_prepare m \<and> owned pid n (pm_ballot m))"

lemma prep_datagram_ok:
  "wf_batch pid n ms \<Longrightarrow> 12 + 8 * int (length ms) \<le> 9000 \<Longrightarrow> leader_datagram pid n (prep_datagram ms)"
  unfolding leader_datagram_def prep_datagram_def wf_batch_def
  by (auto intro!: datagram_okI simp: size_Prepare_Batch list_all_iff c_simps)

definition prep_buffer_ok :: "leader \<Rightarrow> bool" where
  "prep_buffer_ok st \<longleftrightarrow> msg_type st = PAXOS_PREPARE
     \<and> msg_data_size st = 4 + 8 * int (length (prep_batch st)) \<and> length (prep_batch st) < 1123"

lemma prep_buffer_ok_init [simp]: "prep_buffer_ok (init_prepare_batch st)"
  by (simp add: prep_buffer_ok_def init_prepare_batch_def c_simps)

lemma flush_prepare:
  "prep_buffer_ok st \<Longrightarrow>
   leader_flush_send_buffer st = st\<lparr>lead_sent := lead_sent st @ [prep_datagram (prep_batch st)]\<rparr>"
  by (simp add: leader_flush_send_buffer_def prep_buffer_ok_def leader_msg_def prep_datagram_def
      size_Prepare_Batch c_simps)

definition prepares :: "(int \<times> int) list \<Rightarrow> prepare_msg list" where
  "prepares xs = map (\<lambda>(i, b). \<lparr>pm_iid = i, pm_ballot = b\<rparr>) xs"

lemma add_prepare_full:
  assumes "prep_buffer_ok st"
  shows "to_size_t 9000 < to_size_t (28 + 8 * int (length (prep_batch st))) \<longleftrightarrow> 1122 \<le> length (prep_batch st)"
proof -
  have "to_size_t 9000 < to_size_t (28 + 8 * int (length (prep_batch st)))
      \<longleftrightarrow> 9000 < 28 + 8 * int (length (prep_batch st))"
    using assms by (intro to_size_t_less) (simp_all add: prep_buffer_ok_def)
  also have "\<dots> \<longleftrightarrow> 1122 \<le> length (prep_batch st)" by linarith
  finally show ?thesis .
qed

lemma add_prepare_buffer:
  assumes "prep_buffer_ok st"
  defines "ms \<equiv> \<lambda>i b. prep_batch st @ [\<lparr>pm_iid = i, pm_ballot = b\<rparr>]"
  shows "prep_buffer_ok (add_prepare_to_buffer i b st)"
    and "length (prep_batch st) < 1122 \<Longrightarrow> lead_sent (add_prepare_to_buffer i b st) = lead_sent st"
    and "length (prep_batch st) < 1122 \<Longrightarrow> prep_batch (add_prepare_to_buffer i b st) = ms i b"
    and "\<not> length (prep_batch st) < 1122 \<Longrightarrow>
      lead_sent (add_prepare_to_buffer i b st) = lead_sent st @ [prep_datagram (ms i b)]"
    and "\<not> length (prep_batch st) < 1122 \<Longrightarrow> prep_batch (add_prepare_to_buffer i b st) = []"
  using assms(1) add_prepare_full [OF assms(1)]
  by (simp_all add: ms_def prep_buffer_ok_def add_prepare_to_buffer_def init_prepare_batch_def
      leader_flush_send_buffer_def leader_msg_def prep_datagram_def size_Prepare_Batch c_simps Let_def add.commute)

lemma send_prepares_sends:
  assumes "prep_buffer_ok st"
  shows "prep_buffer_ok (send_prepares xs st) \<and>
    (\<exists>ds. lead_sent (send_prepares xs st) = lead_sent st @ map prep_datagram ds
       \<and> concat ds @ prep_batch (send_prepares xs st) = prep_batch st @ prepares xs
       \<and> (\<forall>d\<in>set ds. d \<noteq> [] \<and> length d \<le> 1123))"
  using assms
proof (induction xs arbitrary: st)
  case Nil
  then show ?case by (simp add: prepares_def exI [of _ "[]"])
next
  case (Cons x xs)
  obtain i b where x: "x = (i, b)" by (cases x)
  define st1 where "st1 = add_prepare_to_buffer i b st"
  let ?ms = "prep_batch st @ [\<lparr>pm_iid = i, pm_ballot = b\<rparr>]"
  note add = add_prepare_buffer [OF Cons.prems, of i b, folded st1_def]
  obtain ds where ok: "prep_buffer_ok (send_prepares xs st1)"
    and ds: "lead_sent (send_prepares xs st1) = lead_sent st1 @ map prep_datagram ds"
    "concat ds @ prep_batch (send_prepares xs st1) = prep_batch st1 @ prepares xs"
    "\<forall>d\<in>set ds. d \<noteq> [] \<and> length d \<le> 1123"
    using Cons.IH [OF add(1)] by blast
  have all: "prepares (x # xs) = \<lparr>pm_iid = i, pm_ballot = b\<rparr> # prepares xs" by (simp add: prepares_def x)
  have run: "send_prepares (x # xs) st = send_prepares xs st1" by (simp add: x st1_def)
  show ?case
  proof (cases "length (prep_batch st) < 1122")
    case True
    with ds add(2,3) have "lead_sent (send_prepares xs st1) = lead_sent st @ map prep_datagram ds"
      "concat ds @ prep_batch (send_prepares xs st1) = prep_batch st @ prepares (x # xs)"
      by (simp_all add: all)
    with ok ds(3) run show ?thesis by auto
  next
    case False
    with ds add(4,5) have "lead_sent (send_prepares xs st1) = lead_sent st @ map prep_datagram (?ms # ds)"
      "concat (?ms # ds) @ prep_batch (send_prepares xs st1) = prep_batch st @ prepares (x # xs)"
      by (simp_all add: all)
    moreover have "\<forall>d\<in>set (?ms # ds). d \<noteq> [] \<and> length d \<le> 1123"
      using Cons.prems ds(3) by (simp add: prep_buffer_ok_def)
    ultimately show ?thesis using ok run by metis
  qed
qed

end
