(* ===== verification/Leader_Phase1.thy ===== *)
theory Leader_Phase1
  imports Leader_Invariant
begin

text \<open>
  What \<^verbatim>\<open>execute_phase1\<close> and \<^verbatim>\<open>phase1_check_cb\<close> do to the array and which prepares they send, and
  that they keep the invariant of slots and datagrams.
\<close>

section \<open>Opening a window\<close>

definition window :: "leader \<Rightarrow> int list" where
  "window st = [highest_ready (p1info st) + 1 .. highest_ready (p1info st) + 51]"

definition to_open :: "leader \<Rightarrow> int list" where
  "to_open st = loop_hits opens (window st) (proposer_array st)"

definition open_prepares :: "leader \<Rightarrow> prepare_msg list" where
  "open_prepares st = prepares (map (\<lambda>i. (i, FIRST_BALLOT st)) (to_open st))"

definition small_ready :: "leader \<Rightarrow> bool" where
  "small_ready st \<longleftrightarrow> -1 \<le> highest_ready (p1info st) \<and> highest_ready (p1info st) \<le> 2147483000"

lemma window_i32:
  "small_ready st \<Longrightarrow> [i32 (highest_ready (p1info st) + 1) ..
     i32 (i32 (highest_ready (p1info st) + 1) + PROPOSER_PREEXEC_WIN_SIZE)] = window st"
  by (simp add: small_ready_def window_def c_simps add.commute)

lemma fold_open_effect:
  "fold phase1_open (window st) st =
    send_prepares (map (\<lambda>i. (i, FIRST_BALLOT st)) (to_open st))
      (pend (int (length (to_open st)))
        (st\<lparr>proposer_array := loop_array opens (opened (FIRST_BALLOT st)) (window st) (proposer_array st)\<rparr>))"
proof -
  have hit: "one_hit opens (opened (FIRST_BALLOT st)) (window st) (proposer_array st)"
    unfolding window_def by (rule one_hit_open) simp
  have "pr_ballot (opened b i r) = b" for b i r by (simp add: opened_def clear_promises_def)
  then show ?thesis
    unfolding fold_phase1_open prepare_loop_effect [OF hit] by (simp add: to_open_def)
qed

text \<open>The state after the window loop, before the last batch is flushed.\<close>

definition opened_state :: "leader \<Rightarrow> leader" where
  "opened_state st = widen_check (highest_ready (p1info st) + 1) (highest_ready (p1info st) + 51)
     (fold phase1_open (window st) st)"

lemma execute_phase1_opened:
  assumes "small_ready st"
  shows "execute_phase1 st =
    (if prep_batch (opened_state st) \<noteq> [] then leader_flush_send_buffer (opened_state st) else opened_state st)"
proof -
  have "i32 (highest_ready (p1info st) + 1) = highest_ready (p1info st) + 1"
    "i32 (i32 (highest_ready (p1info st) + 1) + PROPOSER_PREEXEC_WIN_SIZE) = highest_ready (p1info st) + 51"
    using assms by (simp_all add: small_ready_def c_simps)
  then show ?thesis
    unfolding execute_phase1_def window_i32 [OF assms] opened_state_def Let_def by simp
qed

lemma opened_state_frame:
  "proposer_array (opened_state st) = loop_array opens (opened (FIRST_BALLOT st)) (window st) (proposer_array st)"
  "pending_count (p1info (opened_state st)) = (if to_open st = [] then pending_count (p1info st) else i32 (pending_count (p1info st) + int (length (to_open st))))"
  "ready_count (p1info (opened_state st)) = ready_count (p1info st)"
  "highest_ready (p1info (opened_state st)) = highest_ready (p1info st)"
  "first_to_check (p1info (opened_state st)) = min (first_to_check (p1info st)) (highest_ready (p1info st) + 1)"
  "last_to_check (p1info (opened_state st)) = max (last_to_check (p1info st)) (highest_ready (p1info st) + 51)"
  "lead_quorum (opened_state st) = lead_quorum st"
  "lead_proposer_id (opened_state st) = lead_proposer_id st"
  "lead_current_iid (opened_state st) = lead_current_iid st"
  "leader_recv_buffer (opened_state st) = leader_recv_buffer st"
  unfolding opened_state_def fold_open_effect
  by (simp_all add: widen_check_def pend_def add_pending_def frame Let_def)

lemma leader_flush_frame [frame]:
  "proposer_array (leader_flush_send_buffer st) = proposer_array st"
  "p1info (leader_flush_send_buffer st) = p1info st"
  "lead_quorum (leader_flush_send_buffer st) = lead_quorum st"
  "lead_proposer_id (leader_flush_send_buffer st) = lead_proposer_id st"
  "lead_current_iid (leader_flush_send_buffer st) = lead_current_iid st"
  "leader_recv_buffer (leader_flush_send_buffer st) = leader_recv_buffer st"
  "prep_batch (leader_flush_send_buffer st) = prep_batch st"
  "prep_buffer_ok (leader_flush_send_buffer st) = prep_buffer_ok st"
  by (simp_all add: leader_flush_send_buffer_def prep_buffer_ok_def)

lemma execute_phase1_frame:
  assumes "small_ready st"
  shows "proposer_array (execute_phase1 st) = proposer_array (opened_state st)"
    and "p1info (execute_phase1 st) = p1info (opened_state st)"
    and "lead_quorum (execute_phase1 st) = lead_quorum st"
    and "lead_proposer_id (execute_phase1 st) = lead_proposer_id st"
    and "lead_current_iid (execute_phase1 st) = lead_current_iid st"
    and "leader_recv_buffer (execute_phase1 st) = leader_recv_buffer st"
  by (simp_all add: execute_phase1_opened [OF assms] frame opened_state_frame)

text \<open>The batches: everything that was in the buffer and a prepare for each instance opened.\<close>

lemma execute_phase1_sends:
  assumes "small_ready st" and "prep_buffer_ok st"
  shows "prep_buffer_ok (execute_phase1 st) \<and>
    (\<exists>ds. lead_sent (execute_phase1 st) = lead_sent st @ map prep_datagram ds
       \<and> concat ds = prep_batch st @ open_prepares st
       \<and> (\<forall>d\<in>set ds. d \<noteq> [] \<and> length d \<le> 1123)
       \<and> (prep_batch (execute_phase1 st) \<noteq> [] \<longrightarrow> ds \<noteq> [] \<and> last ds = prep_batch (execute_phase1 st)))"
proof -
  let ?xs = "map (\<lambda>i. (i, FIRST_BALLOT st)) (to_open st)"
  let ?s0 = "pend (int (length (to_open st)))
    (st\<lparr>proposer_array := loop_array opens (opened (FIRST_BALLOT st)) (window st) (proposer_array st)\<rparr>)"
  have s0: "prep_buffer_ok ?s0" "lead_sent ?s0 = lead_sent st" "prep_batch ?s0 = prep_batch st"
    using assms(2) by (simp_all add: prep_buffer_ok_def pend_def add_pending_def)
  have same: "lead_sent (opened_state st) = lead_sent (send_prepares ?xs ?s0)"
    "prep_batch (opened_state st) = prep_batch (send_prepares ?xs ?s0)"
    "prep_buffer_ok (opened_state st) = prep_buffer_ok (send_prepares ?xs ?s0)"
    unfolding opened_state_def fold_open_effect by (simp_all add: widen_check_def prep_buffer_ok_def Let_def)
  obtain ds where ok: "prep_buffer_ok (opened_state st)"
    and ds: "lead_sent (opened_state st) = lead_sent st @ map prep_datagram ds"
    "concat ds @ prep_batch (opened_state st) = prep_batch st @ open_prepares st"
    "\<forall>d\<in>set ds. d \<noteq> [] \<and> length d \<le> 1123"
    using send_prepares_sends [OF s0(1), of ?xs] unfolding same s0 open_prepares_def by blast
  show ?thesis
  proof (cases "prep_batch (opened_state st) = []")
    case True
    with ds ok have "execute_phase1 st = opened_state st" "concat ds = prep_batch st @ open_prepares st"
      by (simp_all add: execute_phase1_opened [OF assms(1)])
    with True ds ok show ?thesis by auto
  next
    case False
    let ?b = "prep_batch (opened_state st)"
    have run: "execute_phase1 st = leader_flush_send_buffer (opened_state st)"
      using False by (simp add: execute_phase1_opened [OF assms(1)])
    have "lead_sent (execute_phase1 st) = lead_sent st @ map prep_datagram (ds @ [?b])"
      using ds(1) unfolding run flush_prepare [OF ok] by simp
    moreover have "concat (ds @ [?b]) = prep_batch st @ open_prepares st" using ds(2) by simp
    moreover have "\<forall>d\<in>set (ds @ [?b]). d \<noteq> [] \<and> length d \<le> 1123"
      using ds(3) False ok by (simp add: prep_buffer_ok_def)
    moreover have "prep_batch (execute_phase1 st) = ?b" "prep_buffer_ok (execute_phase1 st)"
      using ok by (simp_all add: run frame)
    ultimately show ?thesis by (intro conjI exI [of _ "ds @ [?b]"]) simp_all
  qed
qed

section \<open>The periodic check\<close>

definition to_retry :: "leader \<Rightarrow> int list" where
  "to_retry st = loop_hits retries [first_to_check (p1info st) .. last_to_check (p1info st)] (proposer_array st)"

definition retry_prepares :: "leader \<Rightarrow> prepare_msg list" where
  "retry_prepares st =
     prepares (map (\<lambda>i. (i, BALLOT_NEXT (pr_ballot (proposer_array st (GET_PRO_INDEX i))))) (to_retry st))"

text \<open>The state after the retry loop.\<close>

definition retried_state :: "leader \<Rightarrow> leader" where
  "retried_state st = fold phase1_retry [first_to_check (p1info st) .. last_to_check (p1info st)]
     (init_prepare_batch (st\<lparr>phase1_armed := False\<rparr>))"

definition wants_more :: "leader \<Rightarrow> bool" where
  "wants_more st \<longleftrightarrow> i32 (pending_count (p1info st) + ready_count (p1info st)) < 25"

lemma retried_state_effect:
  "retried_state st = send_prepares
     (map (\<lambda>i. (i, BALLOT_NEXT (pr_ballot (proposer_array st (GET_PRO_INDEX i))))) (to_retry st))
     ((init_prepare_batch (st\<lparr>phase1_armed := False\<rparr>))\<lparr>proposer_array :=
        loop_array retries retried [first_to_check (p1info st) .. last_to_check (p1info st)] (proposer_array st)\<rparr>)"
proof -
  let ?s0 = "init_prepare_batch (st\<lparr>phase1_armed := False\<rparr>)"
  let ?is = "[first_to_check (p1info st) .. last_to_check (p1info st)]"
  have A: "proposer_array ?s0 = proposer_array st" by (simp add: init_prepare_batch_def)
  have "pr_ballot (retried i r) = BALLOT_NEXT (pr_ballot r)" for i r
    by (simp add: retried_def clear_promises_def)
  moreover have "pend 0 s = s" for s by (simp add: pend_def)
  ultimately show ?thesis
    using prepare_loop_effect [OF one_hit_retry, of ?is 0 ?s0]
    by (simp add: retried_state_def fold_phase1_retry A to_retry_def)
qed

lemma retried_state_frame:
  "proposer_array (retried_state st) =
     loop_array retries retried [first_to_check (p1info st) .. last_to_check (p1info st)] (proposer_array st)"
  "p1info (retried_state st) = p1info st"
  "lead_quorum (retried_state st) = lead_quorum st"
  "lead_proposer_id (retried_state st) = lead_proposer_id st"
  "lead_current_iid (retried_state st) = lead_current_iid st"
  "leader_recv_buffer (retried_state st) = leader_recv_buffer st"
  unfolding retried_state_effect by (simp_all add: frame init_prepare_batch_def)

lemma retried_state_sends:
  "prep_buffer_ok (retried_state st) \<and>
    (\<exists>ds. lead_sent (retried_state st) = lead_sent st @ map prep_datagram ds
       \<and> concat ds @ prep_batch (retried_state st) = retry_prepares st
       \<and> (\<forall>d\<in>set ds. d \<noteq> [] \<and> length d \<le> 1123))"
proof -
  let ?s0 = "(init_prepare_batch (st\<lparr>phase1_armed := False\<rparr>))\<lparr>proposer_array :=
        loop_array retries retried [first_to_check (p1info st) .. last_to_check (p1info st)] (proposer_array st)\<rparr>"
  have s0: "prep_buffer_ok ?s0" "lead_sent ?s0 = lead_sent st" "prep_batch ?s0 = []"
    by (simp_all add: prep_buffer_ok_def init_prepare_batch_def c_simps)
  show ?thesis
    using send_prepares_sends [OF s0(1)] unfolding retried_state_effect s0 retry_prepares_def by simp
qed

text \<open>
  The prepares of a check, in order: the pending instances at their next ballot, then the new
  window if the pipeline has run low. The last batch is sent twice when a window was opened.
\<close>

definition check_prepares :: "leader \<Rightarrow> prepare_msg list" where
  "check_prepares st = retry_prepares st
     @ (if wants_more st then open_prepares (retried_state st) else [])"

definition checked_state :: "leader \<Rightarrow> leader" where
  "checked_state st = (if wants_more st then execute_phase1 (retried_state st) else retried_state st)"

lemma phase1_check_cb_checked:
  "phase1_check_cb st = set_phase1_check_timeout
     (if prep_batch (checked_state st) \<noteq> [] then leader_flush_send_buffer (checked_state st) else checked_state st)"
  by (simp add: phase1_check_cb_def retried_state_def [symmetric] checked_state_def wants_more_def
      retried_state_frame c_simps Let_def)

lemma phase1_check_cb_frame:
  "proposer_array (phase1_check_cb st) = proposer_array (checked_state st)"
  "p1info (phase1_check_cb st) = p1info (checked_state st)"
  "lead_quorum (phase1_check_cb st) = lead_quorum (checked_state st)"
  "lead_proposer_id (phase1_check_cb st) = lead_proposer_id (checked_state st)"
  "lead_current_iid (phase1_check_cb st) = lead_current_iid (checked_state st)"
  "leader_recv_buffer (phase1_check_cb st) = leader_recv_buffer (checked_state st)"
  by (simp_all add: phase1_check_cb_checked set_phase1_check_timeout_def frame)

definition repeated :: "leader \<Rightarrow> prepare_msg list list" where
  "repeated st = (if wants_more st \<and> prep_batch (checked_state st) \<noteq> [] then [prep_batch (checked_state st)] else [])"

lemma phase1_check_cb_sends:
  assumes "small_ready st"
  shows "\<exists>ds. lead_sent (phase1_check_cb st) = lead_sent st @ map prep_datagram (ds @ repeated st)
    \<and> concat ds = check_prepares st \<and> (\<forall>d\<in>set ds. d \<noteq> [] \<and> length d \<le> 1123)
    \<and> (\<forall>d\<in>set (repeated st). d \<in> set ds)"
proof -
  let ?r = "retried_state st"
  obtain ds where ok: "prep_buffer_ok ?r" and ds: "lead_sent ?r = lead_sent st @ map prep_datagram ds"
    "concat ds @ prep_batch ?r = retry_prepares st" "\<forall>d\<in>set ds. d \<noteq> [] \<and> length d \<le> 1123"
    using retried_state_sends [of st] by blast
  have small: "small_ready ?r" using assms by (simp add: small_ready_def retried_state_frame)
  show ?thesis
  proof (cases "wants_more st")
    case False
    let ?b = "prep_batch ?r"
    have st: "checked_state st = ?r" "repeated st = []" using False by (simp_all add: checked_state_def repeated_def)
    show ?thesis
    proof (cases "?b = []")
      case True
      then have "lead_sent (phase1_check_cb st) = lead_sent st @ map prep_datagram ds"
        using ds(1) by (simp add: phase1_check_cb_checked st set_phase1_check_timeout_def)
      moreover have "concat ds = check_prepares st" using ds(2) True False by (simp add: check_prepares_def)
      ultimately show ?thesis using ds(3) st by auto
    next
      case ne: False
      then have "lead_sent (phase1_check_cb st) = lead_sent st @ map prep_datagram (ds @ [?b])"
        using ds(1) flush_prepare [OF ok] by (simp add: phase1_check_cb_checked st set_phase1_check_timeout_def)
      moreover have "concat (ds @ [?b]) = check_prepares st" using ds(2) False by (simp add: check_prepares_def)
      moreover have "\<forall>d\<in>set (ds @ [?b]). d \<noteq> [] \<and> length d \<le> 1123"
        using ds(3) ne ok by (simp add: prep_buffer_ok_def)
      ultimately show ?thesis using st by (intro exI [of _ "ds @ [?b]"]) simp
    qed
  next
    case True
    let ?e = "execute_phase1 ?r"
    have st: "checked_state st = ?e" using True by (simp add: checked_state_def)
    obtain es where ok': "prep_buffer_ok ?e" and es: "lead_sent ?e = lead_sent ?r @ map prep_datagram es"
      "concat es = prep_batch ?r @ open_prepares ?r" "\<forall>d\<in>set es. d \<noteq> [] \<and> length d \<le> 1123"
      "prep_batch ?e \<noteq> [] \<longrightarrow> es \<noteq> [] \<and> last es = prep_batch ?e"
      using execute_phase1_sends [OF small ok] by blast
    have "lead_sent (phase1_check_cb st) = lead_sent st @ map prep_datagram ((ds @ es) @ repeated st)"
      using ds(1) es(1) True flush_prepare [OF ok']
      by (simp add: phase1_check_cb_checked st set_phase1_check_timeout_def repeated_def)
    moreover have "concat (ds @ es) = check_prepares st"
      using ds(2) es(2) True by (simp add: check_prepares_def flip: append_assoc)
    moreover have "prep_batch ?e \<noteq> [] \<longrightarrow> prep_batch ?e \<in> set es" using es(4) by (metis last_in_set)
    then have "\<forall>d\<in>set (repeated st). d \<in> set (ds @ es)" by (simp add: repeated_def st)
    ultimately show ?thesis using ds(3) es(3) by (intro exI [of _ "ds @ es"]) auto
  qed
qed

end
