(* ===== verification/Leader_Phase2.thy ===== *)
theory Leader_Phase2
  imports Leader_Phase1
begin

text \<open>
  The second half of the leader: the promises it collects, the choice of a value, and what
  \<^verbatim>\<open>execute_phase2\<close> sends.
\<close>

section \<open>Choosing a value\<close>

text \<open>The promises that report a value.\<close>

definition reports :: "promise_info \<Rightarrow> bool" where
  "reports p \<longleftrightarrow> pi_iid p \<noteq> -1 \<and> -1 < pi_value_ballot p"

lemma phase2_pick_fold:
  "fold phase2_pick ps (b, pi) =
    (let rs = filter (\<lambda>p. pi_iid p \<noteq> -1 \<and> b < pi_value_ballot p \<and> pi_value_ballot p \<noteq> -1) ps in
     if rs = [] then (b, pi)
     else (Max (pi_value_ballot ` set rs),
           find (\<lambda>p. pi_value_ballot p = Max (pi_value_ballot ` set rs)) rs))"
proof (induction ps arbitrary: b pi)
  case Nil
  then show ?case by simp
next
  case (Cons p ps)
  let ?P = "\<lambda>b p. pi_iid p \<noteq> -1 \<and> b < pi_value_ballot p \<and> pi_value_ballot p \<noteq> -1"
  show ?case
  proof (cases "?P b p")
    case False
    then show ?thesis using Cons.IH [of b pi] by (auto simp: phase2_pick_def Let_def)
  next
    case True
    let ?v = "pi_value_ballot p"
    let ?rs = "filter (?P b) ps" and ?ts = "filter (?P ?v) ps"
    have step: "fold phase2_pick (p # ps) (b, pi) = fold phase2_pick ps (?v, Some p)"
      using True by (simp add: phase2_pick_def)
    have sub: "set ?ts \<subseteq> set ?rs" using True by auto
    show ?thesis
    proof (cases "?ts = []")
      case True
      then have le: "\<forall>q\<in>set ?rs. pi_value_ballot q \<le> ?v"
        by (auto simp: filter_empty_conv not_less)
      then have "Max (pi_value_ballot ` set (p # ?rs)) = ?v" by (intro Max_eqI) auto
      with step True \<open>?P b p\<close> Cons.IH [of ?v "Some p"] show ?thesis by (simp add: Let_def)
    next
      case False
      let ?m = "Max (pi_value_ballot ` set ?ts)"
      have m_in: "?m \<in> pi_value_ballot ` set ?ts" using False by (intro Max_in) (simp_all del: set_filter)
      then have "?v < ?m" by auto
      have "?m = Max (pi_value_ballot ` set (p # ?rs))"
      proof (rule Max_eqI [symmetric])
        show "?m \<in> pi_value_ballot ` set (p # ?rs)" using m_in sub by auto
        fix y assume "y \<in> pi_value_ballot ` set (p # ?rs)"
        then obtain q where q: "q \<in> set (p # ?rs)" "y = pi_value_ballot q" by auto
        show "y \<le> ?m"
        proof (cases "?v < y")
          case True
          with q have "q \<in> set ?ts" by auto
          with q show ?thesis by (intro Max_ge) auto
        next
          case False
          with \<open>?v < ?m\<close> show ?thesis by simp
        qed
      qed simp
      moreover have "find (\<lambda>q. pi_value_ballot q = ?m) ?ts = find (\<lambda>q. pi_value_ballot q = ?m) (p # ?rs)"
      proof -
        have "find (\<lambda>q. pi_value_ballot q = ?m) (filter (?P ?v) qs) = find (\<lambda>q. pi_value_ballot q = ?m) (filter (?P b) qs)" for qs
          using \<open>?v < ?m\<close> True by (induction qs) auto
        then show ?thesis using \<open>?v < ?m\<close> by simp
      qed
      ultimately show ?thesis using step False True Cons.IH [of ?v "Some p"] by (simp add: Let_def)
    qed
  qed
qed

lemma phase2_value_find:
  "phase2_value r =
    (let rs = filter reports (pr_promises r) in
     if rs = [] then None else find (\<lambda>p. pi_value_ballot p = Max (pi_value_ballot ` set rs)) rs)"
proof -
  have "filter (\<lambda>p. pi_iid p \<noteq> -1 \<and> -1 < pi_value_ballot p \<and> pi_value_ballot p \<noteq> -1) ps = filter reports ps" for ps
    by (rule filter_cong) (auto simp: reports_def)
  then show ?thesis by (simp add: phase2_value_def phase2_pick_fold Let_def)
qed

lemma phase2_value_None: "phase2_value r = None \<longleftrightarrow> (\<forall>p\<in>set (pr_promises r). \<not> reports p)"
proof (cases "filter reports (pr_promises r) = []")
  case True
  then show ?thesis by (auto simp: phase2_value_find filter_empty_conv)
next
  case False
  then have "Max (pi_value_ballot ` set (filter reports (pr_promises r)))
      \<in> pi_value_ballot ` set (filter reports (pr_promises r))" using False by (intro Max_in) (simp_all del: set_filter)
  then have "phase2_value r \<noteq> None" using False by (auto simp: phase2_value_find find_None_iff Let_def)
  with False show ?thesis by (auto simp: filter_empty_conv)
qed

lemma phase2_value_Some:
  assumes "phase2_value r = Some p"
  shows "p \<in> set (pr_promises r) \<and> reports p
    \<and> (\<forall>q\<in>set (pr_promises r). reports q \<longrightarrow> pi_value_ballot q \<le> pi_value_ballot p)"
proof -
  let ?rs = "filter reports (pr_promises r)"
  have "find (\<lambda>p. pi_value_ballot p = Max (pi_value_ballot ` set ?rs)) ?rs = Some p"
    using assms by (simp add: phase2_value_find Let_def split: if_splits)
  from find_SomeD [OF this] have "p \<in> set ?rs" "pi_value_ballot p = Max (pi_value_ballot ` set ?rs)" by auto
  moreover have "pi_value_ballot q \<le> Max (pi_value_ballot ` set ?rs)" if "q \<in> set ?rs" for q
    using that by (intro Max_ge) auto
  ultimately show ?thesis by auto
qed

section \<open>The phase 2 loop\<close>

definition finish :: "proposer_record \<Rightarrow> proposer_record" where
  "finish r = (if pr_status r = p1_ready then r\<lparr>pr_status := p1_finished\<rparr> else r)"

lemma finish_finish [simp]: "finish (finish r) = finish r"
  by (simp add: finish_def)

lemma append_any_frame [frame]:
  "proposer_array (append_anymsg_to_buffer i st) = proposer_array st"
  "p1info (append_anymsg_to_buffer i st) = p1info st"
  "lead_quorum (append_anymsg_to_buffer i st) = lead_quorum st"
  "lead_proposer_id (append_anymsg_to_buffer i st) = lead_proposer_id st"
  "lead_current_iid (append_anymsg_to_buffer i st) = lead_current_iid st"
  "leader_recv_buffer (append_anymsg_to_buffer i st) = leader_recv_buffer st"
  by (simp_all add: append_anymsg_to_buffer_def leader_flush_send_buffer_def Let_def)

lemma send_accept_frame [frame]:
  "proposer_array (send_accept r pi st) = proposer_array st"
  "p1info (send_accept r pi st) = p1info st"
  "lead_quorum (send_accept r pi st) = lead_quorum st"
  "lead_proposer_id (send_accept r pi st) = lead_proposer_id st"
  "lead_current_iid (send_accept r pi st) = lead_current_iid st"
  "leader_recv_buffer (send_accept r pi st) = leader_recv_buffer st"
  by (simp_all add: send_accept_def)

lemma phase2_one_array:
  "proposer_array (phase2_one i st) =
     (proposer_array st)(GET_PRO_INDEX i := finish (proposer_array st (GET_PRO_INDEX i)))"
  by (auto simp: phase2_one_def finish_def set_record_def frame Let_def split: option.splits)

lemma phase2_one_frame [frame]:
  "p1info (phase2_one i st) = p1info st"
  "lead_quorum (phase2_one i st) = lead_quorum st"
  "lead_proposer_id (phase2_one i st) = lead_proposer_id st"
  "lead_current_iid (phase2_one i st) = lead_current_iid st"
  "leader_recv_buffer (phase2_one i st) = leader_recv_buffer st"
  by (auto simp: phase2_one_def set_record_def frame Let_def split: option.splits)

lemma fold_phase2_array:
  "proposer_array (fold phase2_one is st) k =
     (if k \<in> GET_PRO_INDEX ` set is then finish (proposer_array st k) else proposer_array st k)"
  by (induction "is" arbitrary: st) (auto simp: phase2_one_array)

lemma fold_phase2_frame [frame]:
  "p1info (fold phase2_one is st) = p1info st"
  "lead_quorum (fold phase2_one is st) = lead_quorum st"
  "lead_proposer_id (fold phase2_one is st) = lead_proposer_id st"
  "lead_current_iid (fold phase2_one is st) = lead_current_iid st"
  "leader_recv_buffer (fold phase2_one is st) = leader_recv_buffer st"
  by (induction "is" arbitrary: st) (simp_all add: frame)

lemma execute_phase2_frame [frame]:
  "p1info (execute_phase2 f l st) = p1info st"
  "lead_quorum (execute_phase2 f l st) = lead_quorum st"
  "lead_proposer_id (execute_phase2 f l st) = lead_proposer_id st"
  "lead_current_iid (execute_phase2 f l st) = lead_current_iid st"
  "leader_recv_buffer (execute_phase2 f l st) = leader_recv_buffer st"
  by (simp_all add: execute_phase2_def frame init_anyval_def Let_def)

lemma execute_phase2_array:
  "proposer_array (execute_phase2 f l st) k =
     (if k \<in> GET_PRO_INDEX ` {f..l} then finish (proposer_array st k) else proposer_array st k)"
proof -
  have "proposer_array (init_anyval st) = proposer_array st" by (simp add: init_anyval_def)
  then show ?thesis by (simp add: execute_phase2_def frame fold_phase2_array Let_def)
qed

section \<open>What phase 2 sends, within one window\<close>

definition accept_datagram :: "proposer_record \<Rightarrow> promise_info \<Rightarrow> datagram" where
  "accept_datagram r pi =
     (Acceptors_Net, sizeof_paxos_msg + (sizeof_accept_msg + pi_value_size pi), Accept (accept_of r pi))"

definition any_datagram :: "int \<Rightarrow> int list \<Rightarrow> datagram" where
  "any_datagram b is = (Acceptors_Net, int (length (encode_packet (Anyval b is))), Anyval b is)"

definition ready_at :: "(nat \<Rightarrow> proposer_record) \<Rightarrow> int \<Rightarrow> bool" where
  "ready_at A i \<longleftrightarrow> pr_status (A (GET_PRO_INDEX i)) = p1_ready"

definition valued :: "(nat \<Rightarrow> proposer_record) \<Rightarrow> int list \<Rightarrow> int list" where
  "valued A is = filter (\<lambda>i. ready_at A i \<and> phase2_value (A (GET_PRO_INDEX i)) \<noteq> None) is"

definition unvalued :: "(nat \<Rightarrow> proposer_record) \<Rightarrow> int list \<Rightarrow> int list" where
  "unvalued A is = filter (\<lambda>i. ready_at A i \<and> phase2_value (A (GET_PRO_INDEX i)) = None) is"

definition accepts_for :: "(nat \<Rightarrow> proposer_record) \<Rightarrow> int list \<Rightarrow> datagram list" where
  "accepts_for A is = map (\<lambda>i. let r = A (GET_PRO_INDEX i) in accept_datagram r (the (phase2_value r))) (valued A is)"

definition ballots_of :: "(nat \<Rightarrow> proposer_record) \<Rightarrow> int list \<Rightarrow> int list" where
  "ballots_of A is = map (\<lambda>i. pr_ballot (A (GET_PRO_INDEX i))) (unvalued A is)"

definition any_buffer_ok :: "leader \<Rightarrow> bool" where
  "any_buffer_ok st \<longleftrightarrow> msg_type st = PAXOS_ANYVAL
     \<and> msg_data_size st = 8 + 4 * int (length (any_ids st)) \<and> length (any_ids st) < 2246"

lemma any_buffer_ok_init [simp]: "any_buffer_ok (init_anyval st)"
  by (simp add: any_buffer_ok_def init_anyval_def c_simps)

lemma flush_any:
  "any_buffer_ok st \<Longrightarrow>
   leader_flush_send_buffer st = st\<lparr>lead_sent := lead_sent st @ [any_datagram (any_ballot st) (any_ids st)]\<rparr>"
  by (simp add: leader_flush_send_buffer_def any_buffer_ok_def leader_msg_def any_datagram_def size_Anyval c_simps)

lemma append_any_full:
  assumes "any_buffer_ok st"
  shows "to_size_t 9000 < to_size_t (24 + 4 * int (length (any_ids st))) \<longleftrightarrow> 2245 \<le> length (any_ids st)"
proof -
  have "to_size_t 9000 < to_size_t (24 + 4 * int (length (any_ids st))) \<longleftrightarrow> 9000 < 24 + 4 * int (length (any_ids st))"
    using assms by (intro to_size_t_less) (simp_all add: any_buffer_ok_def)
  also have "\<dots> \<longleftrightarrow> 2245 \<le> length (any_ids st)" by linarith
  finally show ?thesis .
qed

lemma append_any_room:
  "any_buffer_ok st \<Longrightarrow> length (any_ids st) < 2245 \<Longrightarrow>
   append_anymsg_to_buffer i st = st\<lparr>msg_data_size := msg_data_size st + 4, any_ids := any_ids st @ [i]\<rparr>"
  using append_any_full [of st]
  by (simp add: append_anymsg_to_buffer_def any_buffer_ok_def c_simps Let_def add.commute)

lemma append_any_flush:
  "any_buffer_ok st \<Longrightarrow> \<not> length (any_ids st) < 2245 \<Longrightarrow>
   append_anymsg_to_buffer i st = st\<lparr>msg_data_size := 8, any_ballot := -1, any_ids := [],
     lead_sent := lead_sent st @ [any_datagram (any_ballot st) (any_ids st @ [i])]\<rparr>"
  using append_any_full [of st]
  by (simp add: append_anymsg_to_buffer_def any_buffer_ok_def leader_flush_send_buffer_def leader_msg_def
      any_datagram_def size_Anyval c_simps Let_def add.commute)

text \<open>The loop over distinct slots: the accepts in order, and the ids collected for the any message.\<close>

lemma fold_phase2_sends:
  assumes "inj_on GET_PRO_INDEX (set is)" "distinct is" "any_buffer_ok st"
    and "length (any_ids st) + length is < 2246"
  shows "any_buffer_ok (fold phase2_one is st)
    \<and> lead_sent (fold phase2_one is st) = lead_sent st @ accepts_for (proposer_array st) is
    \<and> any_ids (fold phase2_one is st) = any_ids st @ unvalued (proposer_array st) is
    \<and> any_ballot (fold phase2_one is st) = fold max (ballots_of (proposer_array st) is) (any_ballot st)"
  using assms
proof (induction "is" arbitrary: st)
  case Nil
  then show ?case by (simp add: accepts_for_def valued_def unvalued_def ballots_of_def)
next
  case (Cons i "is")
  let ?A = "proposer_array st" and ?st = "phase2_one i st"
  let ?r = "?A (GET_PRO_INDEX i)"
  have other: "proposer_array ?st (GET_PRO_INDEX j) = ?A (GET_PRO_INDEX j)" if "j \<in> set is" for j
    using that Cons.prems(1,2) by (auto simp: phase2_one_array inj_on_def)
  have kept: "valued (proposer_array ?st) is = valued ?A is" "unvalued (proposer_array ?st) is = unvalued ?A is"
    unfolding valued_def unvalued_def ready_at_def using other by (auto intro!: filter_cong)
  have accs: "accepts_for (proposer_array ?st) is = accepts_for ?A is"
    unfolding accepts_for_def kept using other by (auto simp: valued_def Let_def)
  have bals: "ballots_of (proposer_array ?st) is = ballots_of ?A is"
    unfolding ballots_of_def kept using other by (auto simp: unvalued_def)
  have one: "any_buffer_ok ?st \<and> lead_sent ?st = lead_sent st @ accepts_for ?A [i]
      \<and> any_ids ?st = any_ids st @ unvalued ?A [i]
      \<and> any_ballot ?st = fold max (ballots_of ?A [i]) (any_ballot st)"
  proof (cases "pr_status ?r = p1_ready")
    case False
    then show ?thesis
      using Cons.prems(3)
      by (simp add: phase2_one_def accepts_for_def valued_def unvalued_def ballots_of_def ready_at_def Let_def)
  next
    case True
    show ?thesis
    proof (cases "phase2_value ?r")
      case (Some pi)
      with True Cons.prems(3) show ?thesis
        by (simp add: phase2_one_def set_record_def send_accept_def accepts_for_def accept_datagram_def
            valued_def unvalued_def ballots_of_def ready_at_def any_buffer_ok_def Let_def)
    next
      case None
      let ?s = "if pr_ballot ?r > any_ballot st then st\<lparr>any_ballot := pr_ballot ?r\<rparr> else st"
      have ok: "any_buffer_ok ?s" "length (any_ids ?s) < 2245"
        using Cons.prems(3,4) by (simp_all add: any_buffer_ok_def)
      have "?st = set_record (GET_PRO_INDEX i) (?r\<lparr>pr_status := p1_finished\<rparr>) (append_anymsg_to_buffer i ?s)"
        using True None by (simp add: phase2_one_def Let_def)
      also have "\<dots> = set_record (GET_PRO_INDEX i) (?r\<lparr>pr_status := p1_finished\<rparr>)
          (?s\<lparr>msg_data_size := msg_data_size ?s + 4, any_ids := any_ids ?s @ [i]\<rparr>)"
        unfolding append_any_room [OF ok] ..
      finally show ?thesis
        using True None Cons.prems(3) ok(2)
        by (auto simp: set_record_def accepts_for_def valued_def unvalued_def ballots_of_def ready_at_def
            any_buffer_ok_def max_def)
    qed
  qed
  have len: "length (unvalued ?A [i]) \<le> 1" by (simp add: unvalued_def)
  have "any_buffer_ok (fold phase2_one is ?st)
    \<and> lead_sent (fold phase2_one is ?st) = lead_sent ?st @ accepts_for ?A is
    \<and> any_ids (fold phase2_one is ?st) = any_ids ?st @ unvalued ?A is
    \<and> any_ballot (fold phase2_one is ?st) = fold max (ballots_of ?A is) (any_ballot ?st)"
    using Cons.IH [of ?st] Cons.prems one len unfolding accs kept bals by simp
  with one show ?case
    by (simp add: accepts_for_def valued_def unvalued_def ballots_of_def)
qed

text \<open>
  Phase 2 over a range no longer than the array: one accept per ready instance whose quorum
  reported a value, with the value of the highest ballot, then one any message for the rest.
\<close>

definition phase2_sends :: "(nat \<Rightarrow> proposer_record) \<Rightarrow> int list \<Rightarrow> datagram list" where
  "phase2_sends A is = accepts_for A is
     @ (if unvalued A is = [] then [] else [any_datagram (fold max (ballots_of A is) (-1)) (unvalued A is)])"

lemma execute_phase2_sends:
  assumes "l < f + 512"
  shows "lead_sent (execute_phase2 f l st) = lead_sent st @ phase2_sends (proposer_array st) [f..l]"
proof -
  let ?s = "fold phase2_one [f..l] (init_anyval st)"
  have "inj_on GET_PRO_INDEX (set [f..l])"
  proof (rule inj_onI)
    fix i j assume "i \<in> set [f..l]" "j \<in> set [f..l]" "GET_PRO_INDEX i = GET_PRO_INDEX j"
    then show "i = j" using assms by (intro GET_PRO_INDEX_window [of i j f]) auto
  qed
  moreover have "any_ids (init_anyval st) = []" "any_ballot (init_anyval st) = -1"
    "lead_sent (init_anyval st) = lead_sent st" "proposer_array (init_anyval st) = proposer_array st"
    by (simp_all add: init_anyval_def)
  ultimately have s: "any_buffer_ok ?s" "lead_sent ?s = lead_sent st @ accepts_for (proposer_array st) [f..l]"
    "any_ids ?s = unvalued (proposer_array st) [f..l]"
    "any_ballot ?s = fold max (ballots_of (proposer_array st) [f..l]) (-1)"
    using fold_phase2_sends [of "[f..l]" "init_anyval st"] assms by simp_all
  show ?thesis
  proof (cases "any_ids ?s = []")
    case True
    then have "execute_phase2 f l st = ?s" by (simp add: execute_phase2_def Let_def)
    with True s show ?thesis by (simp add: phase2_sends_def)
  next
    case False
    then have "execute_phase2 f l st = leader_flush_send_buffer ?s" by (simp add: execute_phase2_def Let_def)
    with False s flush_any [OF s(1)] show ?thesis by (simp add: phase2_sends_def)
  qed
qed

end
