(* ===== verification/Leader_Run.thy ===== *)
theory Leader_Run
  imports Leader_Phase2
begin

text \<open>
  The leader's event loop as a step relation, its invariant, and the proof that every event keeps
  it. An event is a delivery reported by the learner, a tick of one of the two timers, or a batch
  of promises; a batch is one an acceptor sends: well formed, for an acceptor that exists, and
  with its instances between the first and the last one.
\<close>

section \<open>Events\<close>

datatype leader_event = Value_Delivered int | Phase1_Tick | Phase2_Tick | Promises int "promise_msg list"

fun leader_step :: "leader_event \<Rightarrow> leader \<Rightarrow> leader option" where
  "leader_step (Value_Delivered i) st = Some (leader_deliver_value i st)"
| "leader_step Phase1_Tick st = Some (phase1_check_cb st)"
| "leader_step Phase2_Tick st = phase2_check_cb st"
| "leader_step (Promises aid ps) st = leader_handle_promise_msg aid ps st"

definition batch_ok :: "int \<Rightarrow> promise_msg list \<Rightarrow> bool" where
  "batch_ok aid ps \<longleftrightarrow> aid \<in> acceptor_ids
     \<and> (\<forall>p\<in>set ps. wf_promise p \<and> length (prm_value p) \<le> 8968
          \<and> prm_iid (hd ps) \<le> prm_iid p \<and> prm_iid p \<le> prm_iid (last ps))"

fun event_ok :: "leader_event \<Rightarrow> bool" where
  "event_ok (Promises aid ps) \<longleftrightarrow> batch_ok aid ps"
| "event_ok _ \<longleftrightarrow> True"

inductive leader_reach :: "int \<Rightarrow> nat \<Rightarrow> leader \<Rightarrow> bool" for pid where
  init: "leader_reach pid 0 (snd (leader_init pid leader_static))"
| step: "leader_reach pid n st \<Longrightarrow> event_ok e \<Longrightarrow> leader_step e st = Some st' \<Longrightarrow> leader_reach pid (Suc n) st'"

section \<open>The invariant\<close>

definition slots_inv :: "int \<Rightarrow> nat \<Rightarrow> (nat \<Rightarrow> proposer_record) \<Rightarrow> bool" where
  "slots_inv pid n A \<longleftrightarrow> (\<forall>k. slot_ok pid n k (A k)) \<and> pr_status (A 0) \<noteq> p1_new"

definition p1_inv :: "nat \<Rightarrow> (nat \<Rightarrow> proposer_record) \<Rightarrow> phase1_info \<Rightarrow> bool" where
  "p1_inv n A p \<longleftrightarrow> -1 \<le> highest_ready p \<and> highest_ready p \<le> 51 * int n + 50 \<and> first_to_check p = 0
     \<and> (\<forall>k. pr_status (A k) \<noteq> p1_new \<longrightarrow> pr_iid (A k) \<le> last_to_check p)"

definition sent_inv :: "int \<Rightarrow> nat \<Rightarrow> leader \<Rightarrow> bool" where
  "sent_inv pid n st \<longleftrightarrow> (\<forall>d\<in>set (lead_sent st). leader_datagram pid n d)"

definition leader_core :: "int \<Rightarrow> nat \<Rightarrow> leader \<Rightarrow> bool" where
  "leader_core pid n st \<longleftrightarrow> lead_quorum st = quorum_of N_OF_ACCEPTORS \<and> lead_proposer_id st = pid
     \<and> length (leader_recv_buffer st) = nat MAX_UDP_MSG_SIZE
     \<and> slots_inv pid n (proposer_array st) \<and> p1_inv n (proposer_array st) (p1info st) \<and> sent_inv pid n st"

definition none_ready :: "leader \<Rightarrow> bool" where
  "none_ready st \<longleftrightarrow> (\<forall>k. pr_status (proposer_array st k) \<noteq> p1_ready)"

definition leader_inv :: "int \<Rightarrow> nat \<Rightarrow> leader \<Rightarrow> bool" where
  "leader_inv pid n st \<longleftrightarrow> leader_core pid n st \<and> none_ready st"

lemma slots_inv_mono: "slots_inv pid n A \<Longrightarrow> n \<le> n' \<Longrightarrow> slots_inv pid n' A"
  using slot_ok_mono [of pid n _ _ n'] by (auto simp: slots_inv_def)

lemma p1_inv_mono: "p1_inv n A p \<Longrightarrow> n \<le> n' \<Longrightarrow> p1_inv n' A p"
  by (auto simp: p1_inv_def)

lemma sent_inv_mono: "sent_inv pid n st \<Longrightarrow> n \<le> n' \<Longrightarrow> sent_inv pid n' st"
  using leader_datagram_mono [of pid n _ n'] by (auto simp: sent_inv_def)

lemma leader_core_mono: "leader_core pid n st \<Longrightarrow> n \<le> n' \<Longrightarrow> leader_core pid n' st"
  using slots_inv_mono p1_inv_mono sent_inv_mono by (auto simp: leader_core_def)

lemma FIRST_BALLOT_value: "lead_proposer_id st = pid \<Longrightarrow> in_bounds pid n \<Longrightarrow> FIRST_BALLOT st = 20 + pid"
  by (simp add: FIRST_BALLOT_def in_bounds_def c_simps)

section \<open>Phase 1 keeps it\<close>

lemma slots_inv_open:
  assumes inv: "slots_inv pid n A" and le: "n \<le> n'" and rng: "\<forall>i\<in>set is. 0 \<le> i \<and> i \<le> 51 * int n' + 50"
  shows "slots_inv pid n' (loop_array opens (opened (20 + pid)) is A)"
proof -
  let ?A = "loop_array opens (opened (20 + pid)) is A"
  have "slot_ok pid n' k (?A k)" and "pr_status (A k) \<noteq> p1_new \<longrightarrow> pr_status (?A k) \<noteq> p1_new" for k
  proof -
    consider "?A k = A k" | i where "i \<in> set is" "GET_PRO_INDEX i = k" "?A k = opened (20 + pid) i (A k)"
      using loop_array_open_cases [of "20 + pid" "is" A k] by blast
    then have "slot_ok pid n' k (?A k) \<and> (pr_status (A k) \<noteq> p1_new \<longrightarrow> pr_status (?A k) \<noteq> p1_new)"
    proof cases
      case 1
      then show ?thesis using inv slot_ok_mono [OF _ le] by (simp add: slots_inv_def)
    next
      case 2
      have "slot_ok pid n' k (opened (20 + pid) i (A k))"
        unfolding opened_def using 2 rng owned_first by (intro slot_ok_cleared [of i]) auto
      with 2 show ?thesis by (simp add: opened_def clear_promises_def)
    qed
    then show "slot_ok pid n' k (?A k)" "pr_status (A k) \<noteq> p1_new \<longrightarrow> pr_status (?A k) \<noteq> p1_new" by auto
  qed
  then show ?thesis using inv by (simp add: slots_inv_def)
qed

lemma open_bounds:
  assumes "\<forall>i\<in>set is. i \<le> hi" "\<forall>k. pr_status (A k) \<noteq> p1_new \<longrightarrow> pr_iid (A k) \<le> m" "hi \<le> m'" "m \<le> m'"
  shows "pr_status (loop_array opens (opened b) is A k) \<noteq> p1_new \<Longrightarrow>
    pr_iid (loop_array opens (opened b) is A k) \<le> m'"
  using loop_array_open_cases [of b "is" A k] assms
  by (auto simp: opened_def clear_promises_def)

lemma open_none_ready:
  "\<forall>k. pr_status (A k) \<noteq> p1_ready \<Longrightarrow> pr_status (loop_array opens (opened b) is A k) \<noteq> p1_ready"
  using loop_array_open_cases [of b "is" A k] by (auto simp: opened_def clear_promises_def)

lemma wf_batch_prepares:
  "\<forall>(i, b)\<in>set xs. in_i32 i \<and> owned pid n b \<Longrightarrow> in_bounds pid n \<Longrightarrow> wf_batch pid n (prepares xs)"
  using owned_in_i32 [of pid n] by (auto simp: wf_batch_def prepares_def wf_prepare_def)

lemma open_prepares_wf:
  assumes "lead_proposer_id st = pid" "in_bounds pid n" "small_ready st"
  shows "wf_batch pid n (open_prepares st)"
proof -
  have "in_i32 i" if "i \<in> set (window st)" for i
    using that assms(3) by (simp add: window_def small_ready_def in_i32_def)
  then show ?thesis
    using assms owned_first [of pid n] FIRST_BALLOT_value [OF assms(1,2)]
    by (auto simp: open_prepares_def to_open_def loop_hits_def intro!: wf_batch_prepares)
qed

lemma batches_ok:
  assumes "wf_batch pid n (concat ds)" "\<forall>d\<in>set ds. length d \<le> 1123"
  shows "\<forall>d\<in>set (map prep_datagram ds). leader_datagram pid n d"
proof -
  have "leader_datagram pid n (prep_datagram d)" if "d \<in> set ds" for d
  proof (rule prep_datagram_ok)
    show "wf_batch pid n d" using assms(1) that by (auto simp: wf_batch_def)
    show "12 + 8 * int (length d) \<le> 9000" using assms(2) that by fastforce
  qed
  then show ?thesis by simp
qed

lemma small_ready_inv: "p1_inv n A (p1info st) \<Longrightarrow> in_bounds pid n \<Longrightarrow> small_ready st"
  by (simp add: p1_inv_def small_ready_def in_bounds_def)

lemma small_ready_Suc: "p1_inv n A (p1info st) \<Longrightarrow> in_bounds pid (Suc n) \<Longrightarrow> small_ready st"
  by (simp add: p1_inv_def small_ready_def in_bounds_def)

text \<open>Retrying: every pending slot moves to the next ballot.\<close>

lemma retried_array:
  assumes "slots_inv pid n (proposer_array st)" "p1_inv n (proposer_array st) (p1info st)"
  shows "proposer_array (retried_state st) k =
    (if pr_status (proposer_array st k) = p1_pending then retried (pr_iid (proposer_array st k)) (proposer_array st k)
     else proposer_array st k)"
proof -
  let ?A = "proposer_array st"
  have slot: "slot_ok pid n k (?A k)" for k using assms(1) by (simp add: slots_inv_def)
  have idx: "GET_PRO_INDEX (pr_iid (?A k)) = k" if "pr_status (?A k) = p1_pending" for k
    using slot [of k] that by (simp add: slot_ok_def)
  have "0 \<le> pr_iid (?A k) \<and> pr_iid (?A k) \<le> last_to_check (p1info st)" if "pr_status (?A k) = p1_pending"
    using slot [of k] assms(2) that by (auto simp: slot_ok_def p1_inv_def)
  then show ?thesis
    using assms(2) loop_array_retry [OF idx] by (auto simp: retried_state_frame p1_inv_def)
qed

lemma retried_core:
  assumes core: "slots_inv pid n (proposer_array st)" "p1_inv n (proposer_array st) (p1info st)"
    and b: "in_bounds pid n"
  shows "slots_inv pid (Suc n) (proposer_array (retried_state st))"
    and "p1_inv n (proposer_array (retried_state st)) (p1info (retried_state st))"
    and "pr_status (proposer_array (retried_state st) k) = pr_status (proposer_array st k)"
proof -
  let ?A = "proposer_array st" and ?B = "proposer_array (retried_state st)"
  have B: "?B k = (if pr_status (?A k) = p1_pending then retried (pr_iid (?A k)) (?A k) else ?A k)" for k
    by (rule retried_array [OF core])
  have slot: "slot_ok pid n k (?A k)" for k using core(1) by (simp add: slots_inv_def)
  have "slot_ok pid (Suc n) k (?B k)" for k
  proof (cases "pr_status (?A k) = p1_pending")
    case True
    then have "slot_ok pid (Suc n) k (retried (pr_iid (?A k)) (?A k))"
      unfolding retried_def using slot [of k] b owned_next
      by (intro slot_ok_cleared [of "pr_iid (?A k)"]) (auto simp: slot_ok_def)
    with True B show ?thesis by simp
  next
    case False
    with B slot [of k] slot_ok_mono show ?thesis by simp
  qed
  moreover show status: "pr_status (?B k) = pr_status (?A k)" for k
    using B [of k] by (auto simp: retried_def clear_promises_def)
  ultimately show "slots_inv pid (Suc n) ?B" using core(1) by (simp add: slots_inv_def)
  have "pr_iid (?B k) = pr_iid (?A k)" for k using B [of k] by (auto simp: retried_def clear_promises_def)
  then show "p1_inv n ?B (p1info (retried_state st))"
    using core(2) status by (simp add: p1_inv_def retried_state_frame)
qed

lemma retry_prepares_wf:
  assumes core: "slots_inv pid n (proposer_array st)" and b: "in_bounds pid (Suc n)"
  shows "wf_batch pid (Suc n) (retry_prepares st)"
  unfolding retry_prepares_def
proof (rule wf_batch_prepares [OF _ b], safe)
  fix i c
  let ?r = "proposer_array st (GET_PRO_INDEX i)"
  assume "(i, c) \<in> set (map (\<lambda>i. (i, BALLOT_NEXT (pr_ballot (proposer_array st (GET_PRO_INDEX i))))) (to_retry st))"
  then have r: "retries i ?r" "c = BALLOT_NEXT (pr_ballot ?r)" by (auto simp: to_retry_def loop_hits_def)
  have "slot_ok pid n (GET_PRO_INDEX i) ?r" using core by (simp add: slots_inv_def)
  with r have "0 \<le> i" "i \<le> 51 * int n + 50" "owned pid n (pr_ballot ?r)"
    by (auto simp: retries_def slot_ok_def)
  with r b show "in_i32 i" "owned pid (Suc n) c"
    using owned_next by (simp_all add: in_i32_def in_bounds_def)
qed

lemma phase1_check_cb_inv:
  assumes inv: "leader_inv pid n st" and b: "in_bounds pid (Suc n)"
  shows "leader_inv pid (Suc n) (phase1_check_cb st)"
proof -
  let ?r = "retried_state st"
  from inv have core: "slots_inv pid n (proposer_array st)" "p1_inv n (proposer_array st) (p1info st)"
    and basic: "lead_quorum st = quorum_of N_OF_ACCEPTORS" "lead_proposer_id st = pid"
      "length (leader_recv_buffer st) = nat MAX_UDP_MSG_SIZE" "sent_inv pid n st" "none_ready st"
    by (simp_all add: leader_inv_def leader_core_def)
  have b': "in_bounds pid n" using b by (simp add: in_bounds_def)
  note ret = retried_core [OF core b']
  have small: "small_ready ?r" "small_ready st"
    using small_ready_inv [OF ret(2) b'] small_ready_inv [OF core(2) b'] by simp_all
  have pid: "lead_proposer_id ?r = pid" using basic by (simp add: retried_state_frame)
  note first = FIRST_BALLOT_value [OF pid b]
  have hr: "-1 \<le> highest_ready (p1info ?r)" "highest_ready (p1info ?r) + 51 \<le> 51 * int (Suc n) + 50"
    using ret(2) by (simp_all add: p1_inv_def)
  then have win: "\<forall>i\<in>set (window ?r). 0 \<le> i \<and> i \<le> 51 * int (Suc n) + 50" by (simp add: window_def)
  have none: "\<forall>k. pr_status (proposer_array ?r k) \<noteq> p1_ready" using ret(3) basic(5) by (simp add: none_ready_def)
  have slots: "slots_inv pid (Suc n) (proposer_array (checked_state st))"
    and p1: "p1_inv (Suc n) (proposer_array (checked_state st)) (p1info (checked_state st))"
    and ready: "\<forall>k. pr_status (proposer_array (checked_state st) k) \<noteq> p1_ready"
  proof -
    let ?B = "loop_array opens (opened (20 + pid)) (window ?r) (proposer_array ?r)"
    have "slots_inv pid (Suc n) ?B" using slots_inv_open [OF ret(1) le_refl win] .
    moreover have "p1_inv (Suc n) ?B (p1info (opened_state ?r))"
      using ret(2) hr open_bounds [of "window ?r" "highest_ready (p1info ?r) + 51" "proposer_array ?r"
          "last_to_check (p1info ?r)" "last_to_check (p1info (opened_state ?r))" "20 + pid"]
      by (auto simp: p1_inv_def opened_state_frame window_def)
    moreover have "\<forall>k. pr_status (?B k) \<noteq> p1_ready" using open_none_ready [OF none] by blast
    ultimately show "slots_inv pid (Suc n) (proposer_array (checked_state st))"
      "p1_inv (Suc n) (proposer_array (checked_state st)) (p1info (checked_state st))"
      "\<forall>k. pr_status (proposer_array (checked_state st) k) \<noteq> p1_ready"
      using ret p1_inv_mono [OF ret(2), of "Suc n"] none
      by (auto simp: checked_state_def execute_phase1_frame [OF small(1)] opened_state_frame first)
  qed
  have "wf_batch pid (Suc n) (check_prepares st)"
    using retry_prepares_wf [OF core(1) b] open_prepares_wf [OF pid b small(1)]
    by (auto simp: check_prepares_def wf_batch_def)
  then have "sent_inv pid (Suc n) (phase1_check_cb st)"
  proof -
    assume wf: "wf_batch pid (Suc n) (check_prepares st)"
    obtain ds where ds: "lead_sent (phase1_check_cb st) = lead_sent st @ map prep_datagram (ds @ repeated st)"
      "concat ds = check_prepares st" "\<forall>d\<in>set ds. d \<noteq> [] \<and> length d \<le> 1123" "\<forall>d\<in>set (repeated st). d \<in> set ds"
      using phase1_check_cb_sends [OF small(2)] by blast
    have "\<forall>d\<in>set (map prep_datagram ds). leader_datagram pid (Suc n) d"
      using wf ds(2,3) by (intro batches_ok) simp_all
    then have "\<forall>d\<in>set (map prep_datagram (ds @ repeated st)). leader_datagram pid (Suc n) d"
      using ds(4) by auto
    then show ?thesis
      using sent_inv_mono [OF basic(4), of "Suc n"] unfolding sent_inv_def ds(1) by auto
  qed
  then show ?thesis
    using slots p1 ready basic
    by (auto simp: leader_inv_def leader_core_def none_ready_def phase1_check_cb_frame checked_state_def
        execute_phase1_frame [OF small(1)] retried_state_frame)
qed

section \<open>Promises keep it\<close>

lemma three_acceptors: "nat N_OF_ACCEPTORS = 3"
  by (simp add: c_simps)

lemma promises_held_update:
  assumes "a < length (pr_promises r)" "pi_iid (pr_promises r ! a) = -1" "pi_iid p \<noteq> -1"
  shows "promises_held (r\<lparr>pr_promise_count := c, pr_promises := (pr_promises r)[a := p]\<rparr>) = promises_held r + 1"
proof -
  have "length (filter P (xs[a := p])) = length (filter P xs) + 1" if "a < length xs" "\<not> P (xs ! a)" "P p"
    for P :: "promise_info \<Rightarrow> bool" and xs
    using that by (simp add: upd_conv_take_nth_drop) (subst (3) id_take_nth_drop [OF that(1)], simp)
  from this [of "pr_promises r" "\<lambda>p. pi_iid p \<noteq> -1"] assms show ?thesis
    by (simp add: promises_held_def)
qed

lemma store_promise_ok:
  assumes "wf_promise m" "length (prm_value m) \<le> 8968" "prm_iid m = pr_iid r"
  shows "promise_ok r (store_promise m p)"
  using assms by (auto simp: promise_ok_def store_promise_def wf_promise_def Let_def)

lemma store_promise_iid [simp]: "pi_iid (store_promise m p) = prm_iid m"
  by (simp add: store_promise_def Let_def)

text \<open>The slot with the promise added, still pending or just made ready.\<close>

definition with_promise :: "nat \<Rightarrow> promise_msg \<Rightarrow> proposer_record \<Rightarrow> proposer_record" where
  "with_promise a m r = r\<lparr>pr_promise_count := i32 (pr_promise_count r + 1),
     pr_promises := (pr_promises r)[a := store_promise m (pr_promises r ! a)]\<rparr>"

definition counts :: "proposer_record \<Rightarrow> int \<Rightarrow> promise_msg \<Rightarrow> bool" where
  "counts r aid m \<longleftrightarrow> pr_iid r = prm_iid m \<and> pr_status r = p1_pending \<and> pr_ballot r = prm_ballot m
     \<and> pi_iid (pr_promises r ! nat aid) = -1"

text \<open>\<^verbatim>\<open>handle_promise\<close> on every branch, for an acceptor that exists.\<close>

lemma handle_promise_cases:
  fixes m :: promise_msg
  assumes "0 \<le> aid" "aid < int (length (pr_promises (proposer_array st k)))"
  defines "r \<equiv> proposer_array st k"
  defines "r1 \<equiv> with_promise (nat aid) m r"
  shows "handle_promise m aid k st =
    (if \<not> counts r aid m then Some (0, st)
     else if i32 (pr_promise_count r + 1) < lead_quorum st then Some (0, set_record k r1 st)
     else Some (1, promote_ready r1 (set_record k (r1\<lparr>pr_status := p1_ready\<rparr>) st)))"
  using assms by (auto simp: handle_promise_def counts_def with_promise_def Let_def)

lemma slot_ok_with_promise:
  assumes slot: "slot_ok pid n k r" and c: "counts r aid m" and aid: "aid \<in> acceptor_ids"
    and m: "wf_promise m" "length (prm_value m) \<le> 8968"
  shows "if i32 (pr_promise_count r + 1) < quorum_of N_OF_ACCEPTORS then slot_ok pid n k (with_promise (nat aid) m r)
    else slot_ok pid n k ((with_promise (nat aid) m r)\<lparr>pr_status := p1_ready\<rparr>)"
proof -
  let ?r1 = "with_promise (nat aid) m r"
  have r: "pr_status r = p1_pending" "pr_iid r = prm_iid m" "pi_iid (pr_promises r ! nat aid) = -1"
    using c by (simp_all add: counts_def)
  then have s: "length (pr_promises r) = 3" "GET_PRO_INDEX (pr_iid r) = k" "0 \<le> pr_iid r"
    "pr_iid r \<le> 51 * int n + 50" "owned pid n (pr_ballot r)" "\<forall>p\<in>set (pr_promises r). promise_ok r p"
    "pr_promise_count r = promises_held r" "promises_held r < quorum_of N_OF_ACCEPTORS"
    using slot by (simp_all add: slot_ok_def three_acceptors)
  have i: "i32 (promises_held r + 1) = promises_held r + 1" using s(8) by (intro i32_id) (simp_all add: promises_held_def three_acceptors)
  have a: "nat aid < length (pr_promises r)" using aid s(1) by (simp add: acceptor_ids_def c_simps nat_less_iff)
  have held: "promises_held ?r1 = promises_held r + 1"
    unfolding with_promise_def using a r s(3) by (intro promises_held_update) simp_all
  then have held': "promises_held (?r1\<lparr>pr_status := p1_ready\<rparr>) = promises_held r + 1"
    by (simp add: promises_held_def)
  have "promise_ok r (store_promise m (pr_promises r ! nat aid))"
    using m r by (intro store_promise_ok) simp_all
  then have "\<forall>p\<in>set (pr_promises ?r1). promise_ok r p"
    using s(6) set_update_subset_insert [of "pr_promises r" "nat aid"] by (auto simp: with_promise_def)
  then have "\<forall>p\<in>set (pr_promises ?r1). promise_ok ?r1 p \<and> promise_ok (?r1\<lparr>pr_status := p1_ready\<rparr>) p"
    by (simp add: promise_ok_def with_promise_def)
  moreover have "pr_iid ?r1 = pr_iid r" "pr_ballot ?r1 = pr_ballot r" "pr_status ?r1 = pr_status r"
    "length (pr_promises ?r1) = 3" "pr_promise_count ?r1 = promises_held r + 1"
    using s i by (simp_all add: with_promise_def)
  ultimately show ?thesis
    using s r(1) held held' i by (simp add: slot_ok_def three_acceptors)
qed

lemma slots_inv_update:
  "slots_inv pid n A \<Longrightarrow> slot_ok pid n k r \<Longrightarrow> pr_status r \<noteq> p1_new \<Longrightarrow> slots_inv pid n (A(k := r))"
  by (auto simp: slots_inv_def)

lemma p1_inv_update:
  "p1_inv n A p \<Longrightarrow> pr_iid r = pr_iid (A k) \<Longrightarrow> pr_status (A k) \<noteq> p1_new \<Longrightarrow> p1_inv n (A(k := r)) p"
  by (auto simp: p1_inv_def)

lemma promote_info:
  "highest_ready (p1info (promote_ready r st)) = max (highest_ready (p1info st)) (pr_iid r)"
  "first_to_check (p1info (promote_ready r st)) = min (first_to_check (p1info st)) (pr_iid r)"
  "last_to_check (p1info (promote_ready r st)) = max (last_to_check (p1info st)) (pr_iid r)"
  by (simp_all add: promote_ready_def widen_check_def Let_def max_def min_def)

lemma p1_inv_promote:
  "p1_inv n A (p1info st) \<Longrightarrow> 0 \<le> pr_iid r \<Longrightarrow> pr_iid r \<le> 51 * int n + 50 \<Longrightarrow> p1_inv n A (p1info (promote_ready r st))"
  by (auto simp: p1_inv_def promote_info)

lemma handle_promise_core:
  assumes core: "leader_core pid n st" and aid: "aid \<in> acceptor_ids"
    and m: "wf_promise m" "length (prm_value m) \<le> 8968"
  shows "\<exists>ret st'. handle_promise m aid (GET_PRO_INDEX (prm_iid m)) st = Some (ret, st') \<and> leader_core pid n st'
    \<and> (\<forall>k. k \<noteq> GET_PRO_INDEX (prm_iid m) \<longrightarrow> proposer_array st' k = proposer_array st k)"
proof -
  let ?k = "GET_PRO_INDEX (prm_iid m)"
  let ?r = "proposer_array st ?k"
  let ?r1 = "with_promise (nat aid) m ?r"
  have slot: "slot_ok pid n ?k ?r" and q: "lead_quorum st = quorum_of N_OF_ACCEPTORS"
    using core by (simp_all add: leader_core_def slots_inv_def)
  have len: "length (pr_promises ?r) = 3" using slot by (simp add: slot_ok_def three_acceptors)
  then have a: "0 \<le> aid" "aid < int (length (pr_promises ?r))"
    using aid by (simp_all add: acceptor_ids_def c_simps)
  note cases = handle_promise_cases [OF a, of m]
  show ?thesis
  proof (cases "counts ?r aid m")
    case False
    with cases core show ?thesis by simp
  next
    case True
    then have st: "pr_status ?r = p1_pending" "pr_iid ?r = prm_iid m" by (simp_all add: counts_def)
    have iid: "pr_iid ?r1 = prm_iid m" "0 \<le> prm_iid m" "prm_iid m \<le> 51 * int n + 50"
      using st slot by (simp_all add: slot_ok_def with_promise_def)
    note ok = slot_ok_with_promise [OF slot True aid m]
    show ?thesis
    proof (cases "i32 (pr_promise_count ?r + 1) < quorum_of N_OF_ACCEPTORS")
      case True
      then have "leader_core pid n (set_record ?k ?r1 st)"
        using core ok iid st slots_inv_update [of pid n "proposer_array st" ?k ?r1]
          p1_inv_update [of n "proposer_array st" "p1info st" ?r1 ?k]
        by (simp add: leader_core_def set_record_def sent_inv_def with_promise_def)
      with True \<open>counts ?r aid m\<close> cases q show ?thesis by (simp add: set_record_def)
    next
      case False
      let ?r2 = "?r1\<lparr>pr_status := p1_ready\<rparr>"
      let ?st = "promote_ready ?r1 (set_record ?k ?r2 st)"
      have "slots_inv pid n ((proposer_array st)(?k := ?r2))"
        using core ok False by (intro slots_inv_update) (simp_all add: leader_core_def)
      moreover have "p1_inv n ((proposer_array st)(?k := ?r2)) (p1info st)"
        using core iid st by (intro p1_inv_update) (simp_all add: leader_core_def)
      then have "p1_inv n ((proposer_array st)(?k := ?r2)) (p1info ?st)"
        using iid by (intro p1_inv_promote) (simp_all add: set_record_def)
      ultimately have "leader_core pid n ?st"
        using core by (simp add: leader_core_def promote_ready_def widen_check_def set_record_def sent_inv_def Let_def)
      with False \<open>counts ?r aid m\<close> cases q show ?thesis
        by (simp add: set_record_def promote_ready_def widen_check_def Let_def)
    qed
  qed
qed

lemma promises_core:
  assumes "leader_core pid n st" and "aid \<in> acceptor_ids"
    and "\<forall>m\<in>set ps. wf_promise m \<and> length (prm_value m) \<le> 8968"
  shows "\<exists>st'. ofold (\<lambda>m st. map_option snd (handle_promise m aid (GET_PRO_INDEX (prm_iid m)) st)) ps st = Some st'
    \<and> leader_core pid n st'
    \<and> (\<forall>k. k \<notin> GET_PRO_INDEX ` prm_iid ` set ps \<longrightarrow> proposer_array st' k = proposer_array st k)"
  using assms
proof (induction ps arbitrary: st)
  case Nil
  then show ?case by simp
next
  case (Cons m ps)
  obtain ret st1 where one: "handle_promise m aid (GET_PRO_INDEX (prm_iid m)) st = Some (ret, st1)"
    "leader_core pid n st1" "\<forall>k. k \<noteq> GET_PRO_INDEX (prm_iid m) \<longrightarrow> proposer_array st1 k = proposer_array st k"
    using handle_promise_core [OF Cons.prems(1,2), of m] Cons.prems(3) by auto
  from Cons.IH [OF one(2) Cons.prems(2)] Cons.prems(3) one show ?case by auto
qed

section \<open>Phase 2 keeps it\<close>

lemma VALUE_OWNER_range: "in_i32 (VALUE_OWNER b)"
proof -
  have "0 \<le> \<bar>b\<bar> mod 10" "\<bar>b\<bar> mod 10 < 10" by simp_all
  moreover have "VALUE_OWNER b = \<bar>b\<bar> mod 10 \<or> VALUE_OWNER b = - (\<bar>b\<bar> mod 10) \<or> VALUE_OWNER b = 0"
    by (cases "b < 0"; cases "b = 0") (simp_all add: VALUE_OWNER_def c_simps)
  ultimately show ?thesis unfolding in_i32_def by linarith
qed

lemma accept_datagram_ok:
  assumes slot: "slot_ok pid n k r" and b: "in_bounds pid n" and st: "pr_status r \<noteq> p1_new"
    and v: "phase2_value r = Some pi"
  shows "leader_datagram pid n (accept_datagram r pi)"
proof -
  have r: "0 \<le> pr_iid r" "pr_iid r \<le> 51 * int n + 50" "owned pid n (pr_ballot r)"
    "\<forall>p\<in>set (pr_promises r). promise_ok r p"
    using slot st by (simp_all add: slot_ok_def)
  have "pi \<in> set (pr_promises r)" "reports pi" using phase2_value_Some [OF v] by simp_all
  then obtain bs where bs: "pi_value pi = Some bs" "pi_value_size pi = int (length bs)" "length bs \<le> 8968"
    using r(4) by (fastforce simp: promise_ok_def reports_def)
  have "in_i32 (pr_iid r)" using r b by (simp add: in_i32_def in_bounds_def)
  then have "wf_accept (accept_of r pi)"
    using bs owned_in_i32 [OF r(3) b] VALUE_OWNER_range by (simp add: wf_accept_def accept_of_def in_i32_def)
  then have "datagram_ok (accept_datagram r pi)"
    unfolding accept_datagram_def using bs by (intro datagram_okI) (simp_all add: size_Accept accept_of_def c_simps)
  then show ?thesis using r(3) by (simp add: leader_datagram_def accept_datagram_def accept_of_def)
qed

lemma any_datagram_ok:
  assumes "owned pid n b" "in_bounds pid n" "\<forall>i\<in>set is. in_i32 i" "length is \<le> 2246"
  shows "leader_datagram pid n (any_datagram b is)"
  using assms owned_in_i32 [OF assms(1,2)] unfolding leader_datagram_def any_datagram_def
  by (auto intro!: datagram_okI simp: size_Anyval list_all_iff c_simps)

definition phase2_inv :: "int \<Rightarrow> nat \<Rightarrow> leader \<Rightarrow> bool" where
  "phase2_inv pid n st \<longleftrightarrow> any_buffer_ok st \<and> slots_inv pid n (proposer_array st) \<and> sent_inv pid n st
     \<and> (\<forall>i\<in>set (any_ids st). in_i32 i)
     \<and> (any_ballot st = -1 \<and> any_ids st = [] \<or> owned pid n (any_ballot st))"

lemma slot_ok_finish: "slot_ok pid n k r \<Longrightarrow> slot_ok pid n k (finish r)"
  by (auto simp: finish_def slot_ok_def promises_held_def promise_ok_def)

lemma slots_inv_finish: "slots_inv pid n A \<Longrightarrow> slots_inv pid n (A(k := finish (A k)))"
  by (auto simp: slots_inv_def slot_ok_finish) (simp add: finish_def split: if_splits)

lemma phase2_one_inv:
  assumes inv: "phase2_inv pid n st" and b: "in_bounds pid n" and i: "in_i32 i"
  shows "phase2_inv pid n (phase2_one i st)"
proof -
  let ?k = "GET_PRO_INDEX i"
  let ?r = "proposer_array st ?k"
  have slot: "slot_ok pid n ?k ?r" using inv by (simp add: phase2_inv_def slots_inv_def)
  have slots: "slots_inv pid n (proposer_array (phase2_one i st))"
    using inv slots_inv_finish by (simp add: phase2_inv_def phase2_one_array)
  show ?thesis
  proof (cases "pr_status ?r = p1_ready")
    case False
    with inv show ?thesis by (simp add: phase2_one_def Let_def)
  next
    case True
    have owned: "owned pid n (pr_ballot ?r)" using slot True by (simp add: slot_ok_def)
    show ?thesis
    proof (cases "phase2_value ?r")
      case (Some pi)
      then have "leader_datagram pid n (accept_datagram ?r pi)"
        using True by (intro accept_datagram_ok [OF slot b]) simp_all
      with inv slots True Some show ?thesis
        by (simp add: phase2_inv_def phase2_one_def set_record_def send_accept_def sent_inv_def any_buffer_ok_def
            accept_datagram_def Let_def)
    next
      case None
      let ?s = "if pr_ballot ?r > any_ballot st then st\<lparr>any_ballot := pr_ballot ?r\<rparr> else st"
      have s: "any_buffer_ok ?s" "any_ids ?s = any_ids st" "lead_sent ?s = lead_sent st"
        "owned pid n (any_ballot ?s)"
        using inv owned owned_range [OF owned b] by (auto simp: phase2_inv_def any_buffer_ok_def)
      have run: "phase2_one i st = set_record ?k (?r\<lparr>pr_status := p1_finished\<rparr>) (append_anymsg_to_buffer i ?s)"
        using True None by (simp add: phase2_one_def Let_def)
      have ids: "\<forall>j\<in>set (any_ids st @ [i]). in_i32 j" using inv i by (simp add: phase2_inv_def)
      show ?thesis
      proof (cases "length (any_ids ?s) < 2245")
        case room: True
        have "phase2_one i st = set_record ?k (?r\<lparr>pr_status := p1_finished\<rparr>)
            (?s\<lparr>msg_data_size := msg_data_size ?s + 4, any_ids := any_ids ?s @ [i]\<rparr>)"
          unfolding run append_any_room [OF s(1) room] ..
        with inv slots s room ids show ?thesis
          by (auto simp: phase2_inv_def set_record_def sent_inv_def any_buffer_ok_def split del: if_split)
      next
        case full: False
        have len: "length (any_ids st @ [i]) \<le> 2246" using inv by (simp add: phase2_inv_def any_buffer_ok_def)
        have "phase2_one i st = set_record ?k (?r\<lparr>pr_status := p1_finished\<rparr>)
            (?s\<lparr>msg_data_size := 8, any_ballot := -1, any_ids := [],
                lead_sent := lead_sent ?s @ [any_datagram (any_ballot ?s) (any_ids ?s @ [i])]\<rparr>)"
          unfolding run append_any_flush [OF s(1) full] ..
        moreover have "leader_datagram pid n (any_datagram (any_ballot ?s) (any_ids ?s @ [i]))"
          unfolding s(2) by (rule any_datagram_ok [OF s(4) b ids len])
        ultimately show ?thesis using inv slots s
          by (auto simp: phase2_inv_def set_record_def sent_inv_def any_buffer_ok_def split del: if_split)
      qed
    qed
  qed
qed

lemma execute_phase2_core:
  assumes core: "leader_core pid n st" and b: "in_bounds pid n" and rng: "in_i32 f" "in_i32 l"
  shows "leader_core pid n (execute_phase2 f l st)"
proof -
  let ?s = "fold phase2_one [f..l] (init_anyval st)"
  have "phase2_inv pid n (init_anyval st)"
    using core by (auto simp: phase2_inv_def leader_core_def init_anyval_def any_buffer_ok_def sent_inv_def c_simps)
  then have s: "phase2_inv pid n ?s"
    using rng b phase2_one_inv
    by (intro fold_invariant_set [where P = "phase2_inv pid n"]) (auto simp: in_i32_def)
  have arr: "proposer_array (execute_phase2 f l st) = proposer_array ?s"
    by (simp add: execute_phase2_def frame Let_def)
  have "sent_inv pid n (execute_phase2 f l st)"
  proof (cases "any_ids ?s = []")
    case True
    with s show ?thesis by (simp add: execute_phase2_def phase2_inv_def Let_def)
  next
    case False
    then have "owned pid n (any_ballot ?s)" "\<forall>i\<in>set (any_ids ?s). in_i32 i" "length (any_ids ?s) \<le> 2246"
      using s by (auto simp: phase2_inv_def any_buffer_ok_def)
    with b have "leader_datagram pid n (any_datagram (any_ballot ?s) (any_ids ?s))" by (intro any_datagram_ok)
    moreover have "leader_flush_send_buffer ?s
        = ?s\<lparr>lead_sent := lead_sent ?s @ [any_datagram (any_ballot ?s) (any_ids ?s)]\<rparr>"
      using s by (intro flush_any) (simp add: phase2_inv_def)
    ultimately show ?thesis using False s by (auto simp: execute_phase2_def phase2_inv_def sent_inv_def Let_def)
  qed
  moreover have "p1_inv n (proposer_array (execute_phase2 f l st)) (p1info st)"
    using core by (auto simp: leader_core_def p1_inv_def execute_phase2_array finish_def)
  ultimately show ?thesis using core s unfolding leader_core_def by (simp add: frame arr phase2_inv_def)
qed

lemma leader_handle_promise_msg_inv:
  assumes inv: "leader_inv pid n st" and b: "in_bounds pid n" and ok: "batch_ok aid ps"
  shows "\<exists>st'. leader_handle_promise_msg aid ps st = Some st' \<and> leader_inv pid n st'"
proof -
  let ?f = "if ps = [] then -1 else prm_iid (hd ps)" and ?l = "if ps = [] then -1 else prm_iid (last ps)"
  obtain s where s: "ofold (\<lambda>m st. map_option snd (handle_promise m aid (GET_PRO_INDEX (prm_iid m)) st)) ps st = Some s"
    "leader_core pid n s" "\<forall>k. k \<notin> GET_PRO_INDEX ` prm_iid ` set ps \<longrightarrow> proposer_array s k = proposer_array st k"
    using promises_core [of pid n st aid ps] inv ok by (auto simp: leader_inv_def batch_ok_def)
  have "in_i32 ?f" "in_i32 ?l"
    using ok by (cases "ps = []"; fastforce simp: batch_ok_def wf_promise_def in_i32_def)+
  then have core: "leader_core pid n (execute_phase2 ?f ?l s)" using s(2) b by (intro execute_phase2_core)
  have "pr_status (proposer_array (execute_phase2 ?f ?l s) k) \<noteq> p1_ready" for k
  proof (cases "k \<in> GET_PRO_INDEX ` prm_iid ` set ps")
    case True
    then have "k \<in> GET_PRO_INDEX ` {?f..?l}" using ok by (auto simp: batch_ok_def)
    then show ?thesis by (simp add: execute_phase2_array finish_def)
  next
    case False
    with s(3) inv have "pr_status (proposer_array s k) \<noteq> p1_ready"
      by (simp add: leader_inv_def none_ready_def)
    then show ?thesis by (auto simp: execute_phase2_array finish_def)
  qed
  with core s(1) show ?thesis
    by (auto simp: leader_handle_promise_msg_def leader_inv_def none_ready_def Let_def)
qed

section \<open>The phase 2 check and the start\<close>

text \<open>A check after progress only sets the timer; without progress the instance is restarted.\<close>

lemma phase2_restart_inv:
  assumes inv: "leader_inv pid n st" and b: "in_bounds pid (Suc n)"
    and iid: "pr_iid (proposer_array st k) = i" "GET_PRO_INDEX i = k"
  defines "r \<equiv> proposer_array st k"
  shows "proposer_array (phase2_restart k (init_prepare_batch st)) =
      (proposer_array st)(k := clear_promises (r\<lparr>pr_ballot := BALLOT_NEXT (pr_ballot r), pr_status := p1_pending\<rparr>))"
    and "lead_sent (phase2_restart k (init_prepare_batch st)) =
      lead_sent st @ [prep_datagram [\<lparr>pm_iid = i, pm_ballot = BALLOT_NEXT (pr_ballot r)\<rparr>]]"
    and "leader_inv pid (Suc n) (phase2_restart k (init_prepare_batch st))"
proof -
  let ?r' = "clear_promises (r\<lparr>pr_ballot := BALLOT_NEXT (pr_ballot r), pr_status := p1_pending\<rparr>)"
  let ?st = "phase2_restart k (init_prepare_batch st)"
  have slot: "slot_ok pid n k r" and b': "in_bounds pid n"
    using inv b by (simp_all add: leader_inv_def leader_core_def slots_inv_def r_def in_bounds_def)
  have "pr_status r \<noteq> p1_new"
  proof
    assume new: "pr_status r = p1_new"
    then have "k = 0" using slot iid by (auto simp: slot_ok_def r_def GET_PRO_INDEX_mod)
    with new inv show False by (simp add: leader_inv_def leader_core_def slots_inv_def r_def)
  qed
  moreover have "pr_status r \<noteq> p1_ready" using inv by (simp add: leader_inv_def none_ready_def r_def)
  ultimately have st: "pr_status r = p1_pending \<or> pr_status r = p1_finished" by (cases "pr_status r") simp_all
  then have iids: "0 \<le> pr_iid r" "pr_iid r \<le> 51 * int n + 50" "owned pid n (pr_ballot r)" "pr_iid r = i"
    using slot iid by (auto simp: slot_ok_def r_def)
  have own: "owned pid (Suc n) (BALLOT_NEXT (pr_ballot r))" using owned_next [OF iids(3) b'] .
  define st1 where "st1 = set_record k ?r' (if pr_status r = p1_finished
      then add_pending 1 (add_ready (-1) (init_prepare_batch st)) else init_prepare_batch st)"
  have run: "?st = leader_flush_send_buffer (add_prepare_to_buffer i (BALLOT_NEXT (pr_ballot r)) st1)"
  proof -
    have fin: "(if pr_status r = p1_finished then p1_pending else pr_status r) = p1_pending" using st by auto
    have arr: "proposer_array (init_prepare_batch st) = proposer_array st" by (simp add: init_prepare_batch_def)
    have fields: "pr_iid ?r' = i" "pr_ballot ?r' = BALLOT_NEXT (pr_ballot r)"
      using iids(4) by (simp_all add: clear_promises_def)
    show ?thesis
      unfolding phase2_restart_def arr Let_def r_def [symmetric] fin fields st1_def ..
  qed
  have st1: "prep_buffer_ok st1" "prep_batch st1 = []" "lead_sent st1 = lead_sent st"
    "proposer_array st1 = (proposer_array st)(k := ?r')"
    by (auto simp: st1_def set_record_def add_pending_def add_ready_def prep_buffer_ok_def init_prepare_batch_def
        c_simps)
  note buf = add_prepare_buffer [OF st1(1), of i "BALLOT_NEXT (pr_ballot r)"]
  show arr: "proposer_array ?st = (proposer_array st)(k := ?r')"
    unfolding run by (simp add: frame st1)
  show sent: "lead_sent ?st = lead_sent st @ [prep_datagram [\<lparr>pm_iid = i, pm_ballot = BALLOT_NEXT (pr_ballot r)\<rparr>]]"
    unfolding run flush_prepare [OF buf(1)] using buf(2,3) st1 by simp
  have "wf_batch pid (Suc n) [\<lparr>pm_iid = i, pm_ballot = BALLOT_NEXT (pr_ballot r)\<rparr>]"
    using own owned_in_i32 [OF own b] iids b' by (simp add: wf_batch_def wf_prepare_def in_i32_def in_bounds_def)
  then have "sent_inv pid (Suc n) ?st"
    using prep_datagram_ok sent_inv_mono [of pid n st "Suc n"] inv
    unfolding sent_inv_def sent by (auto simp: leader_inv_def leader_core_def sent_inv_def)
  moreover have "slot_ok pid (Suc n) k ?r'"
    using iids own iid by (intro slot_ok_cleared [of i]) (auto simp: r_def)
  then have "slots_inv pid (Suc n) ((proposer_array st)(k := ?r'))"
    using inv slots_inv_mono [of pid n _ "Suc n"]
    by (intro slots_inv_update) (simp_all add: leader_inv_def leader_core_def clear_promises_def)
  moreover have "highest_ready (p1info ?st) = highest_ready (p1info st)"
    "first_to_check (p1info ?st) = first_to_check (p1info st)"
    "last_to_check (p1info ?st) = last_to_check (p1info st)"
    unfolding run by (simp_all add: frame st1_def set_record_def add_pending_def add_ready_def init_prepare_batch_def)
  then have "p1_inv (Suc n) ((proposer_array st)(k := ?r')) (p1info ?st)"
    using inv \<open>pr_status r \<noteq> p1_new\<close>
    by (auto simp: leader_inv_def leader_core_def p1_inv_def r_def clear_promises_def)
  moreover have "none_ready ?st"
    using inv by (simp add: leader_inv_def none_ready_def arr clear_promises_def)
  moreover have "lead_quorum ?st = lead_quorum st" "lead_proposer_id ?st = lead_proposer_id st"
    "leader_recv_buffer ?st = leader_recv_buffer st"
    unfolding run by (simp_all add: frame st1_def set_record_def add_pending_def add_ready_def init_prepare_batch_def)
  ultimately show "leader_inv pid (Suc n) ?st"
    using inv unfolding leader_inv_def leader_core_def arr by simp
qed

lemma leader_inv_cong:
  "leader_inv pid n st \<Longrightarrow> lead_quorum st' = lead_quorum st \<Longrightarrow> lead_proposer_id st' = lead_proposer_id st \<Longrightarrow>
   leader_recv_buffer st' = leader_recv_buffer st \<Longrightarrow> proposer_array st' = proposer_array st \<Longrightarrow>
   highest_ready (p1info st') = highest_ready (p1info st) \<Longrightarrow>
   first_to_check (p1info st') = first_to_check (p1info st) \<Longrightarrow>
   last_to_check (p1info st') = last_to_check (p1info st) \<Longrightarrow> lead_sent st' = lead_sent st \<Longrightarrow> leader_inv pid n st'"
  by (simp add: leader_inv_def leader_core_def none_ready_def sent_inv_def p1_inv_def)

lemma leader_inv_mono: "leader_inv pid n st \<Longrightarrow> n \<le> n' \<Longrightarrow> leader_inv pid n' st"
  using leader_core_mono [of pid n st n'] by (simp add: leader_inv_def)

lemma phase2_check_cb_inv:
  assumes inv: "leader_inv pid n st" and b: "in_bounds pid (Suc n)" and run: "phase2_check_cb st = Some st'"
  shows "leader_inv pid (Suc n) st'"
proof -
  let ?st = "st\<lparr>phase2_armed := False\<rparr>"
  have inv': "leader_inv pid n ?st" by (rule leader_inv_cong [OF inv]) simp_all
  show ?thesis
  proof (cases "lead_current_iid st = p2_current_iid st")
    case False
    then have "st' = set_phase2_check_timeout ?st" using run by (simp add: phase2_check_cb_def Let_def)
    then show ?thesis
      by (intro leader_inv_cong [OF leader_inv_mono [OF inv, of "Suc n"]])
        (simp_all add: set_phase2_check_timeout_def)
  next
    case True
    let ?k = "GET_PRO_INDEX (lead_current_iid st)"
    have iid: "pr_iid (proposer_array ?st ?k) = lead_current_iid st"
      and st': "st' = set_phase2_check_timeout (phase2_restart ?k (init_prepare_batch ?st))"
      using run True by (auto simp: phase2_check_cb_def init_prepare_batch_def Let_def split: if_splits)
    have "leader_inv pid (Suc n) (phase2_restart ?k (init_prepare_batch ?st))"
      using phase2_restart_inv(3) [OF inv' b iid] by simp
    then show ?thesis unfolding st'
      by (rule leader_inv_cong) (simp_all add: set_phase2_check_timeout_def)
  qed
qed

lemma leader_init_inv:
  assumes b: "in_bounds pid 0"
  shows "leader_inv pid 0 (snd (leader_init pid leader_static))"
proof -
  let ?s = "leader_init_state pid leader_static"
  have s: "prep_buffer_ok ?s" "lead_sent ?s = []" "prep_batch ?s = []" "lead_proposer_id ?s = pid"
    "lead_quorum ?s = quorum_of N_OF_ACCEPTORS" "length (leader_recv_buffer ?s) = nat MAX_UDP_MSG_SIZE"
    "proposer_array ?s = (\<lambda>_. static_proposer_record)"
    "p1info ?s = \<lparr>pending_count = 0, ready_count = 0, highest_ready = -1, first_to_check = 0, last_to_check = 0\<rparr>"
    by (simp_all add: leader_init_state_def init_prepare_batch_def set_phase2_check_timeout_def leader_static_def
        prep_buffer_ok_def c_simps)
  have small: "small_ready ?s" by (simp add: small_ready_def s)
  note first = FIRST_BALLOT_value [OF s(4) b]
  have win: "window ?s = [0..50]" by (simp add: window_def s)
  let ?B = "loop_array opens (opened (20 + pid)) [0..50] (\<lambda>_. static_proposer_record)"
  have B: "proposer_array (execute_phase1 ?s) = ?B"
    by (simp add: execute_phase1_frame [OF small] opened_state_frame first win s)
  have new: "slot_ok pid 0 k static_proposer_record" for k
    by (simp add: slot_ok_def static_proposer_record_def)
  have slot: "slot_ok pid 0 k (?B k) \<and> pr_status (?B k) \<noteq> p1_ready \<and> pr_iid (?B k) \<le> 50" for k
    using loop_array_open_cases [of "20 + pid" "[0..50]" "\<lambda>_. static_proposer_record" k]
  proof (elim disjE bexE conjE)
    fix i assume i: "i \<in> set [0..50]" "GET_PRO_INDEX i = k" and eq: "?B k = opened (20 + pid) i static_proposer_record"
    then have "slot_ok pid 0 k (?B k)"
      unfolding eq opened_def using owned_first by (intro slot_ok_cleared [of i]) auto
    with i eq show ?thesis by (simp add: opened_def clear_promises_def)
  qed (use new in \<open>simp add: static_proposer_record_def\<close>)
  have "find (\<lambda>i. GET_PRO_INDEX i = 0 \<and> opens i static_proposer_record) [0..50] = Some 0"
  proof (rule find_unique)
    show "\<forall>i\<in>set [0..50]. GET_PRO_INDEX i = 0 \<and> opens i static_proposer_record \<longrightarrow> i = 0"
      by (auto simp: GET_PRO_INDEX_mod)
  qed (simp_all add: GET_PRO_INDEX_mod opens_def static_proposer_record_def)
  then have zero: "pr_status (?B 0) \<noteq> p1_new"
    by (simp add: loop_array_def opened_def clear_promises_def)
  obtain ds where ds: "lead_sent (execute_phase1 ?s) = map prep_datagram ds" "concat ds = open_prepares ?s"
    "\<forall>d\<in>set ds. d \<noteq> [] \<and> length d \<le> 1123"
    using execute_phase1_sends [OF small s(1)] s by auto
  have "sent_inv pid 0 (execute_phase1 ?s)"
    unfolding sent_inv_def ds(1)
    using ds(2,3) open_prepares_wf [OF s(4) b small] by (intro batches_ok) simp_all
  then have "leader_inv pid 0 (execute_phase1 ?s)"
    using slot zero s unfolding leader_inv_def leader_core_def slots_inv_def p1_inv_def none_ready_def
    by (simp add: execute_phase1_frame [OF small] B [symmetric] opened_state_frame)
  then show ?thesis
    unfolding leader_init_def by (elim leader_inv_cong) (simp_all add: set_phase1_check_timeout_def)
qed

lemma leader_step_inv:
  assumes inv: "leader_inv pid n st" and b: "in_bounds pid (Suc n)" and e: "event_ok e"
    and run: "leader_step e st = Some st'"
  shows "leader_inv pid (Suc n) st'"
proof (cases e)
  case (Value_Delivered i)
  with run have "st' = leader_deliver_value i st" by simp
  then show ?thesis
    by (intro leader_inv_cong [OF leader_inv_mono [OF inv, of "Suc n"]]) (simp_all add: leader_deliver_value_def)
next
  case Phase1_Tick
  with run phase1_check_cb_inv [OF inv b] show ?thesis by simp
next
  case Phase2_Tick
  with run phase2_check_cb_inv [OF inv b] show ?thesis by simp
next
  case (Promises aid ps)
  have "in_bounds pid n" using b by (simp add: in_bounds_def)
  with Promises run e leader_handle_promise_msg_inv [OF inv, of aid ps]
  show ?thesis using leader_inv_mono [of pid n st' "Suc n"] by auto
qed

lemma leader_reach_inv:
  assumes "leader_reach pid n st" and "in_bounds pid n"
  shows "leader_inv pid n st"
  using assms
proof (induction rule: leader_reach.induct)
  case init
  then show ?case by (rule leader_init_inv)
next
  case (step n st e st')
  then have "in_bounds pid n" by (simp add: in_bounds_def)
  with step show ?case using leader_step_inv [of pid n st e st'] by blast
qed

end
