(* ===== verification/Leader_Properties.thy ===== *)
theory Leader_Properties
  imports Leader_Run
begin

text \<open>
  The properties of the leader: its run invariant, its ballots, the pre-execution of phase 1, the
  counting of promises, the choice of a value and the messages of phase 2, the recovery of an
  instance without progress, the packets it reads, and the places where it departs from what the
  protocol needs.
\<close>

section \<open>Runs\<close>

text \<open>C9. In every state the leader can reach, each slot that was opened belongs to its instance and
  carries a ballot of this leader, a pending slot has fewer promises than a quorum and a finished
  one has a quorum of them, no slot is left ready, and every datagram sent goes to the acceptors,
  is well formed and sized, and carries a ballot of this leader.\<close>

theorem leader_run_invariant:
  assumes "leader_reach pid n st" and "in_bounds pid n"
  shows "(\<forall>k. let r = proposer_array st k in pr_status r \<noteq> p1_ready
        \<and> (pr_status r \<noteq> p1_new \<longrightarrow> GET_PRO_INDEX (pr_iid r) = k \<and> owned pid n (pr_ballot r)
             \<and> pr_promise_count r = promises_held r)
        \<and> (pr_status r = p1_pending \<longrightarrow> promises_held r < lead_quorum st)
        \<and> (pr_status r = p1_finished \<longrightarrow> promises_held r = lead_quorum st))
    \<and> (\<forall>d\<in>set (lead_sent st). leader_datagram pid n d)"
proof -
  have inv: "leader_inv pid n st" using leader_reach_inv [OF assms] .
  then have "slot_ok pid n k (proposer_array st k)" "pr_status (proposer_array st k) \<noteq> p1_ready" for k
    by (simp_all add: leader_inv_def leader_core_def slots_inv_def none_ready_def)
  moreover have "lead_quorum st = quorum_of N_OF_ACCEPTORS" "\<forall>d\<in>set (lead_sent st). leader_datagram pid n d"
    using inv by (simp_all add: leader_inv_def leader_core_def sent_inv_def)
  ultimately show ?thesis unfolding slot_ok_def Let_def by (metis status_flag.distinct(1,3,5,7,9,11))
qed

lemma in_bounds_1: "in_bounds 1 0" "in_bounds 1 1"
  by (simp_all add: in_bounds_def c_simps)

theorem leader_run_invariant_witness:
  "pr_status (proposer_array (phase1_check_cb (snd (leader_init 1 leader_static))) 3) \<noteq> p1_ready"
proof -
  have "leader_reach 1 (Suc 0) (phase1_check_cb (snd (leader_init 1 leader_static)))"
    by (rule leader_reach.step [OF leader_reach.init, of Phase1_Tick]) simp_all
  from leader_run_invariant [OF this] in_bounds_1 show ?thesis by (simp add: Let_def)
qed

text \<open>C25. Two leaders with different ids never send the same ballot, in a prepare, an accept or an
  any message, and every ballot a leader sends is above the fixed ballot of every proposer.\<close>

theorem leader_ballots_disjoint:
  assumes "leader_reach pid n st" "in_bounds pid n" and "leader_reach pid' n' st'" "in_bounds pid' n'"
    and "pid \<noteq> pid'"
    and "d \<in> set (lead_sent st)" "b \<in> packet_ballots (snd (snd d))"
    and "d' \<in> set (lead_sent st')" "b' \<in> packet_ballots (snd (snd d'))"
  shows "b \<noteq> b' \<and> 2 * MAX_PROPOSERS \<le> b"
proof -
  have "sent_inv pid n st" "sent_inv pid' n' st'"
    using leader_reach_inv [OF assms(1,2)] leader_reach_inv [OF assms(3,4)]
    by (simp_all add: leader_inv_def leader_core_def)
  then have "owned pid n b" "owned pid' n' b'"
    using assms(6-9) by (auto simp: sent_inv_def leader_datagram_def)
  then show ?thesis
    using assms(2,4,5) owned_mod [of pid n b] owned_mod [of pid' n' b'] owned_range [of pid n b]
    by (auto simp: c_simps)
qed

text \<open>What \<^verbatim>\<open>leader_init\<close> sends: one batch with the first window.\<close>

lemma leader_init_sent:
  assumes b: "in_bounds pid 0"
  shows "lead_sent (snd (leader_init pid leader_static)) = [prep_datagram (prepares (map (\<lambda>i. (i, 20 + pid)) [0..50]))]"
proof -
  let ?s = "leader_init_state pid leader_static"
  have s: "prep_buffer_ok ?s" "lead_sent ?s = []" "prep_batch ?s = []" "lead_proposer_id ?s = pid"
    "proposer_array ?s = (\<lambda>_. static_proposer_record)" "highest_ready (p1info ?s) = -1"
    by (simp_all add: leader_init_state_def init_prepare_batch_def set_phase2_check_timeout_def leader_static_def
        prep_buffer_ok_def c_simps)
  have small: "small_ready ?s" by (simp add: small_ready_def s)
  have win: "window ?s = [0..50]" by (simp add: window_def s)
  have hits: "to_open ?s = [0..50]"
    by (simp add: to_open_def loop_hits_def win s opens_def static_proposer_record_def)
  let ?xs = "map (\<lambda>i. (i, 20 + pid)) [0..50]"
  let ?t = "pend 51 (?s\<lparr>proposer_array := loop_array opens (opened (20 + pid)) [0..50] (proposer_array ?s)\<rparr>)"
  have few: "length xs < 1123 \<Longrightarrow> prep_buffer_ok t \<Longrightarrow> length (prep_batch t) + length xs < 1123 \<Longrightarrow>
      lead_sent (send_prepares xs t) = lead_sent t \<and> prep_batch (send_prepares xs t) = prep_batch t @ prepares xs" for xs t
  proof (induction xs arbitrary: t)
    case Nil
    then show ?case by (simp add: prepares_def)
  next
    case (Cons x xs)
    obtain i c where x: "x = (i, c)" by (cases x)
    note add = add_prepare_buffer [OF Cons.prems(2), of i c]
    have "length (prep_batch t) < 1122" using Cons.prems(3) by simp
    with add Cons.IH [OF _ add(1)] Cons.prems show ?case by (simp add: x prepares_def)
  qed
  have eff: "opened_state ?s = widen_check 0 50 (send_prepares ?xs ?t)"
    using fold_open_effect [of ?s] unfolding hits win FIRST_BALLOT_value [OF s(4) b]
    by (simp add: opened_state_def win s)
  have "prep_buffer_ok ?t" "prep_batch ?t = []" "lead_sent ?t = []"
    using s by (simp_all add: prep_buffer_ok_def pend_def add_pending_def)
  then have o: "lead_sent (opened_state ?s) = []" "prep_batch (opened_state ?s) = prepares ?xs"
    "prep_buffer_ok (opened_state ?s)"
    using few [of ?xs ?t] send_prepares_sends [of ?t ?xs]
    unfolding eff by (simp_all add: widen_check_def prep_buffer_ok_def Let_def)
  have "prepares ?xs \<noteq> []" by (simp add: prepares_def)
  then show ?thesis
    unfolding leader_init_def set_phase1_check_timeout_def
    using flush_prepare [OF o(3)] o by (simp add: execute_phase1_opened [OF small])
qed

theorem leader_ballots_disjoint_witness: "(21 :: int) \<noteq> 22 \<and> 2 * MAX_PROPOSERS \<le> 21"
proof (rule leader_ballots_disjoint [OF leader_reach.init [of 1] in_bounds_1(1) leader_reach.init [of 2]])
  show b: "in_bounds 2 0" by (simp add: in_bounds_def c_simps)
  show "prep_datagram (prepares (map (\<lambda>i. (i, 20 + 1)) [0..50])) \<in> set (lead_sent (snd (leader_init 1 leader_static)))"
    by (simp add: leader_init_sent [OF in_bounds_1(1)])
  show "prep_datagram (prepares (map (\<lambda>i. (i, 20 + 2)) [0..50])) \<in> set (lead_sent (snd (leader_init 2 leader_static)))"
    by (simp add: leader_init_sent [OF b])
  have "\<exists>i::int. 0 \<le> i \<and> i \<le> 50" by (intro exI [of _ 0]) simp
  then show "21 \<in> packet_ballots (snd (snd (prep_datagram (prepares (map (\<lambda>i. (i, 20 + 1)) [0..50])))))"
    "22 \<in> packet_ballots (snd (snd (prep_datagram (prepares (map (\<lambda>i. (i, 20 + 2)) [0..50])))))"
    by (auto simp: prep_datagram_def prepares_def image_image)
qed simp

section \<open>Phase 1\<close>

text \<open>C16. The periodic check prepares again every pending instance at its next ballot, in order, and
  opens the window after the highest ready instance when fewer than half a window is under way; it
  leaves every other slot alone. The prepares go out in datagrams of at most 1123, and the last
  datagram is sent a second time when a window was opened.\<close>

theorem phase1_check_correct:
  assumes "leader_reach pid n st" and "in_bounds pid (Suc n)"
  shows "(\<exists>ds. lead_sent (phase1_check_cb st) = lead_sent st @ map prep_datagram (ds @ repeated st)
        \<and> concat ds = check_prepares st \<and> (\<forall>d\<in>set ds. d \<noteq> [] \<and> length d \<le> 1123)
        \<and> (\<forall>d\<in>set (repeated st). d \<in> set ds))
    \<and> (\<forall>k. proposer_array (retried_state st) k =
          (let r = proposer_array st k in if pr_status r = p1_pending then retried (pr_iid r) r else r))
    \<and> proposer_array (phase1_check_cb st) =
        (if wants_more st
         then loop_array opens (opened (20 + pid)) (window st) (proposer_array (retried_state st))
         else proposer_array (retried_state st))"
proof -
  have b: "in_bounds pid n" using assms(2) by (simp add: in_bounds_def)
  have inv: "leader_inv pid n st" using leader_reach_inv [OF assms(1) b] .
  then have core: "slots_inv pid n (proposer_array st)" "p1_inv n (proposer_array st) (p1info st)"
    and pid: "lead_proposer_id (retried_state st) = pid"
    by (simp_all add: leader_inv_def leader_core_def retried_state_frame)
  have small: "small_ready st" "small_ready (retried_state st)"
    using small_ready_inv [OF core(2) b] by (simp_all add: small_ready_def retried_state_frame)
  have "window (retried_state st) = window st" by (simp add: window_def retried_state_frame)
  then have "proposer_array (phase1_check_cb st) =
        (if wants_more st
         then loop_array opens (opened (20 + pid)) (window st) (proposer_array (retried_state st))
         else proposer_array (retried_state st))"
    by (simp add: phase1_check_cb_frame checked_state_def execute_phase1_frame [OF small(2)] opened_state_frame
        FIRST_BALLOT_value [OF pid b])
  then show ?thesis
    using phase1_check_cb_sends [OF small(1)] retried_array [OF core] by (simp add: Let_def)
qed

theorem phase1_check_correct_witness:
  "\<exists>ds. lead_sent (phase1_check_cb (snd (leader_init 1 leader_static)))
      = lead_sent (snd (leader_init 1 leader_static)) @ map prep_datagram (ds @ repeated (snd (leader_init 1 leader_static)))
    \<and> concat ds = check_prepares (snd (leader_init 1 leader_static))"
  using phase1_check_correct [OF leader_reach.init [of 1]] in_bounds_1 by auto

section \<open>Promises\<close>

text \<open>A slot of instance 0 waiting for promises at ballot 21, as \<^verbatim>\<open>leader_init\<close> leaves it.\<close>

definition wit_slot :: proposer_record where
  "wit_slot = opened 21 0 static_proposer_record"

definition wit_leader :: leader where
  "wit_leader = leader_static\<lparr>lead_quorum := 3, lead_proposer_id := 1,
     proposer_array := (\<lambda>_. static_proposer_record)(0 := wit_slot)\<rparr>"

definition wit_promise :: promise_msg where
  "wit_promise = \<lparr>prm_iid = 0, prm_ballot = 21, prm_value_ballot = 11, prm_value_size = 1, prm_value = [65]\<rparr>"

text \<open>A batch of promises from an acceptor that exists never crashes the leader, and handling a
  promise a second time changes nothing: what the network repeats is not counted twice.\<close>

theorem promise_not_counted_twice:
  assumes "leader_reach pid n st" "in_bounds pid n" and "aid \<in> acceptor_ids"
    and "wf_promise m" "length (prm_value m) \<le> 8968"
    and first: "handle_promise m aid (GET_PRO_INDEX (prm_iid m)) st = Some (ret, st')"
  shows "handle_promise m aid (GET_PRO_INDEX (prm_iid m)) st' = Some (0, st')"
proof -
  let ?k = "GET_PRO_INDEX (prm_iid m)"
  have core: "leader_core pid n st" using leader_reach_inv [OF assms(1,2)] by (simp add: leader_inv_def)
  then have slot: "slot_ok pid n ?k (proposer_array st ?k)" by (simp add: leader_core_def slots_inv_def)
  have "leader_core pid n st'" using handle_promise_core [OF core assms(3-5)] first by auto
  then have slot': "slot_ok pid n ?k (proposer_array st' ?k)" by (simp add: leader_core_def slots_inv_def)
  have len: "length (pr_promises (proposer_array st ?k)) = nat N_OF_ACCEPTORS"
    "length (pr_promises (proposer_array st' ?k)) = nat N_OF_ACCEPTORS"
    using slot slot' by (simp_all add: slot_ok_def)
  have a: "0 \<le> aid" "aid < int (length (pr_promises (proposer_array st ?k)))"
    "aid < int (length (pr_promises (proposer_array st' ?k)))"
    using assms(3) len by (simp_all add: acceptor_ids_def c_simps)
  then have in_range: "nat aid < length (pr_promises (proposer_array st ?k))" by (simp add: nat_less_iff)
  have "\<not> counts (proposer_array st' ?k) aid m"
  proof
    assume again: "counts (proposer_array st' ?k) aid m"
    show False
    proof (cases "counts (proposer_array st ?k) aid m")
      case False
      with first handle_promise_cases [OF a(1,2), of m] have "st' = st" by simp
      with again False show False by simp
    next
      case True
      let ?r1 = "with_promise (nat aid) m (proposer_array st ?k)"
      have "0 \<le> prm_iid m" using slot True by (auto simp: counts_def slot_ok_def)
      moreover have "proposer_array st' ?k = ?r1 \<or> pr_status (proposer_array st' ?k) = p1_ready"
        using first True handle_promise_cases [OF a(1,2), of m]
        by (auto simp: set_record_def promote_ready_def widen_check_def Let_def split: if_splits)
      ultimately show False
        using again in_range by (auto simp: counts_def with_promise_def)
    qed
  qed
  then show ?thesis using handle_promise_cases [OF a(1,3), of m] by simp
qed

text \<open>The state after the start, and a slot of it.\<close>

lemma leader_init_slot0:
  assumes "in_bounds pid 0"
  defines "st \<equiv> snd (leader_init pid leader_static)"
  shows "proposer_array st 0 = opened (20 + pid) 0 static_proposer_record" "lead_quorum st = 3"
    "lead_current_iid st = 0" "p2_current_iid st = 0"
proof -
  let ?i = "leader_init_state pid leader_static"
  have i: "lead_proposer_id ?i = pid" "proposer_array ?i = (\<lambda>_. static_proposer_record)"
    "highest_ready (p1info ?i) = -1" "lead_quorum ?i = 3" "lead_current_iid ?i = 0" "p2_current_iid ?i = 0"
    by (simp_all add: leader_init_state_def init_prepare_batch_def set_phase2_check_timeout_def leader_static_def)
  have small: "small_ready ?i" by (simp add: small_ready_def i)
  have win: "window ?i = [0..50]" by (simp add: window_def i)
  have "find (\<lambda>i. GET_PRO_INDEX i = 0 \<and> opens i static_proposer_record) [0..50] = Some 0"
  proof (rule find_unique)
    show "\<forall>i\<in>set [0..50]. GET_PRO_INDEX i = 0 \<and> opens i static_proposer_record \<longrightarrow> i = 0"
      by (auto simp: GET_PRO_INDEX_mod)
  qed (simp_all add: GET_PRO_INDEX_mod opens_def static_proposer_record_def)
  then show "proposer_array st 0 = opened (20 + pid) 0 static_proposer_record"
    by (simp add: st_def leader_init_def set_phase1_check_timeout_def execute_phase1_frame [OF small]
        opened_state_frame win i FIRST_BALLOT_value [OF i(1) assms(1)] loop_array_def)
  have "p2_current_iid (add_prepare_to_buffer j b s) = p2_current_iid s" for j b s
    by (simp add: add_prepare_to_buffer_def init_prepare_batch_def leader_flush_send_buffer_def Let_def)
  then have "p2_current_iid (send_prepares xs s) = p2_current_iid s" for xs s
    by (induction xs arbitrary: s) auto
  then have "p2_current_iid (opened_state ?i) = p2_current_iid ?i"
    unfolding opened_state_def fold_open_effect [of ?i] by (simp add: widen_check_def pend_def add_pending_def Let_def)
  then show "p2_current_iid st = 0"
    by (simp add: st_def leader_init_def set_phase1_check_timeout_def execute_phase1_opened [OF small]
        leader_flush_send_buffer_def i)
  show "lead_quorum st = 3" "lead_current_iid st = 0"
    by (simp_all add: st_def leader_init_def set_phase1_check_timeout_def execute_phase1_frame [OF small] i)
qed

theorem promise_not_counted_twice_witness:
  "let st = snd (leader_init 1 leader_static);
       st' = set_record 0 (with_promise 2 wit_promise (opened 21 0 static_proposer_record)) st
   in handle_promise wit_promise 2 0 st = Some (0, st') \<and> handle_promise wit_promise 2 0 st' = Some (0, st')"
proof -
  let ?st = "snd (leader_init 1 leader_static)"
  let ?u = "set_record 0 (with_promise 2 wit_promise (opened 21 0 static_proposer_record)) ?st"
  note slot = leader_init_slot0 [OF in_bounds_1(1)]
  have k: "GET_PRO_INDEX (prm_iid wit_promise) = 0" by (simp add: wit_promise_def GET_PRO_INDEX_mod)
  have first: "handle_promise wit_promise 2 (GET_PRO_INDEX (prm_iid wit_promise)) ?st = Some (0, ?u)"
    unfolding k handle_promise_def
    by (simp add: slot opened_def clear_promises_def wit_promise_def with_promise_def no_promise_def c_simps
        numeral_3_eq_3 Let_def)
  have "handle_promise wit_promise 2 (GET_PRO_INDEX (prm_iid wit_promise)) ?u = Some (0, ?u)"
    by (rule promise_not_counted_twice [OF leader_reach.init in_bounds_1(1) _ _ _ first])
      (simp_all add: acceptor_ids_def c_simps wit_promise_def wf_promise_def in_i32_def)
  with first show ?thesis by (simp add: k Let_def)
qed

section \<open>Phase 2\<close>

text \<open>C11. The value of phase 2 is the one a counted promise reports with the highest ballot; there is
  none exactly when no promise reports a value.\<close>

theorem phase2_value_highest:
  "(phase2_value r = None \<longleftrightarrow> (\<forall>p\<in>set (pr_promises r). \<not> reports p))
   \<and> (\<forall>p. phase2_value r = Some p \<longrightarrow> p \<in> set (pr_promises r) \<and> reports p
        \<and> (\<forall>q\<in>set (pr_promises r). reports q \<longrightarrow> pi_value_ballot q \<le> pi_value_ballot p))"
  using phase2_value_None phase2_value_Some by blast

theorem phase2_value_highest_witness:
  "let p = \<lparr>pi_iid = 4, pi_value_ballot = 11, pi_value_size = 1, pi_value = Some [65]\<rparr>;
       q = \<lparr>pi_iid = 4, pi_value_ballot = 21, pi_value_size = 1, pi_value = Some [66]\<rparr>;
       r = wit_slot\<lparr>pr_promises := [p, q, no_promise]\<rparr>
   in phase2_value r = Some q \<and> pi_value_ballot p \<le> pi_value_ballot q"
proof -
  let ?p = "\<lparr>pi_iid = 4, pi_value_ballot = 11, pi_value_size = 1, pi_value = Some [65]\<rparr>"
  let ?q = "\<lparr>pi_iid = 4, pi_value_ballot = 21, pi_value_size = 1, pi_value = Some [66]\<rparr>"
  let ?r = "wit_slot\<lparr>pr_promises := [?p, ?q, no_promise]\<rparr>"
  have "phase2_value ?r = Some ?q" by (simp add: phase2_value_def phase2_pick_def no_promise_def)
  with phase2_value_highest [of ?r] have "reports ?p \<longrightarrow> pi_value_ballot ?p \<le> pi_value_ballot ?q" by fastforce
  with \<open>phase2_value ?r = Some ?q\<close> show ?thesis by (simp add: reports_def Let_def)
qed

text \<open>C10. Phase 2 over a range within the array sends, for each ready instance whose promises report
  a value, one accept at the ballot of the slot with the value of the highest ballot, then one any
  message with all the other ready instances; every ready slot of the range ends finished and no
  other slot changes.\<close>

theorem execute_phase2_correct:
  assumes "last_iid < first_iid + 512"
  shows "lead_sent (execute_phase2 first_iid last_iid st)
      = lead_sent st @ phase2_sends (proposer_array st) [first_iid..last_iid]
    \<and> proposer_array (execute_phase2 first_iid last_iid st)
      = (\<lambda>k. if k \<in> GET_PRO_INDEX ` {first_iid..last_iid} then finish (proposer_array st k) else proposer_array st k)
    \<and> p1info (execute_phase2 first_iid last_iid st) = p1info st"
  using execute_phase2_sends [OF assms] by (simp add: execute_phase2_array frame fun_eq_iff)

text \<open>Two ready slots: a value reported for instance 0, none for instance 1.\<close>

definition wit_ready :: leader where
  "wit_ready = wit_leader\<lparr>proposer_array := (\<lambda>_. static_proposer_record)
     (0 := wit_slot\<lparr>pr_status := p1_ready, pr_promises :=
        [\<lparr>pi_iid = 0, pi_value_ballot = 11, pi_value_size = 1, pi_value = Some [65]\<rparr>, no_promise, no_promise]\<rparr>,
      1 := wit_slot\<lparr>pr_iid := 1, pr_status := p1_ready\<rparr>)\<rparr>"

lemma zero_one: "[0..1] = [0, 1 :: int]"
  by (simp add: upto.simps)

theorem execute_phase2_correct_witness:
  "lead_sent (execute_phase2 0 1 wit_ready) =
    [(Acceptors_Net, 25, Accept \<lparr>acm_iid = 0, acm_ballot = 21, acm_value_size = 1, acm_proposer_id = 1, acm_value = [65]\<rparr>),
     (Acceptors_Net, 20, Anyval 21 [1])]"
proof -
  have a0: "proposer_array wit_ready (GET_PRO_INDEX 0) = wit_slot\<lparr>pr_status := p1_ready, pr_promises :=
        [\<lparr>pi_iid = 0, pi_value_ballot = 11, pi_value_size = 1, pi_value = Some [65]\<rparr>, no_promise, no_promise]\<rparr>"
    and a1: "proposer_array wit_ready (GET_PRO_INDEX 1) = wit_slot\<lparr>pr_iid := 1, pr_status := p1_ready\<rparr>"
    by (simp_all add: wit_ready_def GET_PRO_INDEX_mod)
  have v0: "phase2_value (proposer_array wit_ready (GET_PRO_INDEX 0))
      = Some \<lparr>pi_iid = 0, pi_value_ballot = 11, pi_value_size = 1, pi_value = Some [65]\<rparr>"
    and v1: "phase2_value (proposer_array wit_ready (GET_PRO_INDEX 1)) = None"
    unfolding a0 a1
    by (simp_all add: phase2_value_def phase2_pick_def no_promise_def wit_slot_def opened_def clear_promises_def
        numeral_3_eq_3 c_simps)
  have vs: "valued (proposer_array wit_ready) [0, 1] = [0]" "unvalued (proposer_array wit_ready) [0, 1] = [1]"
    by (simp_all add: valued_def unvalued_def ready_at_def v0 v1) (simp_all add: a0 a1)
  have slot: "pr_iid wit_slot = 0" "pr_ballot wit_slot = 21"
    by (simp_all add: wit_slot_def opened_def clear_promises_def)
  have "lead_sent (execute_phase2 0 1 wit_ready) = lead_sent wit_ready @ phase2_sends (proposer_array wit_ready) [0..1]"
    using execute_phase2_correct [of 1 0 wit_ready] by simp
  also have "lead_sent wit_ready = []" by (simp add: wit_ready_def wit_leader_def leader_static_def)
  finally show ?thesis
    by (simp add: zero_one phase2_sends_def accepts_for_def ballots_of_def vs v0 [unfolded a0] accept_datagram_def accept_of_def
        any_datagram_def size_Anyval a0 a1 slot VALUE_OWNER_def c_simps Let_def)
qed

section \<open>Recovery of an instance without progress\<close>

lemma phase2_check_restarts:
  assumes inv: "leader_inv pid n st" and b: "in_bounds pid (Suc n)" and stuck: "p2_current_iid st = i" "lead_current_iid st = i"
    and iid: "pr_iid (proposer_array st (GET_PRO_INDEX i)) = i"
  defines "r \<equiv> proposer_array st (GET_PRO_INDEX i)"
  shows "\<exists>st'. phase2_check_cb st = Some st' \<and> leader_inv pid (Suc n) st'
    \<and> lead_sent st' = lead_sent st @ [prep_datagram [\<lparr>pm_iid = i, pm_ballot = BALLOT_NEXT (pr_ballot r)\<rparr>]]
    \<and> proposer_array st' = (proposer_array st)(GET_PRO_INDEX i :=
        clear_promises (r\<lparr>pr_ballot := BALLOT_NEXT (pr_ballot r), pr_status := p1_pending\<rparr>))
    \<and> phase2_armed st'"
proof -
  let ?k = "GET_PRO_INDEX i" and ?st = "st\<lparr>phase2_armed := False\<rparr>"
  have init: "proposer_array (init_prepare_batch s) = proposer_array s"
    "lead_current_iid (init_prepare_batch s) = lead_current_iid s" for s
    by (simp_all add: init_prepare_batch_def)
  have "leader_inv pid n ?st" using inv by (rule leader_inv_cong) simp_all
  note restart = phase2_restart_inv(1,2) [OF this b, of ?k i]
  have cb: "phase2_check_cb st = Some (set_phase2_check_timeout (phase2_restart ?k (init_prepare_batch ?st)))"
    using stuck iid by (simp add: phase2_check_cb_def init Let_def)
  from phase2_check_cb_inv [OF inv b this] restart iid show ?thesis
    unfolding cb by (simp add: set_phase2_check_timeout_def r_def)
qed

text \<open>C17. The phase 2 check does nothing when an instance was delivered since the last one; otherwise
  it sends one prepare for the current instance at the next ballot of its slot, which becomes
  pending again with no promises, and leaves every other slot alone; it aborts on its assertion
  when the slot does not hold the current instance.\<close>

theorem phase2_check_correct:
  assumes "leader_reach pid n st" and "in_bounds pid (Suc n)"
  defines "i \<equiv> lead_current_iid st"
  defines "r \<equiv> proposer_array st (GET_PRO_INDEX i)"
  shows "if i \<noteq> p2_current_iid st
    then phase2_check_cb st = Some (st\<lparr>p2_current_iid := i, phase2_armed := True\<rparr>)
    else if pr_iid r \<noteq> i then phase2_check_cb st = None
    else \<exists>st'. phase2_check_cb st = Some st'
      \<and> lead_sent st' = lead_sent st @ [prep_datagram [\<lparr>pm_iid = i, pm_ballot = BALLOT_NEXT (pr_ballot r)\<rparr>]]
      \<and> proposer_array st' = (proposer_array st)(GET_PRO_INDEX i :=
          clear_promises (r\<lparr>pr_ballot := BALLOT_NEXT (pr_ballot r), pr_status := p1_pending\<rparr>))
      \<and> phase2_armed st'"
proof -
  have init: "proposer_array (init_prepare_batch s) = proposer_array s"
    "lead_current_iid (init_prepare_batch s) = lead_current_iid s" for s
    by (simp_all add: init_prepare_batch_def)
  have "in_bounds pid n" using assms(2) by (simp add: in_bounds_def)
  then have inv: "leader_inv pid n st" using leader_reach_inv [OF assms(1)] by simp
  show ?thesis
  proof (cases "i = p2_current_iid st \<and> pr_iid r = i")
    case True
    from conjunct1 [OF True, symmetric] conjunct2 [OF True]
    have "p2_current_iid st = i" "lead_current_iid st = i" "pr_iid (proposer_array st (GET_PRO_INDEX i)) = i"
      unfolding r_def i_def by simp_all
    from phase2_check_restarts [OF inv assms(2) this] obtain st' where "phase2_check_cb st = Some st'"
      "lead_sent st' = lead_sent st @ [prep_datagram [\<lparr>pm_iid = i, pm_ballot = BALLOT_NEXT (pr_ballot r)\<rparr>]]"
      "proposer_array st' = (proposer_array st)(GET_PRO_INDEX i :=
          clear_promises (r\<lparr>pr_ballot := BALLOT_NEXT (pr_ballot r), pr_status := p1_pending\<rparr>))"
      "phase2_armed st'" unfolding r_def by blast
    then have "\<exists>st'. phase2_check_cb st = Some st'
      \<and> lead_sent st' = lead_sent st @ [prep_datagram [\<lparr>pm_iid = i, pm_ballot = BALLOT_NEXT (pr_ballot r)\<rparr>]]
      \<and> proposer_array st' = (proposer_array st)(GET_PRO_INDEX i :=
          clear_promises (r\<lparr>pr_ballot := BALLOT_NEXT (pr_ballot r), pr_status := p1_pending\<rparr>))
      \<and> phase2_armed st'" by blast
    then show ?thesis using True by argo
  next
    case False
    then show ?thesis
      by (auto simp: phase2_check_cb_def init r_def i_def Let_def set_phase2_check_timeout_def)
  qed
qed

theorem phase2_check_correct_witness:
  "\<exists>st'. phase2_check_cb (snd (leader_init 1 leader_static)) = Some st'
     \<and> last (lead_sent st') = prep_datagram [\<lparr>pm_iid = 0, pm_ballot = 31\<rparr>]"
proof -
  let ?st = "snd (leader_init 1 leader_static)"
  have k: "GET_PRO_INDEX 0 = 0" by (simp add: GET_PRO_INDEX_mod)
  from phase2_check_correct [OF leader_reach.init [of 1]] in_bounds_1
  obtain st' where "phase2_check_cb ?st = Some st'"
    "lead_sent st' = lead_sent ?st @ [prep_datagram [\<lparr>pm_iid = 0, pm_ballot = BALLOT_NEXT 21\<rparr>]]"
    by (auto simp: leader_init_slot0 k opened_def clear_promises_def)
  moreover have "BALLOT_NEXT 21 = 31" by (simp add: BALLOT_NEXT_def c_simps)
  ultimately show ?thesis by simp
qed

section \<open>Packets\<close>

text \<open>C31. A promise batch that an acceptor encodes is handled as that batch, whatever the receive
  buffer held before.\<close>

theorem leader_reads_promise_packet:
  assumes "length (leader_recv_buffer st) = nat MAX_UDP_MSG_SIZE" and "wf_packet (Promise_Batch aid ps)"
  shows "leader_handle_proposer_msg (Recv (encode_packet (Promise_Batch aid ps))) st
    = leader_handle_promise_msg aid ps
        (st\<lparr>leader_recv_buffer := recv_into (leader_recv_buffer st) (encode_packet (Promise_Batch aid ps))\<rparr>)"
proof -
  let ?p = "Promise_Batch aid ps"
  have len: "int (length (encode_packet ?p)) \<le> 9000" "16 \<le> length (encode_packet ?p)"
    using assms(2) by (simp_all add: wf_packet_def length_encode_packet c_simps)
  then have fits: "length (encode_packet ?p) \<le> length (leader_recv_buffer st)" using assms(1) by (simp add: c_simps)
  then obtain xs where buf: "recv_into (leader_recv_buffer st) (encode_packet ?p) = encode_packet ?p @ xs"
    by (simp add: recv_into_short)
  have "rd_packet (encode_packet ?p @ xs) = Some ?p" by (rule rd_packet_encode [OF assms(2)])
  moreover have ty: "rd32 (encode_packet ?p @ xs) 4 = Some PAXOS_PROMISE" by (simp add: rd32_encode_type)
  ultimately obtain n where rd: "rd32 (encode_packet ?p @ xs) 8 = Some aid" "rd32 (encode_packet ?p @ xs) 12 = Some n"
    "rd_promises (encode_packet ?p @ xs) 16 (nat n) = Some ps"
    by (auto simp: rd_packet_def c_simps split: Option.bind_splits)
  have sz: "received (leader_recv_buffer st) (encode_packet ?p) = int (length (encode_packet ?p))"
    using fits by (simp add: received_def)
  have "\<not> to_size_t (int (length (encode_packet ?p))) < to_size_t (sizeof_paxos_msg + sizeof_promise_batch_msg)"
    using len to_size_t_less [of "int (length (encode_packet ?p))" 16] by (simp add: c_simps)
  then show ?thesis
    unfolding leader_handle_proposer_msg_def recv_result.case sz buf by (simp add: ty rd)
qed

theorem leader_reads_promise_packet_witness:
  "leader_handle_proposer_msg (Recv (encode_packet (Promise_Batch 2 [wit_promise]))) leader_static
    = leader_handle_promise_msg 2 [wit_promise] (leader_static\<lparr>leader_recv_buffer :=
        recv_into (leader_recv_buffer leader_static) (encode_packet (Promise_Batch 2 [wit_promise]))\<rparr>)"
proof (rule leader_reads_promise_packet)
  show "length (leader_recv_buffer leader_static) = nat MAX_UDP_MSG_SIZE" by (simp add: leader_static_def)
  have "int (length (encode_packet (Promise_Batch 2 [wit_promise]))) \<le> MAX_UDP_MSG_SIZE"
    unfolding size_Promise_Batch by (simp add: promise_size_def wit_promise_def c_simps)
  then show "wf_packet (Promise_Batch 2 [wit_promise])"
    by (simp add: wf_packet_def wf_promise_def wit_promise_def in_i32_def)
qed

section \<open>Where the code departs from the protocol\<close>

text \<open>A failed \<^verbatim>\<open>recvfrom\<close> is handled as the arrival of a datagram with the whole old contents
  of the receive buffer: the size of -1 passes the size check.\<close>

theorem leader_replays_on_recv_failure:
  assumes "length (leader_recv_buffer st) = nat MAX_UDP_MSG_SIZE"
  shows "leader_handle_proposer_msg Recv_Fail st = leader_handle_proposer_msg (Recv (leader_recv_buffer st)) st"
proof -
  let ?b = "leader_recv_buffer st"
  have "int (length ?b) = 9000" using assms by (simp add: c_simps)
  then have same: "recv_into ?b ?b = ?b" "received ?b ?b = 9000" by (simp_all add: recv_into_def received_def)
  have "\<not> to_size_t (-1) < to_size_t 16" "\<not> to_size_t 9000 < to_size_t 16"
    by (simp_all add: to_size_t_def word_less_def unsigned_minus_1_eq_mask mask_eq_exp_minus_1)
  then show ?thesis by (simp add: leader_handle_proposer_msg_def same c_simps)
qed

theorem leader_replays_on_recv_failure_witness:
  "leader_handle_proposer_msg Recv_Fail leader_static
    = leader_handle_proposer_msg (Recv (leader_recv_buffer leader_static)) leader_static"
  by (rule leader_replays_on_recv_failure) (simp add: leader_static_def)

lemma fold_max_start: "a \<le> fold max xs (a :: int)"
  by (induction xs arbitrary: a) (auto intro: order_trans [OF max.cobounded2])

lemma fold_max_upper: "x \<in> set xs \<Longrightarrow> x \<le> fold max xs (a :: int)"
  by (induction xs arbitrary: a) (auto intro: order_trans [OF max.cobounded1 fold_max_start])

text \<open>One any message carries the highest ballot of all its instances: when two ready instances
  without a value were prepared at different ballots, the one with the lower ballot is opened to
  any value at a ballot no acceptor promised for it.\<close>

theorem any_message_ballot_not_prepared:
  assumes "l < f + 512" and "i \<in> {f..l}" "j \<in> {f..l}"
    and "ready_at (proposer_array st) i" "ready_at (proposer_array st) j"
    and "phase2_value (proposer_array st (GET_PRO_INDEX i)) = None" "phase2_value (proposer_array st (GET_PRO_INDEX j)) = None"
    and "pr_ballot (proposer_array st (GET_PRO_INDEX i)) < pr_ballot (proposer_array st (GET_PRO_INDEX j))"
  shows "\<exists>b ids. (Acceptors_Net, int (length (encode_packet (Anyval b ids))), Anyval b ids)
      \<in> set (lead_sent (execute_phase2 f l st))
    \<and> i \<in> set ids \<and> pr_ballot (proposer_array st (GET_PRO_INDEX i)) < b"
proof -
  let ?A = "proposer_array st" and ?ids = "unvalued (proposer_array st) [f..l]"
  let ?b = "fold max (ballots_of ?A [f..l]) (-1)"
  have "i \<in> set ?ids" "j \<in> set ?ids" using assms(2-7) by (simp_all add: unvalued_def)
  then have "pr_ballot (?A (GET_PRO_INDEX j)) \<le> ?b"
    by (intro fold_max_upper) (simp add: ballots_of_def)
  moreover have "any_datagram ?b ?ids \<in> set (lead_sent (execute_phase2 f l st))"
    using \<open>i \<in> set ?ids\<close> by (auto simp: execute_phase2_sends [OF assms(1)] phase2_sends_def)
  ultimately show ?thesis
    using assms(8) \<open>i \<in> set ?ids\<close> unfolding any_datagram_def by (meson less_le_trans)
qed

text \<open>\<^verbatim>\<open>VALUE_OWNER\<close> finds the proposer of a value accepted at a proposer's fixed ballot, but the
  leader itself for a value it already proposed again: after a second recovery the value is
  reported under the leader's id and its proposer is not recognised as the owner.\<close>

theorem value_owner_lost:
  assumes "in_bounds pid n" and "owned pid n b" and "0 \<le> prop" "prop < MAX_PROPOSERS"
    and "pi_value_ballot p1 = MAX_PROPOSERS + prop" "pi_value_ballot p2 = b"
  shows "acm_proposer_id (accept_of r p1) = prop \<and> acm_proposer_id (accept_of r p2) = pid"
proof -
  have "0 < b" "b mod 10 = pid" using owned_range [OF assms(2,1)] owned_mod [OF assms(2,1)] by simp_all
  then show ?thesis using assms by (simp add: accept_of_def VALUE_OWNER_def c_simps sgn_if)
qed

theorem value_owner_lost_witness:
  "acm_proposer_id (accept_of wit_slot \<lparr>pi_iid = 0, pi_value_ballot = 13, pi_value_size = 1, pi_value = Some [65]\<rparr>) = 3
   \<and> acm_proposer_id (accept_of wit_slot \<lparr>pi_iid = 0, pi_value_ballot = 21, pi_value_size = 1, pi_value = Some [65]\<rparr>) = 1"
  by (rule value_owner_lost [OF in_bounds_1(1), of 21]) (simp_all add: owned_first [of 1, simplified] c_simps)

text \<open>Two ready instances without a value, the second prepared once more than the first.\<close>

definition wit_mixed :: leader where
  "wit_mixed = wit_leader\<lparr>proposer_array := (\<lambda>_. static_proposer_record)
     (0 := wit_slot\<lparr>pr_status := p1_ready\<rparr>,
      1 := wit_slot\<lparr>pr_iid := 1, pr_ballot := 31, pr_status := p1_ready\<rparr>)\<rparr>"

theorem any_message_ballot_not_prepared_witness:
  "\<exists>b ids. (Acceptors_Net, int (length (encode_packet (Anyval b ids))), Anyval b ids)
      \<in> set (lead_sent (execute_phase2 0 1 wit_mixed)) \<and> 0 \<in> set ids \<and> 21 < b"
proof -
  have a: "proposer_array wit_mixed (GET_PRO_INDEX 0) = wit_slot\<lparr>pr_status := p1_ready\<rparr>"
    "proposer_array wit_mixed (GET_PRO_INDEX 1) = wit_slot\<lparr>pr_iid := 1, pr_ballot := 31, pr_status := p1_ready\<rparr>"
    by (simp_all add: wit_mixed_def GET_PRO_INDEX_mod)
  have v: "phase2_value (wit_slot\<lparr>pr_status := p1_ready\<rparr>) = None"
    "phase2_value (wit_slot\<lparr>pr_iid := 1, pr_ballot := 31, pr_status := p1_ready\<rparr>) = None"
    by (simp_all add: phase2_value_def phase2_pick_def no_promise_def wit_slot_def opened_def clear_promises_def
        numeral_3_eq_3 c_simps)
  have slot: "pr_ballot wit_slot = 21" by (simp add: wit_slot_def opened_def clear_promises_def)
  show ?thesis
    using any_message_ballot_not_prepared [of 1 0 0 1 wit_mixed] by (simp add: ready_at_def a v slot)
qed

text \<open>A leader that hears no promise, because its ballots are below another leader's, never opens an
  instance after the first window; once the other leader's instances have been delivered past the
  window, its phase 2 check aborts the process.\<close>

definition first_window_only :: "leader \<Rightarrow> bool" where
  "first_window_only st \<longleftrightarrow> highest_ready (p1info st) = -1 \<and> (\<forall>k. pr_iid (proposer_array st k) \<le> 50)"

lemma first_window_open: "first_window_only st \<Longrightarrow> first_window_only (execute_phase1 st)"
proof -
  assume st: "first_window_only st"
  then have small: "small_ready st" by (simp add: first_window_only_def small_ready_def)
  have "pr_iid (loop_array opens (opened b) (window st) (proposer_array st) k) \<le> 50" for b k
    using loop_array_open_cases [of b "window st" "proposer_array st" k] st
    by (auto simp: first_window_only_def window_def opened_def clear_promises_def)
  then show ?thesis
    using st by (simp add: first_window_only_def execute_phase1_frame [OF small] opened_state_frame)
qed

lemma first_window_retry: "first_window_only st \<Longrightarrow> first_window_only (retried_state st)"
proof -
  assume st: "first_window_only st"
  have "pr_iid (loop_array retries retried is A k) = pr_iid (A k)" for "is" A k
    by (simp add: loop_array_def retried_def clear_promises_def split: option.split)
  then show ?thesis using st by (simp add: first_window_only_def retried_state_frame)
qed

lemma first_window_restart:
  "first_window_only st \<Longrightarrow> first_window_only (phase2_restart k st)"
  by (auto simp: first_window_only_def phase2_restart_def set_record_def add_pending_def add_ready_def frame
      clear_promises_def Let_def)

fun silent :: "leader_event \<Rightarrow> bool" where
  "silent (Promises _ _) \<longleftrightarrow> False"
| "silent _ \<longleftrightarrow> True"

lemma first_window_step:
  assumes st: "first_window_only st" and e: "silent e" and run: "leader_step e st = Some st'"
  shows "first_window_only st'"
proof (cases e)
    case (Value_Delivered i)
    with st run show ?thesis by (auto simp: first_window_only_def leader_deliver_value_def)
  next
    case Phase1_Tick
    have "first_window_only (checked_state st)"
      using st by (simp add: checked_state_def first_window_open first_window_retry)
    moreover have "st' = phase1_check_cb st" using Phase1_Tick run by simp
    ultimately show ?thesis by (simp add: first_window_only_def phase1_check_cb_frame)
  next
    case Phase2_Tick
    have "first_window_only (init_prepare_batch (st\<lparr>phase2_armed := False\<rparr>))"
      using st by (simp add: first_window_only_def init_prepare_batch_def)
    then have "first_window_only (phase2_restart k (init_prepare_batch (st\<lparr>phase2_armed := False\<rparr>)))" for k
      by (rule first_window_restart)
    with Phase2_Tick run st show ?thesis
      by (auto simp: phase2_check_cb_def set_phase2_check_timeout_def first_window_only_def Let_def split: if_splits)
  next
    case (Promises aid ps)
    with e show ?thesis by simp
qed

text \<open>C40. From the start, after any events other than promises, a phase 2 check without progress at an
  instance after 50 fails its assertion and aborts.\<close>

theorem standby_leader_aborts:
  assumes "\<forall>e\<in>set es. silent e" and "ofold leader_step es (snd (leader_init pid leader_static)) = Some st"
    and "50 < lead_current_iid st" and "p2_current_iid st = lead_current_iid st"
  shows "leader_step Phase2_Tick st = None"
proof -
  have "first_window_only (leader_init_state pid leader_static)"
    by (simp add: first_window_only_def leader_init_state_def init_prepare_batch_def set_phase2_check_timeout_def
        leader_static_def static_proposer_record_def)
  from first_window_open [OF this] have "first_window_only (snd (leader_init pid leader_static))"
    by (simp add: leader_init_def set_phase1_check_timeout_def first_window_only_def)
  then have "first_window_only st"
    using assms(1,2) first_window_step
    by (intro ofold_invariant [where P = first_window_only, of es leader_step _ st]) auto
  then have "pr_iid (proposer_array st (GET_PRO_INDEX (lead_current_iid st))) \<noteq> lead_current_iid st"
    using assms(3) by (auto simp: first_window_only_def dest: spec [of _ "GET_PRO_INDEX (lead_current_iid st)"])
  then show ?thesis
    using assms(4) by (auto simp: phase2_check_cb_def init_prepare_batch_def Let_def)
qed

theorem standby_leader_aborts_witness:
  "let st = snd (leader_init 2 leader_static);
       st' = the (ofold leader_step [Value_Delivered 50, Phase2_Tick] st)
   in lead_current_iid st' = 51 \<and> leader_step Phase2_Tick st' = None"
proof -
  let ?st = "snd (leader_init 2 leader_static)"
  have b: "in_bounds 2 0" by (simp add: in_bounds_def c_simps)
  let ?s1 = "leader_deliver_value 50 ?st"
  let ?s2 = "?s1\<lparr>p2_current_iid := 51, phase2_armed := True\<rparr>"
  have "lead_current_iid ?s1 = 51" "p2_current_iid ?s1 = 0"
    by (simp_all add: leader_deliver_value_def leader_init_slot0 [OF b])
  then have run: "ofold leader_step [Value_Delivered 50, Phase2_Tick] ?st = Some ?s2"
    by (simp add: phase2_check_cb_def set_phase2_check_timeout_def)
  have "leader_step Phase2_Tick ?s2 = None"
    by (rule standby_leader_aborts [OF _ run]) (simp_all add: leader_deliver_value_def)
  then show ?thesis unfolding run Let_def by (simp add: leader_deliver_value_def)
qed

end
