(* ===== verification/Learner.thy ===== *)
theory Learner
  imports Wire
begin

text \<open>
  \<^verbatim>\<open>lib/learner.c\<close>: the learner's state and one definition per function, in the order of the
  file. The static variables are the fields of \<open>learner\<close>; the delivery callback is the
  application's (or the proposer's) code, so its calls are kept as the log \<open>delivered\<close>.
\<close>

section \<open>State\<close>

record learner_record =
  lr_iid :: int
  lr_ballot :: int
  lr_proposer_id :: int
  lr_final_value :: "byte list option"
  lr_final_value_size :: int
  lr_learns :: "learn_msg option list"

text \<open>The arguments of one call of \<^verbatim>\<open>deliver_function\<close>.\<close>

record delivery =
  dl_value :: "byte list"
  dl_size :: int
  dl_iid :: int
  dl_ballot :: int
  dl_proposer :: int

record learner =
  lea_quorum :: int
  highest_delivered :: int
  highest_seen :: int
  learner_array :: "nat \<Rightarrow> learner_record"
  lear_recv_buffer :: "byte list"
  lsync_armed :: bool
  delivered :: "delivery list"
  lear_sent :: "datagram list"

section \<open>Recording learn messages\<close>

definition is_closed :: "learner_record \<Rightarrow> bool" where
  "is_closed r \<longleftrightarrow> lr_final_value r \<noteq> None"

definition add_learn_to_record :: "learner_record \<Rightarrow> learn_msg \<Rightarrow> int \<times> learner_record" where
  "add_learn_to_record r lmsg =
     (if lm_acceptor_id lmsg < 0 \<or> lm_acceptor_id lmsg \<ge> N_OF_ACCEPTORS then (0, r)
      else let a = nat (lm_acceptor_id lmsg);
               r' = r\<lparr>lr_learns := (lr_learns r)[a := Some lmsg]\<rparr>
           in (case lr_learns r ! a of
                 None \<Rightarrow> (1, r')
               | Some old_learn \<Rightarrow>
                   if lm_ballot old_learn \<ge> lm_ballot lmsg then (0, r) else (1, r')))"

definition clean_record :: "int \<Rightarrow> learner_record \<Rightarrow> learner_record" where
  "clean_record iid r = r\<lparr>lr_iid := iid, lr_final_value := None, lr_final_value_size := -1,
     lr_learns := replicate (nat N_OF_ACCEPTORS) None\<rparr>"

definition update_record :: "learn_msg \<Rightarrow> learner \<Rightarrow> int \<times> learner" where
  "update_record lmsg st =
     (if lm_iid lmsg \<ge> i32 (highest_delivered st + LEARNER_ARRAY_SIZE) then (0, st)
      else if lm_iid lmsg \<le> highest_delivered st then (0, st)
      else let k = GET_LEA_INDEX (lm_iid lmsg); r = learner_array st k
           in if lr_iid r \<noteq> lm_iid lmsg then
                (let (ret, r') = add_learn_to_record (clean_record (lm_iid lmsg) r) lmsg
                 in (ret, st\<lparr>learner_array := (learner_array st)(k := r')\<rparr>))
              else if is_closed r then (0, st)
              else (let (ret, r') = add_learn_to_record r lmsg
                    in (ret, st\<lparr>learner_array := (learner_array st)(k := r')\<rparr>)))"

section \<open>Delivery\<close>

text \<open>
  One round of the delivery loop: the callback, the slot's value freed, the counter moved on. The copy into
  \<^verbatim>\<open>deliver_buffer\<close> is not checked in the code; a value of more than \<^verbatim>\<open>PAXOS_MAX_VALUE_SIZE\<close> bytes, up to 12 more
  fit a learn datagram, overflows it. The model delivers such a value as if the buffer had room; the theorems
  on deliveries take values that fit.
\<close>

definition deliver_one :: "int \<Rightarrow> byte list \<Rightarrow> learner \<Rightarrow> learner" where
  "deliver_one instance_id v st =
     (let k = GET_LEA_INDEX instance_id; r = learner_array st k
      in st\<lparr>delivered := delivered st @
                [\<lparr>dl_value = take (nat (lr_final_value_size r)) v, dl_size = lr_final_value_size r,
                  dl_iid = instance_id, dl_ballot = lr_ballot r, dl_proposer = lr_proposer_id r\<rparr>],
            learner_array := (learner_array st)(k := r\<lparr>lr_final_value := None\<rparr>),
            highest_delivered := instance_id\<rparr>)"

definition closed_slots :: "learner \<Rightarrow> nat set" where
  "closed_slots st = {k. k < 512 \<and> is_closed (learner_array st k)}"

lemma closed_slots_deliver_one:
  assumes "lr_final_value (learner_array st (GET_LEA_INDEX i)) = Some v"
  shows "card (closed_slots (deliver_one i v st)) < card (closed_slots st)"
proof (rule psubset_card_mono)
  show "finite (closed_slots st)" by (simp add: closed_slots_def)
  have "GET_LEA_INDEX i \<in> closed_slots st - closed_slots (deliver_one i v st)"
    using assms by (simp add: closed_slots_def deliver_one_def is_closed_def Let_def)
  moreover have "closed_slots (deliver_one i v st) \<subseteq> closed_slots st"
    by (auto simp: closed_slots_def deliver_one_def is_closed_def Let_def split: if_splits)
  ultimately show "closed_slots (deliver_one i v st) \<subset> closed_slots st" by blast
qed

text \<open>The loop frees one closed slot in every round, so it ends from every state.\<close>

function deliver_values :: "int \<Rightarrow> learner \<Rightarrow> learner" where
  "deliver_values instance_id st =
     (case lr_final_value (learner_array st (GET_LEA_INDEX instance_id)) of
        None \<Rightarrow> st
      | Some v \<Rightarrow> deliver_values (i32 (instance_id + 1)) (deliver_one instance_id v st))"
  by pat_completeness auto
termination
  by (relation "measure (\<lambda>(i, st). card (closed_slots st))") (auto simp: closed_slots_deliver_one)

declare deliver_values.simps [simp del]

section \<open>Quorums\<close>

definition same_ballot_count :: "int \<Rightarrow> learner_record \<Rightarrow> int" where
  "same_ballot_count b r =
     int (length (filter (\<lambda>l. case l of None \<Rightarrow> False | Some m \<Rightarrow> lm_ballot m = b) (lr_learns r)))"

definition check_quorum :: "learn_msg \<Rightarrow> learner \<Rightarrow> int \<times> learner" where
  "check_quorum lmsg st =
     (let k = GET_LEA_INDEX (lm_iid lmsg); r = learner_array st k
      in if same_ballot_count (lm_ballot lmsg) r \<ge> lea_quorum st then
           (1, st\<lparr>learner_array := (learner_array st)(k := r\<lparr>lr_ballot := lm_ballot lmsg,
                 lr_proposer_id := lm_proposer_id lmsg, lr_final_value_size := lm_value_size lmsg,
                 lr_final_value := Some (take (nat (lm_value_size lmsg)) (lm_value lmsg))\<rparr>)\<rparr>)
         else (0, st))"

definition learner_handle_learn_msg :: "learn_msg \<Rightarrow> learner \<Rightarrow> learner" where
  "learner_handle_learn_msg lmsg st =
     (let st1 = (if lm_iid lmsg > highest_seen st then st\<lparr>highest_seen := lm_iid lmsg\<rparr> else st);
          (relevant, st2) = update_record lmsg st1
      in if relevant = 0 then st2
         else (let (closed, st3) = check_quorum lmsg st2
               in if closed = 0 then st3
                  else if lm_iid lmsg = i32 (highest_delivered st3 + 1)
                  then deliver_values (lm_iid lmsg) st3
                  else st3))"

text \<open>
  \<^verbatim>\<open>learner_handle_learner_msg\<close>: unlike the acceptor's loop, a packet whose size does not match
  is reported and then handled all the same.
\<close>

definition learner_handle_learner_msg :: "recv_result \<Rightarrow> learner \<Rightarrow> learner option" where
  "learner_handle_learner_msg recv st =
     (case recv of
        Recv_Fail \<Rightarrow> Some st
      | Recv dgram \<Rightarrow>
          (let buf = recv_into (lear_recv_buffer st) dgram;
               st1 = st\<lparr>lear_recv_buffer := buf\<rparr>
           in case rd32 buf 4 of
                None \<Rightarrow> None
              | Some ty \<Rightarrow>
                  if ty = PAXOS_LEARN
                  then (case rd_learn buf 8 of
                          None \<Rightarrow> None
                        | Some m \<Rightarrow> Some (learner_handle_learn_msg m st1))
                  else Some st1))"

section \<open>Retransmission\<close>

definition lsync_wanted :: "learner \<Rightarrow> int \<Rightarrow> bool" where
  "lsync_wanted st i =
     (let r = learner_array st (GET_LEA_INDEX i)
      in (lr_iid r = i \<and> \<not> is_closed r) \<or> lr_iid r < i)"

text \<open>The loop state: the ids in the send buffer, \<^verbatim>\<open>buffer_size\<close>, and what was sent.\<close>

definition lsync_start :: int where
  "lsync_start = sizeof_learner_sync_msg + sizeof_paxos_msg"

definition lsync_step ::
    "learner \<Rightarrow> int \<Rightarrow> int list \<times> int \<times> datagram list \<Rightarrow> int list \<times> int \<times> datagram list" where
  "lsync_step st i = (\<lambda>(ids, buffer_size, sent).
     if lsync_wanted st i then
       (let ids' = ids @ [i]; buffer_size' = buffer_size + sizeof_int
        in if to_size_t (MAX_UDP_MSG_SIZE - buffer_size') < to_size_t sizeof_int
           then ([], lsync_start, sent @ [(Acceptors_Net, buffer_size', Lsync ids')])
           else (ids', buffer_size', sent))
     else (ids, buffer_size, sent))"

definition ask_retransmission :: "learner \<Rightarrow> learner" where
  "ask_retransmission st =
     (let (ids, buffer_size, sent) =
        fold (lsync_step st) [i32 (highest_delivered st + 1) .. highest_seen st - 1]
          ([], lsync_start, lear_sent st)
      in st\<lparr>lear_sent := (if length ids > 0 then sent @ [(Acceptors_Net, buffer_size, Lsync ids)]
                         else sent)\<rparr>)"

definition lsync_check :: "learner \<Rightarrow> learner" where
  "lsync_check st =
     (if highest_seen st > highest_delivered st then ask_retransmission st else st)\<lparr>lsync_armed := True\<rparr>"

section \<open>Start-up\<close>

definition static_learner_record :: learner_record where
  "static_learner_record = \<lparr>lr_iid = 0, lr_ballot = 0, lr_proposer_id = 0, lr_final_value = None,
     lr_final_value_size = 0, lr_learns = replicate (nat N_OF_ACCEPTORS) None\<rparr>"

definition learner_start :: learner where
  "learner_start = \<lparr>lea_quorum = quorum_of N_OF_ACCEPTORS, highest_delivered = -1, highest_seen = -1,
     learner_array = (\<lambda>_. static_learner_record),
     lear_recv_buffer = replicate (nat MAX_UDP_MSG_SIZE) 0, lsync_armed = True,
     delivered = [], lear_sent = []\<rparr>"

definition learner_init :: "bool \<Rightarrow> int \<Rightarrow> int \<Rightarrow> int + learner" where
  "learner_init callback_given sender_sock libevent_ret =
     (if \<not> callback_given then Inl (-1)
      else if sender_sock < 0 then Inl (-1)
      else if libevent_ret < 0 then Inl (-1)
      else Inr learner_start)"

end
