(* ===== verification/Proposer.thy ===== *)
theory Proposer
  imports Learner Leader
begin

text \<open>
  \<^verbatim>\<open>lib/proposer.c\<close>: the proposer's state and one definition per function. Two threads run this
  code: the client's, in \<^verbatim>\<open>proposer_submit_value\<close>, and the event loop's, in the delivery callback
  and the retry timers. Of \<^verbatim>\<open>proposer_submit_value\<close> only the two ends hold the mutex: the critical
  section at its start is one step, the assignments, the copy of the value and the send after it are
  a list of statements, one step each and one per byte copied, and a callback of the event loop may
  run between any two of them (\<open>submit_step\<close>, \<open>proposer_step\<close>).

  A callback is one step. What a delivery does after it released the mutex (another proposer's value
  while a client waits: \<^verbatim>\<open>amsg->iid\<close>, the retry fields, the send, the timer) writes, of the variables the
  client's statements read, only \<^verbatim>\<open>amsg->iid\<close>, which they read in their send and in the argument of their
  timer; a client's statement between these is the same as one before the callback, or for the client's own
  send and timer one after it, up to the order of the two datagrams and of the two timers. The client cannot
  enter another submission meanwhile, since only the event loop ends its wait. A send takes the buffer as it is at that
  moment, and every thread sees the writes of the other in their order.

  \<^verbatim>\<open>proposer_send_buffer\<close> is the header's two fields, the accept message \<open>amsg\<close> with the bytes its value
  size covers, and \<open>value_rest\<close>, what follows them; \<^verbatim>\<open>msg_size\<close> is the number of bytes a send hands to
  the socket. A send is recorded twice: \<open>prop_sent\<close> has the message in the buffer with that number,
  \<open>prop_wire\<close> the bytes themselves. The timers are the \<^verbatim>\<open>timeout_info\<close> blocks with an event pending.
\<close>

section \<open>State\<close>

record timeout_info =
  ti_instance_id :: int
  ti_hash :: int

record proposer =
  fixed_ballot :: int
  prop_proposer_id :: int
  client_waiting :: bool
  prop_current_iid :: int
  value_delivered :: int
  last_accept_iid :: int
  last_accept_hash :: int
  prop_msg_size :: int
  buf_size :: int
  buf_type :: int
  amsg :: accept_msg
  value_rest :: "byte list"
  prop_is_leader :: bool
  prop_leader :: leader
  has_client_deliver_func :: bool
  client_calls :: "delivery list"
  prop_timers :: "timeout_info list"
  prop_sent :: "datagram list"
  prop_wire :: "byte list list"

definition proposer_is_leader :: "proposer \<Rightarrow> bool" where
  "proposer_is_leader st = prop_is_leader st"

definition proposer_send_buffer :: "proposer \<Rightarrow> byte list" where
  "proposer_send_buffer st = le32 (buf_size st) @ le32 (buf_type st) @ accept_bytes (amsg st) @ value_rest st"

definition send_proposer_buffer :: "proposer \<Rightarrow> proposer" where
  "send_proposer_buffer st = st\<lparr>prop_sent := prop_sent st @ [(Acceptors_Net, prop_msg_size st, Accept (amsg st))],
     prop_wire := prop_wire st @ [take (nat (prop_msg_size st)) (proposer_send_buffer st)]\<rparr>"

section \<open>Retry timers\<close>

definition timer_current :: "proposer \<Rightarrow> timeout_info \<Rightarrow> bool" where
  "timer_current st ti \<longleftrightarrow> client_waiting st \<and> ti_instance_id ti = last_accept_iid st
     \<and> ti_hash ti = last_accept_hash st"

text \<open>The timer \<open>n\<close> fires: its block is set again, with the new hash, or freed.\<close>

definition proposer_check_timeout :: "nat \<Rightarrow> proposer \<Rightarrow> proposer" where
  "proposer_check_timeout n st =
     (let ti = prop_timers st ! n;
          rest = take n (prop_timers st) @ drop (Suc n) (prop_timers st);
          h = i32 (last_accept_hash st + 1)
      in if timer_current st ti
         then (send_proposer_buffer (st\<lparr>last_accept_hash := h\<rparr>))\<lparr>prop_timers := rest @ [ti\<lparr>ti_hash := h\<rparr>]\<rparr>
         else st\<lparr>prop_timers := rest\<rparr>)"

definition set_proposer_check_timeout :: "int \<Rightarrow> int \<Rightarrow> proposer \<Rightarrow> proposer" where
  "set_proposer_check_timeout instance_id h st =
     st\<lparr>prop_timers := prop_timers st @ [\<lparr>ti_instance_id = instance_id, ti_hash = h\<rparr>]\<rparr>"

section \<open>Delivery\<close>

text \<open>The part of \<^verbatim>\<open>proposer_deliver_callback\<close> for the value of another proposer.\<close>

definition send_for_next_instance :: "int \<Rightarrow> proposer \<Rightarrow> proposer" where
  "send_for_next_instance just_accepted st =
     (let st1 = send_proposer_buffer (st\<lparr>last_accept_iid := just_accepted,
            last_accept_hash := i32 (last_accept_hash st + 1),
            amsg := (amsg st)\<lparr>acm_iid := prop_current_iid st\<rparr>\<rparr>)
      in set_proposer_check_timeout (acm_iid (amsg st1)) (last_accept_hash st1) st1)"

definition proposer_deliver_callback :: "delivery \<Rightarrow> proposer \<Rightarrow> proposer option" where
  "proposer_deliver_callback d st =
     (let st0 = (if proposer_is_leader st then st\<lparr>prop_leader := leader_deliver_value (dl_iid d) (prop_leader st)\<rparr>
                 else st);
          just_accepted = prop_current_iid st0;
          st1 = st0\<lparr>prop_current_iid := i32 (just_accepted + 1)\<rparr>
      in if just_accepted \<noteq> dl_iid d then None
         else if \<not> client_waiting st1 then Some st1
         else
           (let st2 = (if has_client_deliver_func st1 then st1\<lparr>client_calls := client_calls st1 @ [d]\<rparr> else st1)
            in if prop_proposer_id st2 = dl_proposer d then Some (st2\<lparr>client_waiting := False\<rparr>)
               else Some (send_for_next_instance just_accepted st2)))"

section \<open>Submission\<close>

definition submit_too_big :: "byte list \<Rightarrow> bool" where
  "submit_too_big v \<longleftrightarrow> int (length v) > PAXOS_MAX_VALUE_SIZE"

definition submit_lock :: "proposer \<Rightarrow> proposer" where
  "submit_lock st = st\<lparr>client_waiting := True, value_delivered := 0, last_accept_iid := prop_current_iid st,
     last_accept_hash := 1,
     amsg := (amsg st)\<lparr>acm_iid := prop_current_iid st\<rparr>\<rparr>"

text \<open>
  The statements after the critical section, lines 187 to 198, in their order. Setting the value size
  moves the border between the bytes of the message and the rest of the buffer; \<^verbatim>\<open>memcpy\<close> writes one
  byte after the other.
\<close>

definition set_value_size :: "int \<Rightarrow> proposer \<Rightarrow> proposer" where
  "set_value_size n st =
     (let area = acm_value (amsg st) @ value_rest st
      in st\<lparr>amsg := (amsg st)\<lparr>acm_value_size := n, acm_value := take (nat n) area\<rparr>, value_rest := drop (nat n) area\<rparr>)"

definition copy_byte :: "byte list \<Rightarrow> nat \<Rightarrow> proposer \<Rightarrow> proposer" where
  "copy_byte v j st = st\<lparr>amsg := (amsg st)\<lparr>acm_value := (acm_value (amsg st))[j := v ! j]\<rparr>\<rparr>"

definition submit_tail :: "byte list \<Rightarrow> (proposer \<Rightarrow> proposer) list" where
  "submit_tail v =
     [\<lambda>st. st\<lparr>buf_type := PAXOS_ACCEPT\<rparr>,
      \<lambda>st. st\<lparr>buf_size := sizeof_accept_msg + int (length v)\<rparr>,
      \<lambda>st. st\<lparr>amsg := (amsg st)\<lparr>acm_ballot := fixed_ballot st\<rparr>\<rparr>,
      set_value_size (int (length v)),
      \<lambda>st. st\<lparr>amsg := (amsg st)\<lparr>acm_proposer_id := prop_proposer_id st\<rparr>\<rparr>]
     @ map (copy_byte v) [0..<length v]
     @ [\<lambda>st. st\<lparr>prop_msg_size := i32 (buf_size st + sizeof_paxos_msg)\<rparr>,
        send_proposer_buffer,
        \<lambda>st. set_proposer_check_timeout (acm_iid (amsg st)) 1 st]"

lemma length_submit_tail [simp]: "length (submit_tail v) = length v + 8"
  by (simp add: submit_tail_def)

text \<open>All of them without interruption.\<close>

definition submit_send :: "byte list \<Rightarrow> proposer \<Rightarrow> proposer" where
  "submit_send v st = fold (\<lambda>f. f) (submit_tail v) st"

text \<open>
  Where the client's thread is: outside; behind the critical section, with the number of statements
  it has executed since; or waiting for the condition.
\<close>

datatype client_pc = Outside | Filling "byte list" nat | Blocked "byte list"

inductive submit_step :: "client_pc \<times> proposer \<Rightarrow> client_pc \<times> proposer \<Rightarrow> bool" where
  fill: "k < length (submit_tail v) \<Longrightarrow> submit_step (Filling v k, st) (Filling v (Suc k), (submit_tail v ! k) st)"

inductive proposer_step :: "client_pc \<times> proposer \<Rightarrow> client_pc \<times> proposer \<Rightarrow> bool" where
  too_big: "submit_too_big v \<Longrightarrow> proposer_step (Outside, st) (Outside, st)"
| lock: "\<not> submit_too_big v \<Longrightarrow> proposer_step (Outside, st) (Filling v 0, submit_lock st)"
| block: "proposer_step (Filling v (length (submit_tail v)), st) (Blocked v, st)"
| wake: "\<not> client_waiting st \<Longrightarrow> proposer_step (Blocked v, st) (Outside, st)"
| deliver: "proposer_deliver_callback d st = Some st' \<Longrightarrow> proposer_step (pc, st) (pc, st')"
| timer: "n < length (prop_timers st) \<Longrightarrow> proposer_step (pc, st) (pc, proposer_check_timeout n st)"

inductive_cases submit_stepE: "submit_step (pc, st) (pc', st')"
inductive_cases proposer_stepE: "proposer_step (pc, st) (pc', st')"

section \<open>Start-up\<close>

definition static_accept :: accept_msg where
  "static_accept = \<lparr>acm_iid = 0, acm_ballot = 0, acm_value_size = 0, acm_proposer_id = 0, acm_value = []\<rparr>"

definition static_value_area :: "byte list" where
  "static_value_area = replicate (nat (MAX_UDP_MSG_SIZE - sizeof_paxos_msg - sizeof_accept_msg)) 0"

definition proposer_static :: proposer where
  "proposer_static = \<lparr>fixed_ballot = 0, prop_proposer_id = 0, client_waiting = False, prop_current_iid = 0,
     value_delivered = 0, last_accept_iid = 0, last_accept_hash = 0, prop_msg_size = 0, buf_size = 0, buf_type = 0,
     amsg = static_accept, value_rest = static_value_area, prop_is_leader = False,
     prop_leader = leader_static, has_client_deliver_func = False, client_calls = [], prop_timers = [],
     prop_sent = [], prop_wire = []\<rparr>"

text \<open>\<open>mutex_ret\<close> and \<open>sock\<close> are the answers of \<^verbatim>\<open>pthread_mutex_init\<close> and \<^verbatim>\<open>create_udp_sender\<close>.\<close>

definition proposer_init :: "int \<Rightarrow> int \<Rightarrow> int \<Rightarrow> bool \<Rightarrow> proposer \<Rightarrow> int \<times> proposer" where
  "proposer_init mutex_ret sock prop_id is_leader st =
     (let st1 = st\<lparr>prop_proposer_id := prop_id, prop_current_iid := 0,
                   prop_is_leader := (is_leader \<or> prop_is_leader st)\<rparr>
      in if mutex_ret \<noteq> 0 then (-1, st1)
         else if sock < 0 then (-1, st1)
         else
           (let st2 = st1\<lparr>fixed_ballot := i32 (MAX_PROPOSERS + prop_proposer_id st1)\<rparr>
            in if is_leader
               then (let (ret, l) = leader_init prop_id (prop_leader st2)
                     in if ret < 0 then (-1, st2\<lparr>prop_leader := l\<rparr>) else (0, st2\<lparr>prop_leader := l\<rparr>))
               else (0, st2)))"

definition proposer_init_and_deliver :: "int \<Rightarrow> int \<Rightarrow> int \<Rightarrow> bool \<Rightarrow> proposer \<Rightarrow> int \<times> proposer" where
  "proposer_init_and_deliver mutex_ret sock prop_id is_leader st =
     (let (ret, st1) = proposer_init mutex_ret sock (prop_proposer_id st) is_leader st
      in if ret = 0 then (0, st1\<lparr>has_client_deliver_func := True\<rparr>) else (-1, st1))"

end
