(* ===== verification/Learner_Correct.thy ===== *)
theory Learner_Correct
  imports Learner
begin

text \<open>
  The learner's invariant, over the set \<open>R\<close> of learn messages received so far. A slot's stored
  learns are messages of \<open>R\<close> for the slot's instance; a closed slot holds an instance of the
  window above the last delivered one and a value a quorum of acceptors reported at one ballot;
  the log of deliveries is the instances from 0 in order.
\<close>

section \<open>Votes and support\<close>

definition votes :: "learn_msg set \<Rightarrow> int \<Rightarrow> int \<Rightarrow> int set" where
  "votes R i b = {a \<in> acceptor_ids. \<exists>l\<in>R. lm_acceptor_id l = a \<and> lm_iid l = i \<and> lm_ballot l = b}"

definition supported :: "learn_msg set \<Rightarrow> delivery \<Rightarrow> bool" where
  "supported R d \<longleftrightarrow>
     quorum_of N_OF_ACCEPTORS \<le> int (card (votes R (dl_iid d) (dl_ballot d)))
   \<and> dl_size d = int (length (dl_value d))
   \<and> (\<exists>l\<in>R. lm_iid l = dl_iid d \<and> lm_ballot l = dl_ballot d \<and> lm_value l = dl_value d
        \<and> lm_proposer_id l = dl_proposer d)"

lemma supportedI:
  "quorum_of N_OF_ACCEPTORS \<le> int (card (votes R (dl_iid d) (dl_ballot d))) \<Longrightarrow>
   dl_size d = int (length (dl_value d)) \<Longrightarrow> l \<in> R \<Longrightarrow> lm_iid l = dl_iid d \<Longrightarrow>
   lm_ballot l = dl_ballot d \<Longrightarrow> lm_value l = dl_value d \<Longrightarrow> lm_proposer_id l = dl_proposer d \<Longrightarrow>
   supported R d"
  unfolding supported_def by blast

lemma finite_acceptor_ids [simp]: "finite acceptor_ids"
  by (simp add: acceptor_ids_def)

lemma finite_votes [simp]: "finite (votes R i b)"
  by (simp add: votes_def)

lemma votes_mono: "R \<subseteq> S \<Longrightarrow> votes R i b \<subseteq> votes S i b"
  by (auto simp: votes_def)

lemma supported_mono:
  assumes "supported R d" and "R \<subseteq> S"
  shows "supported S d"
proof -
  have "card (votes R (dl_iid d) (dl_ballot d)) \<le> card (votes S (dl_iid d) (dl_ballot d))"
    using assms(2) by (intro card_mono votes_mono) simp_all
  with assms show ?thesis unfolding supported_def by fastforce
qed

section \<open>The invariant of a slot\<close>

definition learns_ok :: "learn_msg set \<Rightarrow> learner_record \<Rightarrow> bool" where
  "learns_ok R r \<longleftrightarrow> length (lr_learns r) = nat N_OF_ACCEPTORS
     \<and> (\<forall>a l. a < length (lr_learns r) \<longrightarrow> lr_learns r ! a = Some l \<longrightarrow>
          l \<in> R \<and> lm_acceptor_id l = int a \<and> lm_iid l = lr_iid r)"

definition record_delivery :: "learner_record \<Rightarrow> byte list \<Rightarrow> delivery" where
  "record_delivery r v = \<lparr>dl_value = v, dl_size = lr_final_value_size r, dl_iid = lr_iid r,
     dl_ballot = lr_ballot r, dl_proposer = lr_proposer_id r\<rparr>"

definition closed_ok :: "learn_msg set \<Rightarrow> int \<Rightarrow> nat \<Rightarrow> learner_record \<Rightarrow> bool" where
  "closed_ok R h k r \<longleftrightarrow>
     (\<forall>v. lr_final_value r = Some v \<longrightarrow> supported R (record_delivery r v)
        \<and> GET_LEA_INDEX (lr_iid r) = k \<and> h < lr_iid r \<and> lr_iid r < h + 512
        \<and> lr_iid r \<le> 2147483135)"

text \<open>No ballot of an undecided, undelivered instance has a quorum among the stored learns.\<close>

definition undecided :: "int \<Rightarrow> learner_record \<Rightarrow> bool" where
  "undecided h r \<longleftrightarrow> (\<not> is_closed r \<and> h < lr_iid r \<longrightarrow>
     (\<forall>b. same_ballot_count b r < quorum_of N_OF_ACCEPTORS))"

definition slots_ok :: "learn_msg set \<Rightarrow> learner \<Rightarrow> bool" where
  "slots_ok R st \<longleftrightarrow> (\<forall>k. learns_ok R (learner_array st k)
     \<and> closed_ok R (highest_delivered st) k (learner_array st k))"

definition log_ok :: "learn_msg set \<Rightarrow> learner \<Rightarrow> bool" where
  "log_ok R st \<longleftrightarrow> map dl_iid (delivered st) = [0..highest_delivered st]
     \<and> (\<forall>d\<in>set (delivered st). supported R d)"

definition counters_ok :: "learner \<Rightarrow> bool" where
  "counters_ok st \<longleftrightarrow> lea_quorum st = quorum_of N_OF_ACCEPTORS
     \<and> -1 \<le> highest_delivered st \<and> highest_delivered st \<le> 2147483135"

definition all_undecided :: "learner \<Rightarrow> bool" where
  "all_undecided st \<longleftrightarrow> (\<forall>k. undecided (highest_delivered st) (learner_array st k))"

definition drained :: "learner \<Rightarrow> bool" where
  "drained st \<longleftrightarrow> \<not> is_closed (learner_array st (GET_LEA_INDEX (highest_delivered st + 1)))"

definition core_inv :: "learn_msg set \<Rightarrow> learner \<Rightarrow> bool" where
  "core_inv R st \<longleftrightarrow> slots_ok R st \<and> log_ok R st \<and> counters_ok st"

definition learner_inv :: "learn_msg set \<Rightarrow> learner \<Rightarrow> bool" where
  "learner_inv R st \<longleftrightarrow> core_inv R st \<and> all_undecided st \<and> drained st"

definition learn_ok :: "learn_msg \<Rightarrow> bool" where
  "learn_ok m \<longleftrightarrow> wf_learn m \<and> lm_iid m \<le> 2147483135 \<and> lm_value_size m \<le> PAXOS_MAX_VALUE_SIZE"

lemma core_inv_mono: "core_inv R st \<Longrightarrow> R \<subseteq> S \<Longrightarrow> core_inv S st"
  unfolding core_inv_def slots_ok_def log_ok_def learns_ok_def closed_ok_def
  using supported_mono by blast

text \<open>Counting the equal ballots of a slot counts acceptors.\<close>

lemma same_ballot_count_card:
  "same_ballot_count b r = int (card {a. a < length (lr_learns r)
     \<and> (\<exists>l. lr_learns r ! a = Some l \<and> lm_ballot l = b)})"
proof -
  have "{a. a < length (lr_learns r) \<and> (\<exists>l. lr_learns r ! a = Some l \<and> lm_ballot l = b)}
      = {a. a < length (lr_learns r)
          \<and> (case lr_learns r ! a of None \<Rightarrow> False | Some m \<Rightarrow> lm_ballot m = b)}"
    by (auto split: option.splits)
  then show ?thesis by (simp add: same_ballot_count_def length_filter_conv_card)
qed

lemma count_votes:
  assumes "learns_ok R r"
  shows "same_ballot_count b r \<le> int (card (votes R (lr_iid r) b))"
proof -
  let ?A = "{a. a < length (lr_learns r) \<and> (\<exists>l. lr_learns r ! a = Some l \<and> lm_ballot l = b)}"
  have "int ` ?A \<subseteq> votes R (lr_iid r) b"
    using assms by (fastforce simp: learns_ok_def votes_def acceptor_ids_def)
  then have "card (int ` ?A) \<le> card (votes R (lr_iid r) b)" by (intro card_mono) simp_all
  then show ?thesis by (simp add: same_ballot_count_card card_image)
qed

section \<open>The delivery loop\<close>

lemma deliver_one_core:
  assumes inv: "core_inv R st" and und: "all_undecided st" and i: "i = highest_delivered st + 1"
    and v: "lr_final_value (learner_array st (GET_LEA_INDEX i)) = Some v"
  shows "core_inv R (deliver_one i v st) \<and> all_undecided (deliver_one i v st)
    \<and> highest_delivered (deliver_one i v st) = i \<and> i \<le> 2147483135"
proof -
  let ?k = "GET_LEA_INDEX i" and ?st = "deliver_one i v st"
  let ?r = "learner_array st ?k"
  have r: "supported R (record_delivery ?r v)" "GET_LEA_INDEX (lr_iid ?r) = ?k"
    "highest_delivered st < lr_iid ?r" "lr_iid ?r < highest_delivered st + 512" "lr_iid ?r \<le> 2147483135"
    using inv v by (auto simp: core_inv_def slots_ok_def closed_ok_def)
  then have iid: "lr_iid ?r = i"
    using i GET_LEA_INDEX_window [of "lr_iid ?r" i i] by simp
  have size: "lr_final_value_size ?r = int (length v)"
    using r(1) by (simp add: supported_def record_delivery_def)
  have st: "delivered ?st = delivered st @ [record_delivery ?r v]" "highest_delivered ?st = i"
    "lea_quorum ?st = lea_quorum st"
    "learner_array ?st = (learner_array st)(?k := ?r\<lparr>lr_final_value := None\<rparr>)"
    using iid size by (simp_all add: deliver_one_def record_delivery_def Let_def)
  have "closed_ok R i k (learner_array st k)" if "k \<noteq> ?k" for k
  proof -
    have "closed_ok R (highest_delivered st) k (learner_array st k)"
      using inv by (simp add: core_inv_def slots_ok_def)
    moreover have "lr_iid (learner_array st k) \<noteq> i" if "GET_LEA_INDEX (lr_iid (learner_array st k)) = k"
      using \<open>k \<noteq> ?k\<close> that by auto
    ultimately show ?thesis using i by (fastforce simp: closed_ok_def)
  qed
  then have "slots_ok R ?st"
    using inv by (auto simp: core_inv_def slots_ok_def st learns_ok_def closed_ok_def)
  moreover have "log_ok R ?st"
  proof -
    have "[0..i] = [0..highest_delivered st] @ [i]"
      using inv i upto_rec2 [of 0 i] by (simp add: core_inv_def counters_ok_def)
    then show ?thesis
      using inv r(1) iid by (simp add: core_inv_def log_ok_def st) (simp add: record_delivery_def)
  qed
  moreover have "-1 \<le> i" "i \<le> 2147483135"
    using inv i r(5) iid by (simp_all add: core_inv_def counters_ok_def)
  then have "counters_ok ?st"
    using inv by (simp add: core_inv_def counters_ok_def st)
  moreover have "undecided i (learner_array ?st k)" for k
  proof (cases "k = ?k")
    case True
    then show ?thesis using iid by (simp add: undecided_def st)
  next
    case False
    have "undecided (highest_delivered st) (learner_array st k)" using und by (simp add: all_undecided_def)
    moreover have "highest_delivered st < i" using i by simp
    ultimately have "undecided i (learner_array st k)" by (auto simp: undecided_def)
    then show ?thesis using False by (simp add: st)
  qed
  then have "all_undecided ?st" by (simp add: all_undecided_def st(2))
  ultimately show ?thesis using st(2) r(5) iid by (simp add: core_inv_def)
qed

lemma deliver_values_inv:
  assumes "core_inv R st" and "all_undecided st" and "i = highest_delivered st + 1"
  shows "learner_inv R (deliver_values i st)"
  using assms
proof (induction i st rule: deliver_values.induct)
  case (1 i st)
  show ?case
  proof (cases "lr_final_value (learner_array st (GET_LEA_INDEX i))")
    case None
    then have "deliver_values i st = st" by (simp add: deliver_values.simps [of i st])
    with None 1 show ?thesis by (simp add: learner_inv_def drained_def is_closed_def)
  next
    case (Some v)
    note one = deliver_one_core [OF "1.prems" Some]
    have "0 \<le> i" using "1.prems" by (simp add: core_inv_def counters_ok_def)
    with one have "i32 (i + 1) = i + 1" by simp
    with one "1.IH" [OF Some] have "learner_inv R (deliver_values (i32 (i + 1)) (deliver_one i v st))"
      by simp
    with Some show ?thesis by (simp add: deliver_values.simps [of i st])
  qed
qed

section \<open>Recording a learn message\<close>

text \<open>
  What \<open>update_record\<close> leaves: the invariant over the messages with the new one; and, when it
  reports the message as relevant, an open slot of the window that holds it.
\<close>

definition relevant :: "learn_msg \<Rightarrow> learner \<Rightarrow> bool" where
  "relevant m st \<longleftrightarrow>
     (let r = learner_array st (GET_LEA_INDEX (lm_iid m))
      in lr_iid r = lm_iid m \<and> \<not> is_closed r
       \<and> highest_delivered st < lm_iid m \<and> lm_iid m < highest_delivered st + 512
       \<and> 0 \<le> lm_acceptor_id m \<and> lm_acceptor_id m < N_OF_ACCEPTORS
       \<and> lr_learns r ! nat (lm_acceptor_id m) = Some m
       \<and> (\<forall>b. b \<noteq> lm_ballot m \<longrightarrow> same_ballot_count b r < quorum_of N_OF_ACCEPTORS))"

lemma count_update_le:
  assumes "b \<noteq> lm_ballot m"
  shows "same_ballot_count b (r\<lparr>lr_learns := (lr_learns r)[a := Some m]\<rparr>) \<le> same_ballot_count b r"
proof -
  have "card {x. x < length (lr_learns r) \<and> (\<exists>l. (lr_learns r)[a := Some m] ! x = Some l \<and> lm_ballot l = b)}
      \<le> card {x. x < length (lr_learns r) \<and> (\<exists>l. lr_learns r ! x = Some l \<and> lm_ballot l = b)}"
  proof (rule card_mono)
    show "{x. x < length (lr_learns r) \<and> (\<exists>l. (lr_learns r)[a := Some m] ! x = Some l \<and> lm_ballot l = b)}
      \<subseteq> {x. x < length (lr_learns r) \<and> (\<exists>l. lr_learns r ! x = Some l \<and> lm_ballot l = b)}"
    proof safe
      fix x l
      assume "x < length (lr_learns r)" "(lr_learns r)[a := Some m] ! x = Some l" "b = lm_ballot l"
      then show "\<exists>la. lr_learns r ! x = Some la \<and> lm_ballot la = lm_ballot l"
        using assms by (cases "x = a") auto
    qed
  qed simp
  then show ?thesis by (simp add: same_ballot_count_card)
qed

lemma add_learn_ok:
  assumes r: "learns_ok R r" "lr_iid r = lm_iid m" "\<not> is_closed r"
    and und: "\<forall>b. same_ballot_count b r < quorum_of N_OF_ACCEPTORS"
    and add: "add_learn_to_record r m = (ret, r')"
  shows "learns_ok (insert m R) r' \<and> lr_iid r' = lm_iid m \<and> \<not> is_closed r'
    \<and> (if ret = 0 then r' = r
       else 0 \<le> lm_acceptor_id m \<and> lm_acceptor_id m < N_OF_ACCEPTORS
         \<and> lr_learns r' ! nat (lm_acceptor_id m) = Some m
         \<and> (\<forall>b. b \<noteq> lm_ballot m \<longrightarrow> same_ballot_count b r' < quorum_of N_OF_ACCEPTORS))"
proof (cases "ret = 0")
  case True
  with add have "r' = r"
    by (auto simp: add_learn_to_record_def Let_def split: if_splits option.splits)
  with r True show ?thesis by (auto simp: learns_ok_def)
next
  case False
  let ?a = "nat (lm_acceptor_id m)"
  from False add have a: "0 \<le> lm_acceptor_id m" "lm_acceptor_id m < N_OF_ACCEPTORS"
    and r': "r' = r\<lparr>lr_learns := (lr_learns r)[?a := Some m]\<rparr>"
    by (auto simp: add_learn_to_record_def Let_def split: if_splits option.splits)
  have len: "?a < length (lr_learns r)" using r(1) a by (simp add: learns_ok_def)
  have "learns_ok (insert m R) r'"
    using r(1,2) len a by (auto simp: learns_ok_def r' nth_list_update)
  moreover have "\<forall>b. b \<noteq> lm_ballot m \<longrightarrow> same_ballot_count b r' < quorum_of N_OF_ACCEPTORS"
    using und count_update_le [of _ m r ?a] by (auto simp: r' intro: le_less_trans)
  ultimately show ?thesis using False r len a by (simp add: r' is_closed_def)
qed

lemma count_replicate [simp]:
  "lr_learns r = replicate n None \<Longrightarrow> same_ballot_count b r = 0"
  by (simp add: same_ballot_count_def)

lemma clean_record_ok:
  "learns_ok R (clean_record i r) \<and> lr_iid (clean_record i r) = i \<and> \<not> is_closed (clean_record i r)
   \<and> (\<forall>b. same_ballot_count b (clean_record i r) < quorum_of N_OF_ACCEPTORS)"
proof -
  have "same_ballot_count b (clean_record i r) = 0" for b
    by (rule count_replicate [of _ 3]) (simp add: clean_record_def c_simps)
  then show ?thesis
    by (simp add: learns_ok_def clean_record_def is_closed_def)
qed

text \<open>The record the slot holds before the message is added: cleaned, or as it was.\<close>

lemma update_record_ok:
  assumes inv: "learner_inv R st" and m: "learn_ok m" and upd: "update_record m st = (ret, st')"
  shows "core_inv (insert m R) st' \<and> highest_delivered st' = highest_delivered st
    \<and> (if ret = 0 then all_undecided st' \<and> drained st'
       else relevant m st' \<and> (\<forall>k. k \<noteq> GET_LEA_INDEX (lm_iid m) \<longrightarrow>
              undecided (highest_delivered st') (learner_array st' k)))"
proof -
  let ?k = "GET_LEA_INDEX (lm_iid m)"
  let ?r = "learner_array st ?k"
  have core: "core_inv (insert m R) st" using inv core_inv_mono [of R st "insert m R"] by (auto simp: learner_inv_def)
  have "-1 \<le> highest_delivered st" "highest_delivered st \<le> 2147483135"
    using inv by (auto simp: learner_inv_def core_inv_def counters_ok_def)
  then have lim: "i32 (highest_delivered st + LEARNER_ARRAY_SIZE) = highest_delivered st + 512"
    by (simp add: c_simps)
  have same: ?thesis if "st' = st" "ret = 0"
    using that core inv by (simp add: learner_inv_def)
  show ?thesis
  proof (cases "lm_iid m \<ge> highest_delivered st + 512 \<or> lm_iid m \<le> highest_delivered st
      \<or> (lr_iid ?r = lm_iid m \<and> is_closed ?r)")
    case True
    with upd lim have "st' = st \<and> ret = 0" by (auto simp: update_record_def Let_def split: if_splits)
    with same show ?thesis by simp
  next
    case False
    define r0 where "r0 = (if lr_iid ?r \<noteq> lm_iid m then clean_record (lm_iid m) ?r else ?r)"
    obtain r' where add: "add_learn_to_record r0 m = (ret, r')"
      and st': "st' = st\<lparr>learner_array := (learner_array st)(?k := r')\<rparr>"
      using upd False lim
      by (cases "lr_iid ?r = lm_iid m"; cases "add_learn_to_record r0 m")
        (auto simp: update_record_def r0_def Let_def split: prod.splits)
    have "learns_ok R ?r" "undecided (highest_delivered st) ?r"
      using inv by (auto simp: learner_inv_def core_inv_def slots_ok_def all_undecided_def)
    then have r0: "learns_ok R r0" "lr_iid r0 = lm_iid m" "\<not> is_closed r0"
      "\<forall>b. same_ballot_count b r0 < quorum_of N_OF_ACCEPTORS"
      using False clean_record_ok [of R "lm_iid m" ?r] by (auto simp: r0_def undecided_def)
    note ok = add_learn_ok [OF r0 add]
    have "closed_ok (insert m R) h k r'" for h k using ok by (simp add: closed_ok_def is_closed_def)
    then have core': "core_inv (insert m R) st'"
      using core ok by (auto simp: core_inv_def slots_ok_def log_ok_def counters_ok_def st')
    have und: "undecided (highest_delivered st) (learner_array st k)" for k
      using inv by (simp add: learner_inv_def all_undecided_def)
    show ?thesis
    proof (cases "ret = 0")
      case True
      with ok have "r' = r0" by simp
      then have "all_undecided st'" using und r0 by (auto simp: all_undecided_def undecided_def st')
      moreover have "drained st'"
        using inv r0 \<open>r' = r0\<close> by (auto simp: learner_inv_def drained_def st')
      ultimately show ?thesis using True core' by (simp add: st')
    next
      case False
      then show ?thesis
        using core' und ok \<open>\<not> (lm_iid m \<ge> highest_delivered st + 512 \<or> _)\<close>
        by (auto simp: relevant_def st' Let_def)
    qed
  qed
qed

section \<open>Closing and the whole handler\<close>

lemma check_quorum_ok:
  assumes core: "core_inv R st" and rel: "relevant m st" and m: "learn_ok m"
    and rest: "\<forall>k. k \<noteq> GET_LEA_INDEX (lm_iid m) \<longrightarrow> undecided (highest_delivered st) (learner_array st k)"
    and chk: "check_quorum m st = (ret, st')"
  shows "core_inv R st' \<and> all_undecided st' \<and> highest_delivered st' = highest_delivered st
    \<and> (\<forall>k. k \<noteq> GET_LEA_INDEX (lm_iid m) \<longrightarrow> learner_array st' k = learner_array st k)
    \<and> (ret = 0 \<longrightarrow> learner_array st' = learner_array st)"
proof -
  let ?k = "GET_LEA_INDEX (lm_iid m)"
  let ?r = "learner_array st ?k"
  have q: "lea_quorum st = quorum_of N_OF_ACCEPTORS" using core by (simp add: core_inv_def counters_ok_def)
  have r: "learns_ok R ?r" using core by (simp add: core_inv_def slots_ok_def)
  show ?thesis
  proof (cases "same_ballot_count (lm_ballot m) ?r \<ge> quorum_of N_OF_ACCEPTORS")
    case False
    then have "ret = 0" "st' = st" using chk q by (simp_all add: check_quorum_def Let_def)
    moreover have "undecided (highest_delivered st) ?r"
      using False rel by (force simp: undecided_def relevant_def Let_def)
    ultimately show ?thesis using core rest by (metis all_undecided_def)
  next
    case True
    let ?r' = "?r\<lparr>lr_ballot := lm_ballot m, lr_proposer_id := lm_proposer_id m,
      lr_final_value_size := lm_value_size m, lr_final_value := Some (lm_value m)\<rparr>"
    have st': "st' = st\<lparr>learner_array := (learner_array st)(?k := ?r')\<rparr>"
      and ret: "ret = 1"
      using True chk q m by (simp_all add: check_quorum_def Let_def learn_ok_def wf_learn_def)
    have "nat (lm_acceptor_id m) < length (lr_learns ?r)"
      "lr_learns ?r ! nat (lm_acceptor_id m) = Some m"
      using rel r by (simp_all add: relevant_def learns_ok_def Let_def)
    then have "m \<in> R" using r unfolding learns_ok_def by blast
    moreover have "quorum_of N_OF_ACCEPTORS \<le> int (card (votes R (lm_iid m) (lm_ballot m)))"
      using True count_votes [OF r, of "lm_ballot m"] rel by (simp add: relevant_def Let_def)
    ultimately have "supported R (record_delivery ?r' (lm_value m))"
      using rel m by (intro supportedI [of R "record_delivery ?r' (lm_value m)" m])
        (simp_all add: record_delivery_def relevant_def learn_ok_def wf_learn_def Let_def)
    then have "closed_ok R (highest_delivered st) ?k ?r'"
      using rel m by (simp add: closed_ok_def relevant_def learn_ok_def Let_def)
    moreover have "learns_ok R ?r' = learns_ok R ?r" by (simp add: learns_ok_def)
    then have "learns_ok R ?r'" using r by (rule iffD2)
    ultimately have "core_inv R st'"
      using core by (auto simp: core_inv_def slots_ok_def log_ok_def counters_ok_def st')
    moreover have "all_undecided st'"
      using rest by (auto simp: all_undecided_def st' undecided_def is_closed_def)
    ultimately show ?thesis using ret by (simp add: st')
  qed
qed

lemma drained_other:
  assumes "drained st" and "highest_delivered st' = highest_delivered st"
    and "learner_array st' (GET_LEA_INDEX (highest_delivered st + 1))
       = learner_array st (GET_LEA_INDEX (highest_delivered st + 1))"
  shows "drained st'"
  using assms by (simp add: drained_def)

lemma learner_handle_learn_msg_inv:
  assumes inv: "learner_inv R st" and m: "learn_ok m"
  shows "learner_inv (insert m R) (learner_handle_learn_msg m st)"
proof -
  define st1 where "st1 = (if lm_iid m > highest_seen st then st\<lparr>highest_seen := lm_iid m\<rparr> else st)"
  have inv1: "learner_inv R st1"
    using inv by (auto simp: st1_def learner_inv_def core_inv_def slots_ok_def log_ok_def
        counters_ok_def all_undecided_def drained_def)
  obtain ret st2 where upd: "update_record m st1 = (ret, st2)" by (cases "update_record m st1")
  note u = update_record_ok [OF inv1 m upd]
  show ?thesis
  proof (cases "ret = 0")
    case True
    with u upd show ?thesis by (simp add: learner_handle_learn_msg_def st1_def learner_inv_def Let_def)
  next
    case False
    obtain closed st3 where chk: "check_quorum m st2 = (closed, st3)" by (cases "check_quorum m st2")
    from False u have rel: "relevant m st2" and rest: "\<forall>k. k \<noteq> GET_LEA_INDEX (lm_iid m) \<longrightarrow>
        undecided (highest_delivered st2) (learner_array st2 k)"
      unfolding if_not_P [OF False] by blast+
    have core2: "core_inv (insert m R) st2" using u by simp
    note c = check_quorum_ok [OF core2 rel m rest chk]
    have h: "-1 \<le> highest_delivered st3" "highest_delivered st3 \<le> 2147483135"
      using c by (auto simp: core_inv_def counters_ok_def)
    then have next_id: "i32 (highest_delivered st3 + 1) = highest_delivered st3 + 1" by simp
    have run: "learner_handle_learn_msg m st
        = (if closed = 0 then st3
           else if lm_iid m = highest_delivered st3 + 1 then deliver_values (lm_iid m) st3 else st3)"
      using False upd chk next_id by (simp add: learner_handle_learn_msg_def st1_def Let_def)
    show ?thesis
    proof (cases "closed \<noteq> 0 \<and> lm_iid m = highest_delivered st3 + 1")
      case True
      with run c show ?thesis by (simp add: deliver_values_inv)
    next
      case False
      have drained2: "drained st2" if "lm_iid m \<noteq> highest_delivered st2 + 1"
      proof -
        have "GET_LEA_INDEX (highest_delivered st2 + 1) \<noteq> GET_LEA_INDEX (lm_iid m)"
          using that rel GET_LEA_INDEX_window [of "highest_delivered st2 + 1" "lm_iid m"
              "highest_delivered st2 + 1"] by (auto simp: relevant_def Let_def)
        then have "learner_array st2 (GET_LEA_INDEX (highest_delivered st2 + 1))
            = learner_array st1 (GET_LEA_INDEX (highest_delivered st2 + 1))"
          using upd by (auto simp: update_record_def Let_def split: if_splits prod.splits)
        then show ?thesis
          using inv1 u by (intro drained_other [of st1 st2]) (simp_all add: learner_inv_def)
      qed
      have "drained st3"
      proof (cases "lm_iid m = highest_delivered st2 + 1")
        case True
        with False c have "closed = 0" by simp
        with c rel True show ?thesis by (simp add: drained_def relevant_def Let_def)
      next
        case ne: False
        have "GET_LEA_INDEX (highest_delivered st2 + 1) \<noteq> GET_LEA_INDEX (lm_iid m)"
          using ne rel GET_LEA_INDEX_window [of "highest_delivered st2 + 1" "lm_iid m"
              "highest_delivered st2 + 1"] by (auto simp: relevant_def Let_def)
        with c drained2 [OF ne] show ?thesis by (intro drained_other [of st2 st3]) simp_all
      qed
      with False run c show ?thesis by (auto simp: learner_inv_def)
    qed
  qed
qed

section \<open>Runs\<close>

lemma learner_start_inv: "learner_inv {} learner_start"
  by (simp add: learner_inv_def core_inv_def slots_ok_def learns_ok_def closed_ok_def log_ok_def
      counters_ok_def all_undecided_def undecided_def drained_def is_closed_def learner_start_def
      static_learner_record_def)

lemma learner_run_inv:
  assumes "\<forall>m\<in>set ms. learn_ok m"
  shows "learner_inv (set ms) (fold learner_handle_learn_msg ms learner_start)"
  using assms
proof (induction ms rule: rev_induct)
  case Nil
  show ?case by (simp add: learner_start_inv)
next
  case (snoc m ms)
  then show ?case by (simp add: learner_handle_learn_msg_inv)
qed

end
