(* ===== verification/Learner_Properties.thy ===== *)
theory Learner_Properties
  imports Learner_Correct "HOL-Library.Sublist"
begin

text \<open>
  The properties of the learner: delivery in order and without gaps, delivery only of what a
  quorum reported, no decided instance left undelivered, agreement of two learners on the fast
  path, retransmission requests, and the packets it reads.
\<close>

definition learner_run :: "learn_msg list \<Rightarrow> learner" where
  "learner_run ms = fold learner_handle_learn_msg ms learner_start"

lemma learner_run_ok: "\<forall>m\<in>set ms. learn_ok m \<Longrightarrow> learner_inv (set ms) (learner_run ms)"
  by (simp add: learner_run_def learner_run_inv)

section \<open>A concrete run for the witnesses\<close>

text \<open>Three acceptors report the value \<open>hi\<close> of proposer 1 for instance 0 at ballot 11.\<close>

definition wit_learn :: "int \<Rightarrow> learn_msg" where
  "wit_learn a = \<lparr>lm_acceptor_id = a, lm_iid = 0, lm_ballot = 11, lm_proposer_id = 1,
     lm_value_size = 2, lm_value = [104, 105]\<rparr>"

definition wit_learns :: "learn_msg list" where
  "wit_learns = [wit_learn 0, wit_learn 1, wit_learn 2]"

definition wit_delivery :: delivery where
  "wit_delivery = \<lparr>dl_value = [104, 105], dl_size = 2, dl_iid = 0, dl_ballot = 11, dl_proposer = 1\<rparr>"

lemma wit_learns_ok: "\<forall>m\<in>set wit_learns. learn_ok m"
  by (simp add: wit_learns_def wit_learn_def learn_ok_def wf_learn_def in_i32_def c_simps)

lemmas learner_eval = learner_handle_learn_msg_def update_record_def add_learn_to_record_def
  check_quorum_def same_ballot_count_def clean_record_def deliver_values.simps deliver_one_def
  is_closed_def GET_LEA_INDEX_mod c_simps Let_def

lemma wit_run_delivered: "delivered (learner_run wit_learns) = [wit_delivery]"
  and wit_run_highest: "highest_delivered (learner_run wit_learns) = 0"
  by (simp_all add: learner_run_def wit_learns_def wit_learn_def learner_start_def static_learner_record_def
      learner_eval quorum_of_def numeral_3_eq_3 wit_delivery_def)

section \<open>Delivery\<close>

text \<open>C5. Whatever learn messages arrive, in whatever order and however often, the learner calls
  the client once for each instance, from 0 to \<^verbatim>\<open>highest_delivered\<close>, in order and without gaps.
  Instance ids are taken below the point where the window arithmetic would overflow.\<close>

theorem learner_delivers_in_order:
  assumes "\<forall>m\<in>set ms. learn_ok m"
  shows "map dl_iid (delivered (learner_run ms)) = [0..highest_delivered (learner_run ms)]"
  using learner_run_ok [OF assms] by (simp add: learner_inv_def core_inv_def log_ok_def)

theorem learner_delivers_in_order_witness:
  "map dl_iid (delivered (learner_run wit_learns)) = [0..0]
   \<and> length (delivered (learner_run wit_learns)) = 1"
  using learner_delivers_in_order [OF wit_learns_ok] wit_run_highest wit_run_delivered
  by simp

text \<open>A ballot of an instance stands for one value.\<close>

definition ballot_value :: "learn_msg set \<Rightarrow> bool" where
  "ballot_value R \<longleftrightarrow> (\<forall>l\<in>R. \<forall>l'\<in>R. lm_iid l = lm_iid l' \<and> lm_ballot l = lm_ballot l' \<longrightarrow>
     lm_value l = lm_value l' \<and> lm_proposer_id l = lm_proposer_id l')"

text \<open>C4. What stands behind a delivery: a quorum of distinct acceptors sent learn messages for its instance
  at its ballot, and at least one of these messages carried its value; the value fits \<^verbatim>\<open>deliver_buffer\<close>. The
  learner compares ballots and not values, so that this is all there is in general; when a ballot of
  an instance stands for one value, every acceptor of the quorum reported the delivered value. Learn messages are
  taken well formed and with values of at most \<^verbatim>\<open>PAXOS_MAX_VALUE_SIZE\<close> bytes; the learner itself checks
  neither.\<close>

theorem learner_delivers_chosen:
  assumes "\<forall>m\<in>set ms. learn_ok m" and "d \<in> set (delivered (learner_run ms))"
  shows "quorum_of N_OF_ACCEPTORS \<le> int (card (votes (set ms) (dl_iid d) (dl_ballot d)))
    \<and> dl_size d = int (length (dl_value d)) \<and> dl_size d \<le> PAXOS_MAX_VALUE_SIZE
    \<and> (\<exists>l\<in>set ms. lm_iid l = dl_iid d \<and> lm_ballot l = dl_ballot d \<and> lm_value l = dl_value d
         \<and> lm_proposer_id l = dl_proposer d)
    \<and> (ballot_value (set ms) \<longrightarrow> quorum_of N_OF_ACCEPTORS \<le> int (card {a \<in> acceptor_ids. \<exists>l\<in>set ms.
         lm_acceptor_id l = a \<and> lm_iid l = dl_iid d \<and> lm_value l = dl_value d \<and> lm_proposer_id l = dl_proposer d}))"
proof -
  let ?Q = "{a \<in> acceptor_ids. \<exists>l\<in>set ms.
    lm_acceptor_id l = a \<and> lm_iid l = dl_iid d \<and> lm_value l = dl_value d \<and> lm_proposer_id l = dl_proposer d}"
  have d: "supported (set ms) d"
    using learner_run_ok [OF assms(1)] assms(2) by (simp add: learner_inv_def core_inv_def log_ok_def)
  then obtain l where "l \<in> set ms" "lm_value l = dl_value d" unfolding supported_def by blast
  then have "int (length (dl_value d)) \<le> PAXOS_MAX_VALUE_SIZE"
    using assms(1) by (auto simp: learn_ok_def wf_learn_def)
  moreover have "quorum_of N_OF_ACCEPTORS \<le> int (card ?Q)" if one: "ballot_value (set ms)"
  proof -
    from d obtain l where l: "l \<in> set ms" "lm_iid l = dl_iid d" "lm_ballot l = dl_ballot d" "lm_value l = dl_value d"
        "lm_proposer_id l = dl_proposer d"
      unfolding supported_def by blast
    have "votes (set ms) (dl_iid d) (dl_ballot d) \<subseteq> ?Q"
    proof
      fix a assume "a \<in> votes (set ms) (dl_iid d) (dl_ballot d)"
      then obtain l' where l': "a \<in> acceptor_ids" "l' \<in> set ms" "lm_acceptor_id l' = a" "lm_iid l' = dl_iid d" "lm_ballot l' = dl_ballot d"
        by (auto simp: votes_def)
      moreover have "lm_value l' = lm_value l \<and> lm_proposer_id l' = lm_proposer_id l"
        using one l l' unfolding ballot_value_def by metis
      ultimately show "a \<in> ?Q" using l by auto
    qed
    moreover have "finite ?Q" by (simp add: acceptor_ids_def)
    ultimately have "card (votes (set ms) (dl_iid d) (dl_ballot d)) \<le> card ?Q" by (rule card_mono [rotated])
    then show ?thesis using d by (simp add: supported_def)
  qed
  ultimately show ?thesis using d by (simp add: supported_def)
qed

theorem learner_delivers_chosen_witness:
  "wit_delivery \<in> set (delivered (learner_run wit_learns))
   \<and> quorum_of N_OF_ACCEPTORS \<le> int (card (votes (set wit_learns) 0 11))"
  using learner_delivers_chosen [OF wit_learns_ok, of wit_delivery] wit_run_delivered
  by (simp add: wit_delivery_def)

text \<open>C22. The learner holds nothing back: after every message the next instance to deliver is not
  closed, and no ballot has a quorum among the learn messages stored for it.\<close>

theorem learner_holds_nothing_back:
  assumes "\<forall>m\<in>set ms. learn_ok m"
  defines "st \<equiv> learner_run ms"
  defines "r \<equiv> learner_array st (GET_LEA_INDEX (highest_delivered st + 1))"
  shows "\<not> is_closed r
    \<and> (lr_iid r = highest_delivered st + 1 \<longrightarrow> same_ballot_count b r < quorum_of N_OF_ACCEPTORS)"
  using learner_run_ok [OF assms(1)]
  by (simp add: learner_inv_def drained_def all_undecided_def undecided_def r_def st_def)

theorem learner_holds_nothing_back_witness:
  "same_ballot_count 12 (learner_array (learner_run (wit_learns @ [\<lparr>lm_acceptor_id = 0, lm_iid = 1,
       lm_ballot = 12, lm_proposer_id = 2, lm_value_size = 0, lm_value = []\<rparr>])) 1) < 3"
proof -
  let ?m = "\<lparr>lm_acceptor_id = 0, lm_iid = 1, lm_ballot = 12, lm_proposer_id = 2,
       lm_value_size = 0, lm_value = []\<rparr>"
  let ?ms = "wit_learns @ [?m]"
  have ok: "\<forall>m\<in>set ?ms. learn_ok m"
  proof -
    have "learn_ok ?m" by (simp add: learn_ok_def wf_learn_def in_i32_def c_simps)
    then show ?thesis using wit_learns_ok by simp
  qed
  have "highest_delivered (learner_run ?ms) = 0 \<and> lr_iid (learner_array (learner_run ?ms) 1) = 1"
    by (simp add: learner_run_def wit_learns_def wit_learn_def learner_start_def static_learner_record_def
        learner_eval quorum_of_def numeral_3_eq_3)
  with ok learner_holds_nothing_back [OF ok] show ?thesis by (simp add: GET_LEA_INDEX_mod)
qed

section \<open>Agreement of two learners\<close>

text \<open>
  On the fast path an acceptor accepts one value per instance, and a ballot belongs to one
  proposer, which sends one value at it.
\<close>

definition one_vote :: "learn_msg set \<Rightarrow> bool" where
  "one_vote R \<longleftrightarrow> (\<forall>l\<in>R. \<forall>l'\<in>R. lm_acceptor_id l = lm_acceptor_id l' \<and> lm_iid l = lm_iid l' \<longrightarrow>
     lm_ballot l = lm_ballot l')"

lemma supported_agree:
  assumes "one_vote R" "ballot_value R" and "supported R d" "supported R d'" and i: "dl_iid d = dl_iid d'"
  shows "d = d'"
proof -
  let ?Q = "\<lambda>d. votes R (dl_iid d) (dl_ballot d)"
  have "?Q d \<inter> ?Q d' \<noteq> {}"
    using assms(3,4) by (intro acceptors.two_quorums_meet) (auto simp: supported_def votes_def)
  then obtain a where "a \<in> ?Q d" "a \<in> ?Q d'" by blast
  then obtain l l' where "l \<in> R" "l' \<in> R" "lm_acceptor_id l = lm_acceptor_id l'"
      "lm_iid l = dl_iid d" "lm_ballot l = dl_ballot d" "lm_iid l' = dl_iid d'" "lm_ballot l' = dl_ballot d'"
    unfolding votes_def by fastforce
  with assms(1) i have b: "dl_ballot d = dl_ballot d'" unfolding one_vote_def by metis
  obtain m m' where "m \<in> R" "m' \<in> R" "lm_iid m = dl_iid d" "lm_ballot m = dl_ballot d"
      "lm_value m = dl_value d" "lm_proposer_id m = dl_proposer d"
      "lm_iid m' = dl_iid d'" "lm_ballot m' = dl_ballot d'"
      "lm_value m' = dl_value d'" "lm_proposer_id m' = dl_proposer d'"
    using assms(3,4) unfolding supported_def by blast
  with assms(2) i b have "dl_value d = dl_value d'" "dl_proposer d = dl_proposer d'"
    unfolding ballot_value_def by metis+
  with b i assms(3,4) show ?thesis by (simp add: supported_def)
qed

lemma ordered_logs_prefix:
  assumes "map dl_iid xs = [0..h]" "map dl_iid ys = [0..h']"
    and same: "\<And>d d'. d \<in> set xs \<Longrightarrow> d' \<in> set ys \<Longrightarrow> dl_iid d = dl_iid d' \<Longrightarrow> d = d'"
    and len: "length xs \<le> length ys"
  shows "prefix xs ys"
proof -
  have lx: "length xs = nat (h + 1)" "length ys = nat (h' + 1)"
    using arg_cong [OF assms(1), of length] arg_cong [OF assms(2), of length] by simp_all
  have nth_iid: "dl_iid (zs ! n) = int n" if "map dl_iid zs = [0..g]" "n < length zs" for zs g n
  proof -
    have "length (map dl_iid zs) = length [0..g]" using that(1) by (rule arg_cong)
    then have "n < nat (g + 1)" using that(2) by simp
    then have "[0..g] ! n = int n" using nth_upto [of 0 n g] by simp
    then show ?thesis using that by (metis nth_map)
  qed
  have "xs = take (length xs) ys"
  proof (rule nth_equalityI)
    fix n assume n: "n < length xs"
    with len have "dl_iid (xs ! n) = dl_iid (ys ! n)"
      using nth_iid [OF assms(1), of n] nth_iid [OF assms(2), of n] by simp
    with n len same [of "xs ! n" "ys ! n"] show "xs ! n = take (length xs) ys ! n" by simp
  qed (use len in simp)
  then show ?thesis by (metis take_is_prefix)
qed

lemma learners_prefix:
  assumes "\<forall>m\<in>set ms \<union> set ms'. learn_ok m"
    and "one_vote (set ms \<union> set ms')" and "ballot_value (set ms \<union> set ms')"
  shows "prefix (delivered (learner_run ms)) (delivered (learner_run ms'))
    \<or> prefix (delivered (learner_run ms')) (delivered (learner_run ms))"
proof -
  let ?R = "set ms \<union> set ms'" and ?s = "learner_run ms" and ?s' = "learner_run ms'"
  have inv: "log_ok (set ms) ?s" "log_ok (set ms') ?s'"
    using learner_run_ok [of ms] learner_run_ok [of ms'] assms(1)
    by (simp_all add: learner_inv_def core_inv_def)
  then have sup: "supported ?R d" if "d \<in> set (delivered ?s) \<union> set (delivered ?s')" for d
    using that supported_mono [of "set ms" d ?R] supported_mono [of "set ms'" d ?R]
    by (auto simp: log_ok_def)
  have same: "d = d'" if "d \<in> set (delivered ?s) \<union> set (delivered ?s')"
      "d' \<in> set (delivered ?s) \<union> set (delivered ?s')" "dl_iid d = dl_iid d'" for d d'
    using supported_agree [OF assms(2,3) sup sup] that by blast
  show ?thesis
    using inv ordered_logs_prefix [of "delivered ?s" _ "delivered ?s'"]
      ordered_logs_prefix [of "delivered ?s'" _ "delivered ?s"] same
    by (cases "length (delivered ?s) \<le> length (delivered ?s')") (auto simp: log_ok_def)
qed

text \<open>On the fast path two learners agree: whatever subsets and orders of the learn messages
  reach them, the deliveries of one are a prefix of the deliveries of the other.\<close>

theorem learners_agree:
  assumes "\<forall>m\<in>set ms \<union> set ms'. learn_ok m"
    and "one_vote (set ms \<union> set ms')" and "ballot_value (set ms \<union> set ms')"
  shows "prefix (delivered (learner_run ms)) (delivered (learner_run ms'))
    \<or> prefix (delivered (learner_run ms')) (delivered (learner_run ms))"
  by (rule learners_prefix [OF assms])

theorem learners_agree_witness:
  "prefix (delivered (learner_run wit_learns)) (delivered (learner_run (rev wit_learns)))
     \<or> prefix (delivered (learner_run (rev wit_learns))) (delivered (learner_run wit_learns))"
proof -
  have h: "one_vote (set wit_learns \<union> set (rev wit_learns))"
    "ballot_value (set wit_learns \<union> set (rev wit_learns))"
    by (auto simp: one_vote_def ballot_value_def wit_learns_def wit_learn_def)
  have ok: "\<forall>m\<in>set wit_learns \<union> set (rev wit_learns). learn_ok m" using wit_learns_ok by simp
  show ?thesis using learners_agree [OF ok h] h by blast
qed

end
