(* ===== verification/Learner_Sync.thy ===== *)
theory Learner_Sync
  imports Learner_Properties
begin

text \<open>
  The learner's periodic retransmission requests (\<^verbatim>\<open>ask_retransmission\<close>, \<^verbatim>\<open>lsync_check\<close>) and the
  packets it reads. The send loop is related to the list of instances it is meant to ask for;
  a window invariant of the slots says which instances those are.
\<close>

section \<open>The send loop\<close>

definition lsync_datagram :: "int list \<Rightarrow> datagram" where
  "lsync_datagram ids = (Acceptors_Net, int (length (encode_packet (Lsync ids))), Lsync ids)"

text \<open>What the loop keeps: the requests flushed so far and the ids still in the buffer are the
  wanted instances in order, and the buffer has room for one more id.\<close>

definition lsync_loop_inv ::
    "datagram list \<Rightarrow> int list \<Rightarrow> int list \<times> int \<times> datagram list \<Rightarrow> bool" where
  "lsync_loop_inv sent0 asked s \<longleftrightarrow> (case s of (ids, bsize, sent) \<Rightarrow>
     bsize = 12 + 4 * int (length ids) \<and> bsize + 4 \<le> MAX_UDP_MSG_SIZE
     \<and> (\<forall>i\<in>set asked. in_i32 i)
     \<and> (\<exists>ds. sent = sent0 @ map lsync_datagram ds \<and> concat ds @ ids = asked
          \<and> (\<forall>d\<in>set ds. d \<noteq> [] \<and> datagram_ok (lsync_datagram d))))"

lemma lsync_datagram_ok:
  "12 + 4 * int (length ids) \<le> MAX_UDP_MSG_SIZE \<Longrightarrow> \<forall>i\<in>set ids. in_i32 i \<Longrightarrow> datagram_ok (lsync_datagram ids)"
  unfolding lsync_datagram_def by (rule datagram_okI) (simp_all add: size_Lsync list_all_iff)

lemma lsync_step_inv:
  assumes inv: "lsync_loop_inv sent0 asked s" and i: "in_i32 i"
  shows "lsync_loop_inv sent0 (if lsync_wanted st i then asked @ [i] else asked) (lsync_step st i s)"
proof (cases "lsync_wanted st i")
  case False
  with inv show ?thesis by (cases s) (simp add: lsync_step_def)
next
  case True
  obtain ids bsize sent where s: "s = (ids, bsize, sent)" by (cases s)
  from inv obtain ds where bsize: "bsize = 12 + 4 * int (length ids)" "bsize + 4 \<le> 9000"
    and rng: "\<forall>i\<in>set asked. in_i32 i" and sent: "sent = sent0 @ map lsync_datagram ds"
    and split: "concat ds @ ids = asked"
    and ok: "\<forall>d\<in>set ds. d \<noteq> [] \<and> datagram_ok (lsync_datagram d)"
    unfolding lsync_loop_inv_def s by (auto simp: c_simps)
  have test: "to_size_t (9000 - (bsize + 4)) < to_size_t 4 \<longleftrightarrow> 9000 - (bsize + 4) < 4"
    using bsize by (intro to_size_t_less) simp_all
  show ?thesis
  proof (cases "9000 - (bsize + 4) < 4")
    case True
    have "datagram_ok (lsync_datagram (ids @ [i]))"
      using bsize rng i split by (intro lsync_datagram_ok) (auto simp: c_simps)
    with True \<open>lsync_wanted st i\<close> test show ?thesis
      using bsize rng sent split ok i
      by (auto simp: lsync_loop_inv_def lsync_step_def s c_simps lsync_start_def lsync_datagram_def size_Lsync
          intro!: exI [of _ "ds @ [ids @ [i]]"])
  next
    case False
    with \<open>lsync_wanted st i\<close> test show ?thesis
      using bsize rng sent split ok i
      by (auto simp: lsync_loop_inv_def lsync_step_def s c_simps)
  qed
qed

lemma lsync_fold_inv:
  assumes "lsync_loop_inv sent0 asked s" and "\<forall>i\<in>set is. in_i32 i"
  shows "lsync_loop_inv sent0 (asked @ filter (lsync_wanted st) is) (fold (lsync_step st) is s)"
  using assms
proof (induction "is" arbitrary: asked s)
  case Nil
  then show ?case by simp
next
  case (Cons i "is")
  have "lsync_loop_inv sent0 (if lsync_wanted st i then asked @ [i] else asked) (lsync_step st i s)"
    using Cons.prems by (intro lsync_step_inv) simp_all
  from Cons.IH [OF this] Cons.prems(2) show ?case by (cases "lsync_wanted st i") simp_all
qed

text \<open>The instances a check asks for, and the requests it sends.\<close>

definition lsync_range :: "learner \<Rightarrow> int list" where
  "lsync_range st = [highest_delivered st + 1 .. highest_seen st - 1]"

lemma ask_retransmission_sends:
  assumes h: "-1 \<le> highest_delivered st" "highest_delivered st \<le> 2147483135" "in_i32 (highest_seen st)"
  shows "\<exists>ds. lear_sent (ask_retransmission st) = lear_sent st @ map lsync_datagram ds
    \<and> concat ds = filter (lsync_wanted st) (lsync_range st)
    \<and> (\<forall>d\<in>set ds. d \<noteq> [] \<and> datagram_ok (lsync_datagram d))"
proof -
  let ?s0 = "([], lsync_start, lear_sent st)" and ?is = "lsync_range st"
  obtain ids bsize sent where run: "fold (lsync_step st) ?is ?s0 = (ids, bsize, sent)"
    by (cases "fold (lsync_step st) ?is ?s0")
  have "\<forall>i\<in>set ?is. in_i32 i" using h by (auto simp: in_i32_def lsync_range_def)
  then have "lsync_loop_inv (lear_sent st) ([] @ filter (lsync_wanted st) ?is) (fold (lsync_step st) ?is ?s0)"
    by (rule lsync_fold_inv [rotated]) (simp add: lsync_loop_inv_def lsync_start_def c_simps)
  then obtain ds where bsize: "bsize = 12 + 4 * int (length ids)" "bsize + 4 \<le> MAX_UDP_MSG_SIZE"
    and rng: "\<forall>i\<in>set (filter (lsync_wanted st) ?is). in_i32 i"
    and sent: "sent = lear_sent st @ map lsync_datagram ds"
    and split: "concat ds @ ids = filter (lsync_wanted st) ?is"
    and ok: "\<forall>d\<in>set ds. d \<noteq> [] \<and> datagram_ok (lsync_datagram d)"
    unfolding lsync_loop_inv_def run by auto
  have i32: "i32 (highest_delivered st + 1) = highest_delivered st + 1" using h by simp
  have out: "lear_sent (ask_retransmission st)
      = (if length ids > 0 then sent @ [(Acceptors_Net, bsize, Lsync ids)] else sent)"
    unfolding ask_retransmission_def i32 lsync_range_def [symmetric] run by simp
  show ?thesis
  proof (cases "ids = []")
    case True
    with out sent split ok show ?thesis by (intro exI [of _ ds]) simp
  next
    case False
    have "datagram_ok (lsync_datagram ids)"
    proof (rule lsync_datagram_ok)
      show "\<forall>i\<in>set ids. in_i32 i" using rng split by (metis Un_iff set_append)
    qed (use bsize in simp)
    moreover have "(Acceptors_Net, bsize, Lsync ids) = lsync_datagram ids"
      using bsize by (simp add: lsync_datagram_def size_Lsync)
    ultimately show ?thesis
      using out sent split ok False by (intro exI [of _ "ds @ [ids]"]) auto
  qed
qed

section \<open>Which instances are asked for\<close>

text \<open>A slot holds an instance below the end of the window, of its own index unless untouched.\<close>

definition window_ok :: "learner \<Rightarrow> bool" where
  "window_ok st \<longleftrightarrow> (\<forall>k. let i = lr_iid (learner_array st k)
     in i < highest_delivered st + 512 \<and> (i = 0 \<or> GET_LEA_INDEX i = k))"

lemma window_ok_same:
  "\<forall>k. lr_iid (learner_array st' k) = lr_iid (learner_array st k) \<Longrightarrow>
   highest_delivered st' = highest_delivered st \<Longrightarrow> window_ok st' = window_ok st"
  by (simp add: window_ok_def)

lemma window_ok_deliver_values:
  assumes "core_inv R st" "all_undecided st" "i = highest_delivered st + 1" "window_ok st"
  shows "window_ok (deliver_values i st)"
  using assms
proof (induction i st rule: deliver_values.induct)
  case (1 i st)
  show ?case
  proof (cases "lr_final_value (learner_array st (GET_LEA_INDEX i))")
    case None
    then have "deliver_values i st = st" by (simp add: deliver_values.simps [of i st])
    then show ?thesis using 1(5) by simp
  next
    case (Some v)
    note one = deliver_one_core [OF 1(2,3,4) Some]
    have "-1 \<le> highest_delivered st" using 1(2) by (simp add: core_inv_def counters_ok_def)
    then have nxt: "i32 (i + 1) = i + 1" using one 1(4) by simp
    have same: "lr_iid (learner_array (deliver_one i v st) k) = lr_iid (learner_array st k)" for k
      by (simp add: deliver_one_def Let_def)
    have "lr_iid (learner_array st k) < highest_delivered (deliver_one i v st) + 512" for k
    proof -
      have "lr_iid (learner_array st k) < highest_delivered st + 512" using 1(5) by (simp add: window_ok_def Let_def)
      also have "\<dots> < highest_delivered (deliver_one i v st) + 512" using one 1(4) by simp
      finally show ?thesis .
    qed
    then have "window_ok (deliver_one i v st)"
      using 1(5) by (simp add: window_ok_def same Let_def)
    then have "window_ok (deliver_values (i32 (i + 1)) (deliver_one i v st))"
      using 1(1) [OF Some] one nxt by simp
    with Some show ?thesis by (simp add: deliver_values.simps [of i st])
  qed
qed

lemma update_record_window:
  assumes "window_ok st" and "-1 \<le> highest_delivered st" "highest_delivered st \<le> 2147483135"
    and "update_record m st = (ret, st')"
  shows "window_ok st'"
proof -
  have lim: "i32 (highest_delivered st + LEARNER_ARRAY_SIZE) = highest_delivered st + 512"
    using assms(2,3) by (simp add: c_simps)
  have iid: "lr_iid (snd (add_learn_to_record r m)) = lr_iid r" for r
    by (auto simp: add_learn_to_record_def Let_def split: option.splits)
  show ?thesis
    using assms(1,4) lim iid [of "learner_array st (GET_LEA_INDEX (lm_iid m))"]
      iid [of "clean_record (lm_iid m) (learner_array st (GET_LEA_INDEX (lm_iid m)))"]
    by (auto simp: update_record_def window_ok_def Let_def clean_record_def split: if_splits prod.splits)
qed

lemma learner_handle_learn_msg_window:
  assumes inv: "learner_inv R st" and m: "learn_ok m" and win: "window_ok st"
  shows "window_ok (learner_handle_learn_msg m st)"
proof -
  define st1 where "st1 = (if lm_iid m > highest_seen st then st\<lparr>highest_seen := lm_iid m\<rparr> else st)"
  have inv1: "learner_inv R st1" and win1: "window_ok st1"
    using inv win by (auto simp: st1_def learner_inv_def core_inv_def slots_ok_def log_ok_def
        counters_ok_def all_undecided_def drained_def window_ok_def)
  obtain ret st2 where upd: "update_record m st1 = (ret, st2)" by (cases "update_record m st1")
  obtain closed st3 where chk: "check_quorum m st2 = (closed, st3)" by (cases "check_quorum m st2")
  note u = update_record_ok [OF inv1 m upd]
  have win2: "window_ok st2"
    using update_record_window [OF win1 _ _ upd] inv1 by (simp add: learner_inv_def core_inv_def counters_ok_def)
  moreover have "window_ok st3 = window_ok st2"
    using chk by (intro window_ok_same) (auto simp: check_quorum_def Let_def split: if_splits)
  ultimately have win3: "window_ok st3" by simp
  show ?thesis
  proof (cases "ret = 0 \<or> closed = 0")
    case True
    with upd chk win2 win3 show ?thesis by (auto simp: learner_handle_learn_msg_def st1_def Let_def)
  next
    case False
    from False u have rel: "relevant m st2" and rest: "\<forall>k. k \<noteq> GET_LEA_INDEX (lm_iid m) \<longrightarrow>
        undecided (highest_delivered st2) (learner_array st2 k)"
      by auto
    have core2: "core_inv (insert m R) st2" using u by simp
    note c = check_quorum_ok [OF core2 rel m rest chk]
    then have "-1 \<le> highest_delivered st3" "highest_delivered st3 \<le> 2147483135"
      by (auto simp: core_inv_def counters_ok_def)
    then have nxt: "i32 (highest_delivered st3 + 1) = highest_delivered st3 + 1" by simp
    have "window_ok (deliver_values (lm_iid m) st3)" if "lm_iid m = highest_delivered st3 + 1"
      using c that win3 window_ok_deliver_values [of "insert m R" st3 "lm_iid m"] by simp
    then show ?thesis
      using False upd chk nxt win3 by (simp add: learner_handle_learn_msg_def st1_def Let_def)
  qed
qed

lemma learner_run_window:
  assumes "\<forall>m\<in>set ms. learn_ok m"
  shows "window_ok (learner_run ms)"
  using assms
proof (induction ms rule: rev_induct)
  case Nil
  show ?case by (simp add: learner_run_def window_ok_def learner_start_def static_learner_record_def)
next
  case (snoc m ms)
  then show ?case
    using learner_handle_learn_msg_window [of "set ms" "learner_run ms" m] learner_run_ok [of ms]
    by (simp add: learner_run_def)
qed

definition holds_closed :: "learner \<Rightarrow> int \<Rightarrow> bool" where
  "holds_closed st i \<longleftrightarrow> (let r = learner_array st (GET_LEA_INDEX i) in lr_iid r = i \<and> is_closed r)"

lemma lsync_wanted_iff:
  assumes win: "window_ok st" and i: "highest_delivered st < i" "0 \<le> i"
  shows "lsync_wanted st i \<longleftrightarrow> \<not> holds_closed st i"
proof -
  let ?r = "learner_array st (GET_LEA_INDEX i)"
  have r: "lr_iid ?r < highest_delivered st + 512" "lr_iid ?r = 0 \<or> GET_LEA_INDEX (lr_iid ?r) = GET_LEA_INDEX i"
    using win by (simp_all add: window_ok_def Let_def)
  have "\<not> i < lr_iid ?r"
  proof
    assume "i < lr_iid ?r"
    with r i GET_LEA_INDEX_window [of "lr_iid ?r" i "highest_delivered st"] show False by auto
  qed
  then show ?thesis by (auto simp: lsync_wanted_def holds_closed_def Let_def)
qed

section \<open>The highest instance seen\<close>

lemma highest_seen_deliver_values [frame]: "highest_seen (deliver_values i st) = highest_seen st"
proof (induction i st rule: deliver_values.induct)
  case (1 i st)
  show ?case
  proof (cases "lr_final_value (learner_array st (GET_LEA_INDEX i))")
    case None
    then show ?thesis by (simp add: deliver_values.simps [of i st])
  next
    case (Some v)
    have "highest_seen (deliver_one i v st) = highest_seen st" by (simp add: deliver_one_def Let_def)
    with 1 [OF Some] Some show ?thesis by (simp add: deliver_values.simps [of i st])
  qed
qed

lemma highest_seen_update_record [frame]: "highest_seen (snd (update_record m st)) = highest_seen st"
  by (simp add: update_record_def Let_def split: prod.splits)

lemma highest_seen_check_quorum [frame]: "highest_seen (snd (check_quorum m st)) = highest_seen st"
  by (simp add: check_quorum_def Let_def)

lemma highest_seen_learn:
  "highest_seen (learner_handle_learn_msg m st) = max (highest_seen st) (lm_iid m)"
proof -
  define st1 where "st1 = (if lm_iid m > highest_seen st then st\<lparr>highest_seen := lm_iid m\<rparr> else st)"
  obtain r st2 where upd: "update_record m st1 = (r, st2)" by (cases "update_record m st1")
  obtain c st3 where chk: "check_quorum m st2 = (c, st3)" by (cases "check_quorum m st2")
  have "highest_seen st2 = highest_seen st1" "highest_seen st3 = highest_seen st2"
    using highest_seen_update_record [of m st1] highest_seen_check_quorum [of m st2] upd chk by simp_all
  then show ?thesis
    using upd chk by (simp add: learner_handle_learn_msg_def st1_def [symmetric] frame)
      (simp add: st1_def)
qed

lemma highest_seen_run: "highest_seen (learner_run ms) = Max (insert (-1) (lm_iid ` set ms))"
proof (induction ms rule: rev_induct)
  case Nil
  show ?case by (simp add: learner_run_def learner_start_def)
next
  case (snoc m ms)
  have "learner_run (ms @ [m]) = learner_handle_learn_msg m (learner_run ms)" by (simp add: learner_run_def)
  with snoc show ?case by (simp add: highest_seen_learn insert_commute [of "-1"] max.commute)
qed

section \<open>Properties\<close>

text \<open>C23. Every interval the learner asks for exactly the instances between the last one it
  delivered and the highest one it saw that it does not hold decided, in order and once each, in
  requests that fit a datagram.\<close>

theorem lsync_asks_for_open_instances:
  assumes "\<forall>m\<in>set ms. learn_ok m"
  defines "st \<equiv> learner_run ms"
  shows "\<exists>ds. lear_sent (lsync_check st) = lear_sent st @ map lsync_datagram ds
    \<and> concat ds = filter (\<lambda>i. \<not> holds_closed st i) [highest_delivered st + 1 .. highest_seen st - 1]
    \<and> (\<forall>d\<in>set ds. d \<noteq> [] \<and> datagram_ok (lsync_datagram d))"
proof (cases "highest_seen st > highest_delivered st")
  case False
  then show ?thesis by (intro exI [of _ "[]"]) (simp add: lsync_check_def)
next
  case True
  have h: "-1 \<le> highest_delivered st" "highest_delivered st \<le> 2147483135"
    using learner_run_ok [OF assms(1)] by (simp_all add: st_def learner_inv_def core_inv_def counters_ok_def)
  have "highest_seen st \<le> 2147483135"
    using assms(1) by (auto simp: st_def highest_seen_run learn_ok_def)
  with h True have "in_i32 (highest_seen st)" by (simp add: in_i32_def)
  moreover have "filter (lsync_wanted st) (lsync_range st) = filter (\<lambda>i. \<not> holds_closed st i) (lsync_range st)"
    using h lsync_wanted_iff [of st] learner_run_window [OF assms(1)]
    by (intro filter_cong) (auto simp: lsync_range_def st_def)
  moreover have "lear_sent (lsync_check st) = lear_sent (ask_retransmission st)"
    using True by (simp add: lsync_check_def)
  ultimately show ?thesis
    using ask_retransmission_sends [of st] h by (simp add: lsync_range_def)
qed

text \<open>Instance 2 seen, nothing decided: instances 0 and 1 are asked for.\<close>

definition wit_gap :: learn_msg where
  "wit_gap = (wit_learn 1)\<lparr>lm_iid := 2\<rparr>"

lemma wit_gap_ok: "\<forall>m\<in>set [wit_gap]. learn_ok m"
  using wit_learns_ok by (simp add: wit_gap_def wit_learns_def wit_learn_def learn_ok_def wf_learn_def in_i32_def c_simps)

lemma wit_gap_run: "highest_delivered (learner_run [wit_gap]) = -1"
  "highest_seen (learner_run [wit_gap]) = 2" "\<not> holds_closed (learner_run [wit_gap]) 0"
  "\<not> holds_closed (learner_run [wit_gap]) 1"
  by (simp_all add: learner_run_def wit_gap_def wit_learn_def learner_start_def static_learner_record_def
      learner_eval quorum_of_def numeral_3_eq_3 holds_closed_def)

theorem lsync_asks_for_open_instances_witness:
  "\<exists>ds. lear_sent (lsync_check (learner_run [wit_gap])) = lear_sent (learner_run [wit_gap]) @ map lsync_datagram ds
    \<and> concat ds = [0, 1]"
proof -
  have "[-1 + 1 .. 2 - 1] = [0, 1 :: int]" by (simp add: upto.simps)
  with lsync_asks_for_open_instances [OF wit_gap_ok] wit_gap_run show ?thesis by auto
qed

text \<open>The newest instance seen is never asked for: the loop stops before it, so a learner that
  lacks only the last instance sends no request however often the check runs.\<close>

theorem lsync_never_asks_for_newest:
  assumes "highest_seen st = highest_delivered st + 1"
    and "-1 \<le> highest_delivered st" and "highest_delivered st \<le> 2147483135"
  shows "lear_sent ((lsync_check ^^ n) st) = lear_sent st"
proof -
  have one: "lear_sent (lsync_check s) = lear_sent s \<and> highest_seen (lsync_check s) = highest_seen s
      \<and> highest_delivered (lsync_check s) = highest_delivered s"
    if "highest_seen s = highest_delivered s + 1" "-1 \<le> highest_delivered s" "highest_delivered s \<le> 2147483135"
    for s using that by (simp add: lsync_check_def ask_retransmission_def)
  have "lear_sent ((lsync_check ^^ n) st) = lear_sent st
      \<and> highest_seen ((lsync_check ^^ n) st) = highest_seen st
      \<and> highest_delivered ((lsync_check ^^ n) st) = highest_delivered st"
  proof (induction n)
    case 0
    show ?case by simp
  next
    case (Suc n)
    then show ?case using one [of "(lsync_check ^^ n) st"] assms by simp
  qed
  then show ?thesis by simp
qed

theorem lsync_never_asks_for_newest_witness:
  "highest_seen (learner_run [wit_learn 0]) = 0 \<and> delivered (learner_run [wit_learn 0]) = []
   \<and> lear_sent ((lsync_check ^^ 7) (learner_run [wit_learn 0])) = []"
proof -
  have run: "highest_delivered (learner_run [wit_learn 0]) = -1" "highest_seen (learner_run [wit_learn 0]) = 0"
    "delivered (learner_run [wit_learn 0]) = []" "lear_sent (learner_run [wit_learn 0]) = []"
    by (simp_all add: learner_run_def wit_learn_def learner_start_def static_learner_record_def
        learner_eval quorum_of_def numeral_3_eq_3)
  with lsync_never_asks_for_newest [of "learner_run [wit_learn 0]" 7] show ?thesis by simp
qed

text \<open>C32. A learn packet is handled as the message it encodes, whatever the receive buffer held
  before and whatever the size field of the packet says: the check of that field only prints.\<close>

theorem learner_reads_learn_packet:
  assumes "length (lear_recv_buffer st) = nat MAX_UDP_MSG_SIZE"
    and "wf_learn m" and "28 + int (length (lm_value m)) \<le> MAX_UDP_MSG_SIZE" and "in_i32 sz"
  shows "learner_handle_learner_msg (Recv (le32 sz @ le32 PAXOS_LEARN @ learn_bytes m)) st
    = Some (learner_handle_learn_msg m (st\<lparr>lear_recv_buffer :=
        recv_into (lear_recv_buffer st) (le32 sz @ le32 PAXOS_LEARN @ learn_bytes m)\<rparr>))"
proof -
  let ?d = "le32 sz @ le32 PAXOS_LEARN @ learn_bytes m"
  have "length ?d \<le> length (lear_recv_buffer st)"
    using assms(1,3) by (simp add: length_learn_bytes c_simps)
  then obtain xs where buf: "recv_into (lear_recv_buffer st) ?d = (le32 sz @ le32 PAXOS_LEARN) @ learn_bytes m @ xs"
    by (simp add: recv_into_short)
  have "rd_learn ((le32 sz @ le32 PAXOS_LEARN) @ learn_bytes m @ xs) 8 = Some m"
    using rd_learn_skip [of "le32 sz @ le32 PAXOS_LEARN" 8] rd_learn_here [OF assms(2), of xs] by simp
  moreover have "rd32 ((le32 sz @ le32 PAXOS_LEARN) @ learn_bytes m @ xs) 4 = Some PAXOS_LEARN"
    by (simp add: c_simps in_i32_def)
  ultimately show ?thesis unfolding learner_handle_learner_msg_def buf recv_result.case Let_def by simp
qed

theorem learner_reads_learn_packet_witness:
  "learner_handle_learner_msg (Recv (le32 (-7) @ le32 PAXOS_LEARN @ learn_bytes (wit_learn 0))) learner_start
    = Some (learner_handle_learn_msg (wit_learn 0) (learner_start\<lparr>lear_recv_buffer :=
        recv_into (lear_recv_buffer learner_start) (le32 (-7) @ le32 PAXOS_LEARN @ learn_bytes (wit_learn 0))\<rparr>))"
proof (rule learner_reads_learn_packet)
  show "length (lear_recv_buffer learner_start) = nat MAX_UDP_MSG_SIZE" by (simp add: learner_start_def)
qed (simp_all add: wit_learn_def wf_learn_def in_i32_def c_simps)

end
