(* ===== verification/Proposer_Correct.thy ===== *)
theory Proposer_Correct
  imports Proposer Learner_Sync
begin

text \<open>
  The proposer's reachable states and their invariants: the identity it keeps, the message in its
  send buffer, and its retry timers; and the contract it relies on, a learner that delivers the
  instances in order from 0.
\<close>

section \<open>In-order delivery\<close>

text \<open>
  What \<^verbatim>\<open>proposer_deliver_callback\<close> asserts of its caller: the log of deliveries after any input
  is the instances from 0 in order.
\<close>

locale ordered_delivery =
  fixes log :: "'e list \<Rightarrow> delivery list" and admissible :: "'e list \<Rightarrow> bool"
  assumes in_order: "admissible es \<Longrightarrow> map dl_iid (log es) = [0..int (length (log es)) - 1]"
    and short: "admissible es \<Longrightarrow> length (log es) \<le> 2147483136"
begin

lemma nth_iid:
  assumes "admissible es" "n < length (log es)"
  shows "dl_iid (log es ! n) = int n"
proof -
  have "dl_iid (log es ! n) = map dl_iid (log es) ! n" using assms(2) by simp
  also have "\<dots> = [0..int (length (log es)) - 1] ! n" using in_order [OF assms(1)] by simp
  also have "\<dots> = int n" using assms(2) by (simp add: nth_upto)
  finally show ?thesis .
qed

lemma next_iid:
  assumes "admissible es" "n < length (log es)"
  shows "dl_iid (log es ! n) = int n \<and> int n < 2147483136"
  using nth_iid [OF assms] short [OF assms(1)] assms(2) by simp

end

interpretation learner_log: ordered_delivery "\<lambda>ms. delivered (learner_run ms)" "\<lambda>ms. \<forall>m\<in>set ms. learn_ok m"
proof
  fix ms :: "learn_msg list"
  assume "\<forall>m\<in>set ms. learn_ok m"
  then have log: "map dl_iid (delivered (learner_run ms)) = [0..highest_delivered (learner_run ms)]"
    and h: "-1 \<le> highest_delivered (learner_run ms)" "highest_delivered (learner_run ms) \<le> 2147483135"
    using learner_run_ok [of ms] by (simp_all add: learner_inv_def core_inv_def log_ok_def counters_ok_def)
  have "length (map dl_iid (delivered (learner_run ms))) = length [0..highest_delivered (learner_run ms)]"
    using log by (rule arg_cong)
  then have "int (length (delivered (learner_run ms))) = highest_delivered (learner_run ms) + 1"
    using h by simp
  with log h show "map dl_iid (delivered (learner_run ms)) = [0..int (length (delivered (learner_run ms))) - 1]"
    "length (delivered (learner_run ms)) \<le> 2147483136"
    by simp_all
qed

section \<open>Reachable states\<close>

text \<open>
  \<open>n\<close> counts the events, that is the steps other than the client's unlocked statements; it bounds the
  hash counter and the instance.
\<close>

inductive proposer_reach :: "int \<Rightarrow> nat \<Rightarrow> client_pc \<times> proposer \<Rightarrow> bool" for pid where
  start: "proposer_init 0 sock pid lead proposer_static = (0, st) \<Longrightarrow> proposer_reach pid 0 (Outside, st)"
| step: "proposer_reach pid n s \<Longrightarrow> proposer_step s s' \<Longrightarrow> proposer_reach pid (Suc n) s'"
| fill: "proposer_reach pid n s \<Longrightarrow> submit_step s s' \<Longrightarrow> proposer_reach pid n s'"

definition good_id :: "int \<Rightarrow> nat \<Rightarrow> bool" where
  "good_id pid n \<longleftrightarrow> 0 \<le> pid \<and> pid < MAX_PROPOSERS \<and> n < 2147483000"

lemma reach_fills:
  assumes "proposer_reach pid n (Filling v 0, st)" and "k \<le> length (submit_tail v)"
  shows "proposer_reach pid n (Filling v k, fold (\<lambda>f. f) (take k (submit_tail v)) st)"
  using assms(2)
proof (induction k)
  case 0
  then show ?case using assms(1) by simp
next
  case (Suc k)
  let ?s = "fold (\<lambda>f. f) (take k (submit_tail v)) st"
  have "submit_step (Filling v k, ?s) (Filling v (Suc k), (submit_tail v ! k) ?s)"
    using Suc.prems by (intro submit_step.fill) simp
  with Suc show ?case by (auto simp: take_Suc_conv_app_nth intro: proposer_reach.fill)
qed

lemma reach_submit_send:
  assumes "proposer_reach pid n (Filling v 0, st)"
  shows "proposer_reach pid (Suc n) (Blocked v, submit_send v st)"
proof -
  have "proposer_reach pid n (Filling v (length (submit_tail v)), submit_send v st)"
    using reach_fills [OF assms, of "length (submit_tail v)"] by (simp add: submit_send_def)
  from proposer_reach.step [OF this proposer_step.block] show ?thesis .
qed

section \<open>The statements of a submission\<close>

lemma copied_bytes:
  "j \<le> length v \<Longrightarrow> j \<le> length (acm_value (amsg st)) \<Longrightarrow>
   fold (\<lambda>f. f) (map (copy_byte v) [0..<j]) st
     = st\<lparr>amsg := (amsg st)\<lparr>acm_value := take j v @ drop j (acm_value (amsg st))\<rparr>\<rparr>"
proof (induction j)
  case 0
  then show ?case by simp
next
  case (Suc j)
  have "(take j v @ drop j xs)[j := v ! j] = take (Suc j) v @ drop (Suc j) xs" if "Suc j \<le> length xs" for xs
    using Suc.prems that
    by (intro nth_equalityI) (auto simp: nth_append nth_list_update min_def less_Suc_eq)
  then show ?case using Suc by (simp add: copy_byte_def)
qed

text \<open>The state in which an uninterrupted submission sends.\<close>

definition filled :: "byte list \<Rightarrow> proposer \<Rightarrow> proposer" where
  "filled v st = st\<lparr>prop_msg_size := 24 + int (length v), buf_size := 16 + int (length v), buf_type := PAXOS_ACCEPT,
     amsg := \<lparr>acm_iid = acm_iid (amsg st), acm_ballot = fixed_ballot st, acm_value_size = int (length v),
       acm_proposer_id = prop_proposer_id st, acm_value = v\<rparr>,
     value_rest := drop (length v) (acm_value (amsg st) @ value_rest st)\<rparr>"

definition area_ok :: "proposer \<Rightarrow> bool" where
  "area_ok st \<longleftrightarrow> length (acm_value (amsg st)) + length (value_rest st) = 8976"

lemma fits_area: "\<not> submit_too_big v \<Longrightarrow> length v \<le> 8960"
  by (simp add: submit_too_big_def c_simps)

lemma submit_send_eq:
  assumes area: "area_ok st" and v: "\<not> submit_too_big v"
  shows "submit_send v st = set_proposer_check_timeout (acm_iid (amsg st)) 1 (send_proposer_buffer (filled v st))"
proof -
  let ?n = "length v"
  define s where "s = set_value_size (int ?n) (st\<lparr>buf_type := PAXOS_ACCEPT, buf_size := sizeof_accept_msg + int ?n,
    amsg := (amsg st)\<lparr>acm_ballot := fixed_ballot st\<rparr>\<rparr>)"
  define s' where "s' = s\<lparr>amsg := (amsg s)\<lparr>acm_proposer_id := prop_proposer_id s\<rparr>\<rparr>"
  have n: "?n \<le> 8960" by (rule fits_area [OF v])
  have "length (acm_value (amsg s')) = ?n"
    using area n by (simp add: s'_def s_def set_value_size_def area_ok_def Let_def)
  then have copied: "fold (\<lambda>f. f) (map (copy_byte v) [0..<?n]) s' = s'\<lparr>amsg := (amsg s')\<lparr>acm_value := v\<rparr>\<rparr>"
    using copied_bytes [of ?n v s'] by simp
  have "submit_send v st = (\<lambda>st. set_proposer_check_timeout (acm_iid (amsg st)) 1 st) (send_proposer_buffer
      ((\<lambda>st. st\<lparr>prop_msg_size := i32 (buf_size st + sizeof_paxos_msg)\<rparr>) (fold (\<lambda>f. f) (map (copy_byte v) [0..<?n]) s')))"
    by (simp add: submit_send_def submit_tail_def s'_def s_def)
  moreover have "(\<lambda>st. st\<lparr>prop_msg_size := i32 (buf_size st + sizeof_paxos_msg)\<rparr>) (s'\<lparr>amsg := (amsg s')\<lparr>acm_value := v\<rparr>\<rparr>) = filled v st"
    using n by (simp add: filled_def s'_def s_def set_value_size_def c_simps Let_def)
  ultimately have "submit_send v st = (\<lambda>st. set_proposer_check_timeout (acm_iid (amsg st)) 1 st) (send_proposer_buffer (filled v st))"
    by (simp only: copied)
  moreover have "acm_iid (amsg (send_proposer_buffer (filled v st))) = acm_iid (amsg st)"
    by (simp add: send_proposer_buffer_def filled_def)
  ultimately show ?thesis by simp
qed

section \<open>Identity and send buffer\<close>

definition own_accept :: "int \<Rightarrow> accept_msg \<Rightarrow> bool" where
  "own_accept pid m \<longleftrightarrow> acm_ballot m = MAX_PROPOSERS + pid \<and> acm_proposer_id m = pid
     \<and> acm_value_size m = int (length (acm_value m)) \<and> acm_value_size m \<le> PAXOS_MAX_VALUE_SIZE"

text \<open>
  The buffer at any time: once something was sent, it has the proposer's own identity; and when the
  header's size agrees with \<^verbatim>\<open>msg_size\<close>, so does the size of the value.
\<close>

definition buffer_ok :: "int \<Rightarrow> proposer \<Rightarrow> bool" where
  "buffer_ok pid st \<longleftrightarrow> in_i32 (acm_iid (amsg st)) \<and> area_ok st \<and> 0 \<le> buf_size st \<and> buf_size st \<le> 8976
     \<and> acm_value_size (amsg st) = int (length (acm_value (amsg st)))
     \<and> (prop_msg_size st = 0 \<or> 24 \<le> prop_msg_size st \<and> prop_msg_size st \<le> 8984 \<and> buf_type st = PAXOS_ACCEPT
          \<and> own_accept pid (amsg st)
          \<and> (buf_size st + 8 = prop_msg_size st \<longrightarrow> prop_msg_size st = 24 + acm_value_size (amsg st)))"

text \<open>
  A send: no bytes at all when nothing was submitted yet; otherwise a message with the proposer's
  identity, and its bytes, unless a receiver drops them for their size, are the encoding of that
  message.
\<close>

definition proposer_datagram :: "int \<Rightarrow> datagram \<Rightarrow> byte list \<Rightarrow> bool" where
  "proposer_datagram pid d w \<longleftrightarrow> (\<exists>m. d = (Acceptors_Net, int (length w), Accept m)
     \<and> (w = [] \<or> own_accept pid m \<and> (size_matches w (int (length w)) \<longrightarrow> w = encode_packet (Accept m) \<and> datagram_ok d)))"

text \<open>Where the client is in its statements, and what it has written.\<close>

definition settled :: "proposer \<Rightarrow> bool" where
  "settled st \<longleftrightarrow> prop_msg_size st = 0
     \<or> prop_msg_size st = 24 + acm_value_size (amsg st) \<and> buf_size st = 16 + acm_value_size (amsg st)"

definition fill_ok :: "int \<Rightarrow> byte list \<Rightarrow> nat \<Rightarrow> proposer \<Rightarrow> bool" where
  "fill_ok pid v k st \<longleftrightarrow> \<not> submit_too_big v
     \<and> (k < 2 \<longrightarrow> settled st)
     \<and> (k < 4 \<longrightarrow> prop_msg_size st = 0 \<or> prop_msg_size st = 24 + acm_value_size (amsg st))
     \<and> (1 \<le> k \<longrightarrow> buf_type st = PAXOS_ACCEPT)
     \<and> (2 \<le> k \<longrightarrow> buf_size st = 16 + int (length v))
     \<and> (3 \<le> k \<longrightarrow> acm_ballot (amsg st) = MAX_PROPOSERS + pid)
     \<and> (4 \<le> k \<longrightarrow> length (acm_value (amsg st)) = length v)
     \<and> (5 \<le> k \<longrightarrow> acm_proposer_id (amsg st) = pid \<and> take (k - 5) (acm_value (amsg st)) = take (k - 5) v)
     \<and> (6 + length v \<le> k \<longrightarrow> prop_msg_size st = 24 + int (length v))"

definition client_ok :: "int \<Rightarrow> client_pc \<Rightarrow> proposer \<Rightarrow> bool" where
  "client_ok pid pc st \<longleftrightarrow> (case pc of Outside \<Rightarrow> \<not> client_waiting st \<and> settled st
     | Filling v k \<Rightarrow> fill_ok pid v k st
     | Blocked v \<Rightarrow> prop_msg_size st = 24 + int (length v) \<and> buf_size st = 16 + int (length v)
         \<and> acm_value (amsg st) = v)"

definition identity_inv :: "int \<Rightarrow> client_pc \<times> proposer \<Rightarrow> bool" where
  "identity_inv pid s \<longleftrightarrow> (case s of (pc, st) \<Rightarrow>
     prop_proposer_id st = pid \<and> fixed_ballot st = MAX_PROPOSERS + pid \<and> in_i32 (prop_current_iid st)
     \<and> buffer_ok pid st \<and> list_all2 (proposer_datagram pid) (prop_sent st) (prop_wire st) \<and> client_ok pid pc st)"

lemma own_accept_wf: "own_accept pid m \<Longrightarrow> 0 \<le> pid \<Longrightarrow> pid < MAX_PROPOSERS \<Longrightarrow> in_i32 (acm_iid m) \<Longrightarrow> wf_accept m"
  by (simp add: own_accept_def wf_accept_def in_i32_def c_simps)

lemma buffer_encoded:
  assumes b: "buffer_ok pid st" and "prop_msg_size st \<noteq> 0" and h: "buf_size st + 8 = prop_msg_size st"
  shows "take (nat (prop_msg_size st)) (proposer_send_buffer st) = encode_packet (Accept (amsg st))"
    and "prop_msg_size st = 24 + acm_value_size (amsg st)"
proof -
  let ?m = "amsg st"
  have s: "buf_type st = PAXOS_ACCEPT" "acm_value_size ?m = int (length (acm_value ?m))" and m: "prop_msg_size st = 24 + acm_value_size ?m"
    using assms unfolding buffer_ok_def by blast+
  then have "nat (prop_msg_size st) = 8 + length (accept_bytes ?m)" by (simp add: length_accept_bytes)
  moreover have "buf_size st = int (length (accept_bytes ?m))" using h m s by (simp add: length_accept_bytes)
  ultimately show "take (nat (prop_msg_size st)) (proposer_send_buffer st) = encode_packet (Accept ?m)"
    using s by (simp add: proposer_send_buffer_def encode_packet_def)
  show "prop_msg_size st = 24 + acm_value_size ?m" by (rule m)
qed

lemma buffer_datagram:
  assumes b: "buffer_ok pid st" and g: "good_id pid n"
  shows "proposer_datagram pid (Acceptors_Net, prop_msg_size st, Accept (amsg st))
    (take (nat (prop_msg_size st)) (proposer_send_buffer st))"
proof (cases "prop_msg_size st = 0")
  case True
  then show ?thesis by (simp add: proposer_datagram_def)
next
  case False
  let ?m = "amsg st" and ?w = "take (nat (prop_msg_size st)) (proposer_send_buffer st)"
  from False b have s: "24 \<le> prop_msg_size st" "prop_msg_size st \<le> 8984" "buf_type st = PAXOS_ACCEPT" "own_accept pid ?m"
    "buf_size st + 8 = prop_msg_size st \<longrightarrow> prop_msg_size st = 24 + acm_value_size ?m"
    "0 \<le> buf_size st" "buf_size st \<le> 8976" "acm_value_size ?m = int (length (acm_value ?m))" "in_i32 (acm_iid ?m)"
    unfolding buffer_ok_def by blast+
  have "length (proposer_send_buffer st) = 9000"
    using b by (simp add: buffer_ok_def area_ok_def proposer_send_buffer_def length_accept_bytes)
  then have len: "int (length ?w) = prop_msg_size st" using s by simp
  have "?w = le32 (buf_size st) @ take (nat (prop_msg_size st) - 4) (le32 (buf_type st) @ accept_bytes ?m @ value_rest st)"
    using s by (simp add: proposer_send_buffer_def)
  moreover have "in_i32 (buf_size st)" using s by (simp add: in_i32_def)
  ultimately have "rd32 ?w 0 = Some (buf_size st)" by (metis rd32_le32)
  then have hdr: "size_matches ?w (int (length ?w)) \<longleftrightarrow> buf_size st + 8 = prop_msg_size st"
    using s len to_size_t_eq [of "buf_size st" "prop_msg_size st - 8"]
    by (simp add: size_matches_def to_size_t_diff c_simps) linarith
  have "?w = encode_packet (Accept ?m) \<and> datagram_ok (Acceptors_Net, prop_msg_size st, Accept ?m)"
    if "buf_size st + 8 = prop_msg_size st"
  proof
    show "?w = encode_packet (Accept ?m)" by (rule buffer_encoded(1) [OF b False that])
    have m: "prop_msg_size st = 24 + acm_value_size ?m" by (rule buffer_encoded(2) [OF b False that])
    have "wf_accept ?m" using own_accept_wf [of pid ?m] s g by (simp add: good_id_def)
    then show "datagram_ok (Acceptors_Net, prop_msg_size st, Accept ?m)"
      using m s by (intro datagram_okI) (simp_all add: size_Accept c_simps)
  qed
  with s len hdr show ?thesis by (simp add: proposer_datagram_def)
qed

text \<open>Sending the buffer keeps the invariant, whatever happened to the timers and counters.\<close>

lemma identity_send:
  assumes inv: "identity_inv pid (pc, st)" and g: "good_id pid n"
  shows "identity_inv pid (pc, send_proposer_buffer st)"
proof -
  let ?st = "send_proposer_buffer st"
  have "buffer_ok pid st" using inv by (simp add: identity_inv_def)
  note sent = buffer_datagram [OF this g]
  have "buffer_ok pid ?st = buffer_ok pid st" "client_ok pid pc ?st = client_ok pid pc st"
    by (simp_all add: buffer_ok_def area_ok_def client_ok_def fill_ok_def settled_def send_proposer_buffer_def
        split: client_pc.split)
  then show ?thesis
    using inv sent by (simp add: identity_inv_def) (simp add: send_proposer_buffer_def list_all2_appendI)
qed

lemma identity_cong:
  assumes inv: "identity_inv pid (pc, st)"
    and same: "prop_proposer_id st' = prop_proposer_id st" "fixed_ballot st' = fixed_ballot st"
      "in_i32 (prop_current_iid st')" "prop_msg_size st' = prop_msg_size st" "buf_size st' = buf_size st"
      "buf_type st' = buf_type st" "amsg st' = (amsg st)\<lparr>acm_iid := i\<rparr>" "in_i32 i" "value_rest st' = value_rest st"
      "prop_sent st' = prop_sent st" "prop_wire st' = prop_wire st" "client_waiting st' \<Longrightarrow> client_waiting st"
  shows "identity_inv pid (pc, st')"
proof -
  have "client_ok pid pc st'"
    using inv same by (auto simp: identity_inv_def client_ok_def fill_ok_def settled_def split: client_pc.splits)
  moreover have "buffer_ok pid st'"
    using inv same by (auto simp: identity_inv_def buffer_ok_def area_ok_def own_accept_def)
  ultimately show ?thesis using inv same by (simp add: identity_inv_def)
qed

lemma same_amsg: "amsg st' = amsg st \<Longrightarrow> amsg st' = (amsg st)\<lparr>acm_iid := acm_iid (amsg st)\<rparr>"
  by simp

lemma identity_iid: "identity_inv pid (pc, st) \<Longrightarrow> in_i32 (acm_iid (amsg st)) \<and> in_i32 (prop_current_iid st)"
  by (simp add: identity_inv_def buffer_ok_def)

lemma identity_timer:
  assumes inv: "identity_inv pid (pc, st)" and g: "good_id pid n"
  shows "identity_inv pid (pc, proposer_check_timeout k st)"
proof -
  note iid = identity_iid [OF inv]
  let ?st = "st\<lparr>last_accept_hash := i32 (last_accept_hash st + 1)\<rparr>"
  have "identity_inv pid (pc, ?st)"
    using iid by (intro identity_cong [OF inv, of _ "acm_iid (amsg st)"]) simp_all
  note sent = identity_send [OF this g]
  have "identity_inv pid (pc, (send_proposer_buffer ?st)\<lparr>prop_timers := ts\<rparr>)" for ts
    using identity_iid [OF sent]
    by (intro identity_cong [OF sent, of _ "acm_iid (amsg (send_proposer_buffer ?st))"]) simp_all
  moreover have "identity_inv pid (pc, st\<lparr>prop_timers := ts\<rparr>)" for ts
    using iid by (intro identity_cong [OF inv, of _ "acm_iid (amsg st)"]) simp_all
  ultimately show ?thesis by (simp add: proposer_check_timeout_def Let_def)
qed

text \<open>The states the callback goes through.\<close>

definition after_lock :: "delivery \<Rightarrow> proposer \<Rightarrow> proposer" where
  "after_lock d st = (if proposer_is_leader st then st\<lparr>prop_leader := leader_deliver_value (dl_iid d) (prop_leader st)\<rparr>
     else st)\<lparr>prop_current_iid := i32 (prop_current_iid st + 1)\<rparr>"

definition after_client :: "delivery \<Rightarrow> proposer \<Rightarrow> proposer" where
  "after_client d st = (if has_client_deliver_func st
     then (after_lock d st)\<lparr>client_calls := client_calls st @ [d]\<rparr> else after_lock d st)"

lemma after_frame [frame]:
  "client_waiting (after_lock d st) = client_waiting st" "client_waiting (after_client d st) = client_waiting st"
  "prop_proposer_id (after_lock d st) = prop_proposer_id st" "prop_proposer_id (after_client d st) = prop_proposer_id st"
  "fixed_ballot (after_lock d st) = fixed_ballot st" "fixed_ballot (after_client d st) = fixed_ballot st"
  "amsg (after_lock d st) = amsg st" "amsg (after_client d st) = amsg st"
  "prop_msg_size (after_lock d st) = prop_msg_size st" "prop_msg_size (after_client d st) = prop_msg_size st"
  "prop_sent (after_lock d st) = prop_sent st" "prop_sent (after_client d st) = prop_sent st"
  "prop_wire (after_lock d st) = prop_wire st" "prop_wire (after_client d st) = prop_wire st"
  "buf_size (after_lock d st) = buf_size st" "buf_size (after_client d st) = buf_size st"
  "buf_type (after_lock d st) = buf_type st" "buf_type (after_client d st) = buf_type st"
  "value_rest (after_lock d st) = value_rest st" "value_rest (after_client d st) = value_rest st"
  "prop_timers (after_lock d st) = prop_timers st" "prop_timers (after_client d st) = prop_timers st"
  "last_accept_iid (after_lock d st) = last_accept_iid st" "last_accept_iid (after_client d st) = last_accept_iid st"
  "last_accept_hash (after_lock d st) = last_accept_hash st" "last_accept_hash (after_client d st) = last_accept_hash st"
  "prop_current_iid (after_lock d st) = i32 (prop_current_iid st + 1)"
  "prop_current_iid (after_client d st) = i32 (prop_current_iid st + 1)"
  by (simp_all add: after_lock_def after_client_def)

text \<open>The callback on every branch.\<close>

lemma deliver_cases:
  "proposer_deliver_callback d st =
    (if prop_current_iid st \<noteq> dl_iid d then None
     else if \<not> client_waiting st then Some (after_lock d st)
     else if dl_proposer d = prop_proposer_id st then Some ((after_client d st)\<lparr>client_waiting := False\<rparr>)
     else Some (send_for_next_instance (dl_iid d) (after_client d st)))"
  by (auto simp: proposer_deliver_callback_def after_lock_def after_client_def Let_def)

lemma identity_deliver:
  assumes inv: "identity_inv pid (pc, st)" and g: "good_id pid n" and d: "proposer_deliver_callback d st = Some st'"
  shows "identity_inv pid (pc, st')"
proof -
  note iid = identity_iid [OF inv]
  have lock: "identity_inv pid (pc, after_lock d st)" and client: "identity_inv pid (pc, after_client d st)"
    using iid by (intro identity_cong [OF inv, of _ "acm_iid (amsg st)"]; simp add: frame)+
  have wake: "identity_inv pid (pc, (after_client d st)\<lparr>client_waiting := False\<rparr>)"
    using identity_iid [OF client]
    by (intro identity_cong [OF client, of _ "acm_iid (amsg (after_client d st))"]) simp_all
  let ?s = "(after_client d st)\<lparr>last_accept_iid := dl_iid d,
    last_accept_hash := i32 (last_accept_hash (after_client d st) + 1),
    amsg := (amsg (after_client d st))\<lparr>acm_iid := prop_current_iid (after_client d st)\<rparr>\<rparr>"
  have "identity_inv pid (pc, ?s)"
    using identity_iid [OF client]
    by (intro identity_cong [OF client, of _ "prop_current_iid (after_client d st)"]) simp_all
  note sent = identity_send [OF this g]
  have "identity_inv pid (pc, send_for_next_instance (dl_iid d) (after_client d st))"
    using identity_iid [OF sent] unfolding send_for_next_instance_def Let_def set_proposer_check_timeout_def
    by (intro identity_cong [OF sent, of _ "acm_iid (amsg (send_proposer_buffer ?s))"]) simp_all
  with lock wake d show ?thesis by (auto simp: deliver_cases split: if_splits)
qed

section \<open>Retry timers\<close>

definition counters_inv :: "nat \<Rightarrow> proposer \<Rightarrow> bool" where
  "counters_inv n st \<longleftrightarrow> 0 \<le> prop_current_iid st \<and> prop_current_iid st \<le> int n
     \<and> last_accept_hash st \<le> int n + 1 \<and> 0 \<le> last_accept_hash st \<and> acm_iid (amsg st) \<le> prop_current_iid st
     \<and> (client_waiting st \<longrightarrow> 1 \<le> last_accept_hash st \<and> last_accept_iid st \<le> prop_current_iid st)"

definition timer_ok :: "proposer \<Rightarrow> timeout_info \<Rightarrow> bool" where
  "timer_ok st t \<longleftrightarrow> ti_instance_id t \<le> prop_current_iid st
     \<and> (if client_waiting st then ti_instance_id t < last_accept_iid st \<or> ti_hash t \<le> last_accept_hash st
        else ti_instance_id t < prop_current_iid st \<or> ti_hash t \<le> 1)"

definition timers_inv :: "nat \<Rightarrow> proposer \<Rightarrow> bool" where
  "timers_inv n st \<longleftrightarrow> counters_inv n st \<and> (\<forall>t\<in>set (prop_timers st). timer_ok st t)"

lemma timers_inv_mono: "timers_inv n st \<Longrightarrow> timers_inv (Suc n) st"
  by (simp add: timers_inv_def counters_inv_def)

lemma set_rest: "set (take k xs @ drop (Suc k) xs) \<subseteq> set xs"
  using set_take_subset [of k xs] set_drop_subset [of "Suc k" xs] by auto

lemma timers_timeout:
  assumes inv: "timers_inv n st" and g: "good_id pid n" and k: "k < length (prop_timers st)"
  shows "timers_inv (Suc n) (proposer_check_timeout k st)"
proof -
  let ?ti = "prop_timers st ! k"
  define rest where "rest = take k (prop_timers st) @ drop (Suc k) (prop_timers st)"
  have h: "i32 (last_accept_hash st + 1) = last_accept_hash st + 1"
    using inv g by (simp add: timers_inv_def counters_inv_def good_id_def)
  have ti: "?ti \<in> set (prop_timers st)" using k by simp
  show ?thesis
  proof (cases "timer_current st ?ti")
    case True
    then have w: "client_waiting st" "ti_instance_id ?ti = last_accept_iid st" by (simp_all add: timer_current_def)
    have run: "proposer_check_timeout k st = (send_proposer_buffer (st\<lparr>last_accept_hash := last_accept_hash st + 1\<rparr>))
        \<lparr>prop_timers := rest @ [?ti\<lparr>ti_hash := last_accept_hash st + 1\<rparr>]\<rparr>"
      using True h by (simp add: proposer_check_timeout_def rest_def Let_def)
    have "\<forall>t\<in>set rest. timer_ok st t" "timer_ok st ?ti"
      using inv ti set_rest [of k "prop_timers st"] by (auto simp only: timers_inv_def rest_def)
    then show ?thesis
      using inv w unfolding run timers_inv_def
      by (auto simp: counters_inv_def timer_ok_def send_proposer_buffer_def)
  next
    case False
    then have run: "proposer_check_timeout k st = st\<lparr>prop_timers := rest\<rparr>"
      by (simp add: proposer_check_timeout_def rest_def Let_def)
    have "\<forall>t\<in>set rest. timer_ok st t"
      using inv set_rest [of k "prop_timers st"] by (auto simp only: timers_inv_def rest_def)
    then show ?thesis
      using timers_inv_mono [OF inv] unfolding run timers_inv_def
      by (simp add: counters_inv_def timer_ok_def)
  qed
qed

lemma next_send_fields:
  assumes "0 \<le> last_accept_hash st" "last_accept_hash st < 2147483000"
  shows "client_waiting (send_for_next_instance i st) = client_waiting st"
    "prop_current_iid (send_for_next_instance i st) = prop_current_iid st"
    "last_accept_iid (send_for_next_instance i st) = i"
    "last_accept_hash (send_for_next_instance i st) = last_accept_hash st + 1"
    "amsg (send_for_next_instance i st) = (amsg st)\<lparr>acm_iid := prop_current_iid st\<rparr>"
    "prop_sent (send_for_next_instance i st) = prop_sent st
       @ [(Acceptors_Net, prop_msg_size st, Accept ((amsg st)\<lparr>acm_iid := prop_current_iid st\<rparr>))]"
    "prop_timers (send_for_next_instance i st) = prop_timers st
       @ [\<lparr>ti_instance_id = prop_current_iid st, ti_hash = last_accept_hash st + 1\<rparr>]"
  using assms
  by (simp_all add: send_for_next_instance_def set_proposer_check_timeout_def send_proposer_buffer_def Let_def)

lemma timers_deliver:
  assumes inv: "timers_inv n st" and g: "good_id pid n" and d: "proposer_deliver_callback d st = Some st'"
  shows "timers_inv (Suc n) st'"
proof -
  have cur: "i32 (prop_current_iid st + 1) = prop_current_iid st + 1"
    and h: "0 \<le> last_accept_hash st" "last_accept_hash st < 2147483002"
    using inv g by (simp_all add: timers_inv_def counters_inv_def good_id_def)
  have iid: "dl_iid d = prop_current_iid st" using d by (simp add: deliver_cases split: if_splits)
  consider "\<not> client_waiting st" "st' = after_lock d st"
    | "client_waiting st" "st' = (after_client d st)\<lparr>client_waiting := False\<rparr>"
    | "client_waiting st" "st' = send_for_next_instance (dl_iid d) (after_client d st)"
    using d by (auto simp: deliver_cases split: if_splits)
  then show ?thesis
  proof cases
    case 1
    with inv cur show ?thesis by (auto simp: timers_inv_def counters_inv_def timer_ok_def frame)
  next
    case 2
    with inv cur show ?thesis by (auto simp: timers_inv_def counters_inv_def timer_ok_def frame)
  next
    case 3
    have h': "i32 (last_accept_hash st + 1) = last_accept_hash st + 1" using h by simp
    have f: "client_waiting st'" "prop_current_iid st' = prop_current_iid st + 1" "last_accept_iid st' = prop_current_iid st"
      "last_accept_hash st' = last_accept_hash st + 1" "acm_iid (amsg st') = prop_current_iid st + 1"
      "prop_timers st' = prop_timers st @ [\<lparr>ti_instance_id = prop_current_iid st + 1, ti_hash = last_accept_hash st + 1\<rparr>]"
      using 3 cur h' iid
      by (simp_all add: send_for_next_instance_def set_proposer_check_timeout_def send_proposer_buffer_def frame Let_def)
    have "timer_ok st' t" if "timer_ok st t" for t
      using that inv 3(1) f(1-4) by (auto simp: timer_ok_def timers_inv_def counters_inv_def)
    moreover have "timer_ok st' \<lparr>ti_instance_id = prop_current_iid st + 1, ti_hash = last_accept_hash st + 1\<rparr>"
      by (simp add: timer_ok_def f)
    ultimately show ?thesis using inv 3(1) by (auto simp: timers_inv_def counters_inv_def f)
  qed
qed

section \<open>Every step keeps both\<close>

lemma submit_tail_nth:
  "submit_tail v ! 0 = (\<lambda>st. st\<lparr>buf_type := PAXOS_ACCEPT\<rparr>)"
  "submit_tail v ! Suc 0 = (\<lambda>st. st\<lparr>buf_size := 16 + int (length v)\<rparr>)"
  "submit_tail v ! 2 = (\<lambda>st. st\<lparr>amsg := (amsg st)\<lparr>acm_ballot := fixed_ballot st\<rparr>\<rparr>)"
  "submit_tail v ! 3 = set_value_size (int (length v))"
  "submit_tail v ! 4 = (\<lambda>st. st\<lparr>amsg := (amsg st)\<lparr>acm_proposer_id := prop_proposer_id st\<rparr>\<rparr>)"
  "j < length v \<Longrightarrow> submit_tail v ! (5 + j) = copy_byte v j"
  "submit_tail v ! (5 + length v) = (\<lambda>st. st\<lparr>prop_msg_size := i32 (buf_size st + 8)\<rparr>)"
  "submit_tail v ! (6 + length v) = send_proposer_buffer"
  "submit_tail v ! (7 + length v) = (\<lambda>st. set_proposer_check_timeout (acm_iid (amsg st)) 1 st)"
  by (simp_all add: submit_tail_def nth_append c_simps eval_nat_numeral)

lemma submit_tail_cases:
  assumes "k < length (submit_tail v)"
  obtains "k = 0" | "k = 1" | "k = 2" | "k = 3" | "k = 4" | j where "j < length v" "k = 5 + j"
    | "k = 5 + length v" | "k = 6 + length v" | "k = 7 + length v"
proof -
  have "k < 5 \<or> 5 \<le> k \<and> k - 5 < length v \<or> k = 5 + length v \<or> k = 6 + length v \<or> k = 7 + length v"
    using assms by auto
  moreover have "k < 5 \<Longrightarrow> k = 0 \<or> k = 1 \<or> k = 2 \<or> k = 3 \<or> k = 4" by auto
  ultimately show thesis using that by (metis le_add_diff_inverse)
qed

lemma identity_fillI:
  assumes "identity_inv pid (Filling v k, st)"
    and "prop_proposer_id t = prop_proposer_id st" "fixed_ballot t = fixed_ballot st" "prop_current_iid t = prop_current_iid st"
      "prop_sent t = prop_sent st" "prop_wire t = prop_wire st"
    and "buffer_ok pid t" "fill_ok pid v (Suc k) t"
  shows "identity_inv pid (Filling v (Suc k), t)"
  using assms by (simp add: identity_inv_def client_ok_def)

lemma identity_fill:
  assumes inv: "identity_inv pid (Filling v k, st)" and g: "good_id pid n" and k: "k < length (submit_tail v)"
  shows "identity_inv pid (Filling v (Suc k), (submit_tail v ! k) st)"
proof -
  have b: "buffer_ok pid st" and f: "fill_ok pid v k st" and id: "prop_proposer_id st = pid" "fixed_ballot st = MAX_PROPOSERS + pid"
    using inv by (simp_all add: identity_inv_def client_ok_def)
  have n: "length v \<le> 8960" using f fits_area [of v] by (simp add: fill_ok_def)
  note own = own_accept_def
  from k show ?thesis
  proof (cases rule: submit_tail_cases)
    case 1
    show ?thesis
      by (rule identity_fillI [OF inv]) (use b f 1 in \<open>auto simp: submit_tail_nth buffer_ok_def area_ok_def fill_ok_def settled_def\<close>)
  next
    case 2
    show ?thesis
      by (rule identity_fillI [OF inv])
        (use b f n 2 in \<open>auto simp: submit_tail_nth buffer_ok_def area_ok_def fill_ok_def settled_def\<close>)
  next
    case 3
    show ?thesis
      by (rule identity_fillI [OF inv])
        (use b f id 3 in \<open>auto simp: submit_tail_nth buffer_ok_def area_ok_def fill_ok_def settled_def own\<close>)
  next
    case 4
    let ?t = "set_value_size (int (length v)) st"
    have t: "length (acm_value (amsg ?t)) = length v" "acm_value_size (amsg ?t) = int (length v)" "area_ok ?t"
    proof -
      have "area_ok st" using b by (simp add: buffer_ok_def)
      with n show "length (acm_value (amsg ?t)) = length v" "acm_value_size (amsg ?t) = int (length v)" "area_ok ?t"
        by (simp_all add: area_ok_def set_value_size_def Let_def)
    qed
    have same: "acm_iid (amsg ?t) = acm_iid (amsg st)" "acm_ballot (amsg ?t) = acm_ballot (amsg st)"
      "acm_proposer_id (amsg ?t) = acm_proposer_id (amsg st)" "prop_msg_size ?t = prop_msg_size st"
      "buf_size ?t = buf_size st" "buf_type ?t = buf_type st" "prop_proposer_id ?t = prop_proposer_id st"
      "fixed_ballot ?t = fixed_ballot st" "prop_current_iid ?t = prop_current_iid st" "prop_sent ?t = prop_sent st"
      "prop_wire ?t = prop_wire st"
      by (simp_all add: set_value_size_def Let_def)
    have "buffer_ok pid ?t" "fill_ok pid v (Suc k) ?t"
      using b f n t 4 by (auto simp: buffer_ok_def fill_ok_def settled_def own same c_simps)
    then show ?thesis using identity_fillI [OF inv, of ?t] same 4 by (simp add: submit_tail_nth)
  next
    case 5
    show ?thesis
      by (rule identity_fillI [OF inv])
        (use b f id 5 in \<open>auto simp: submit_tail_nth buffer_ok_def area_ok_def fill_ok_def settled_def own\<close>)
  next
    case (6 j)
    have "take (Suc j) (xs[j := v ! j]) = take (Suc j) v" if "take j xs = take j v" "length xs = length v" for xs :: "byte list"
      using that 6(1) by (simp add: take_Suc_conv_app_nth)
    then have "buffer_ok pid (copy_byte v j st)" "fill_ok pid v (Suc k) (copy_byte v j st)"
      using b f 6 by (auto simp: buffer_ok_def area_ok_def fill_ok_def settled_def own copy_byte_def)
    then show ?thesis using identity_fillI [OF inv, of "copy_byte v j st"] 6 by (simp add: submit_tail_nth copy_byte_def)
  next
    case 7
    show ?thesis
      by (rule identity_fillI [OF inv])
        (use b f n id 7 in \<open>auto simp: submit_tail_nth buffer_ok_def area_ok_def fill_ok_def settled_def own c_simps\<close>)
  next
    case 8
    with identity_send [OF inv g] show ?thesis by (auto simp: submit_tail_nth identity_inv_def client_ok_def fill_ok_def)
  next
    case 9
    let ?t = "set_proposer_check_timeout (acm_iid (amsg st)) 1 st"
    have "buffer_ok pid ?t = buffer_ok pid st" "fill_ok pid v (Suc k) ?t = fill_ok pid v (Suc k) st"
      by (simp_all add: set_proposer_check_timeout_def buffer_ok_def area_ok_def fill_ok_def settled_def)
    moreover have "fill_ok pid v (Suc k) st" using f 9 by (auto simp: fill_ok_def)
    ultimately show ?thesis
      using b identity_fillI [OF inv, of ?t] 9 by (simp add: submit_tail_nth set_proposer_check_timeout_def)
  qed
qed

lemma timers_fill:
  assumes inv: "timers_inv n st" and k: "k < length (submit_tail v)"
  shows "timers_inv n ((submit_tail v ! k) st)"
  using k
proof (cases rule: submit_tail_cases)
  case 9
  then show ?thesis
    using inv by (auto simp: submit_tail_nth timers_inv_def counters_inv_def timer_ok_def set_proposer_check_timeout_def)
qed (use inv in \<open>auto simp: submit_tail_nth timers_inv_def counters_inv_def timer_ok_def set_value_size_def
      copy_byte_def send_proposer_buffer_def Let_def\<close>)

lemma identity_lock:
  "identity_inv pid (Outside, st) \<Longrightarrow> \<not> submit_too_big v \<Longrightarrow> identity_inv pid (Filling v 0, submit_lock st)"
  by (auto simp: identity_inv_def submit_lock_def buffer_ok_def area_ok_def own_accept_def client_ok_def fill_ok_def settled_def)

lemma proposer_step_inv:
  assumes inv: "identity_inv pid (pc, st)" "timers_inv n st" and g: "good_id pid n"
    and run: "proposer_step (pc, st) (pc', st')"
  shows "identity_inv pid (pc', st') \<and> timers_inv (Suc n) st'"
  using run
proof (cases rule: proposer_step.cases)
  case (too_big v)
  with inv show ?thesis by (simp add: timers_inv_mono)
next
  case (lock v)
  then have "\<not> client_waiting st" using inv(1) by (simp add: identity_inv_def client_ok_def)
  moreover have "identity_inv pid (Filling v 0, submit_lock st)"
    using lock inv(1) identity_lock by simp
  ultimately show ?thesis
    using lock inv(2) by (auto simp: timers_inv_def counters_inv_def timer_ok_def submit_lock_def)
next
  case (block v)
  then have "fill_ok pid v (length v + 8) st" using inv(1) by (simp add: identity_inv_def client_ok_def)
  then have "acm_value (amsg st) = v" by (auto simp: fill_ok_def)
  moreover have "prop_msg_size st = 24 + int (length v)" "buf_size st = 16 + int (length v)"
    using block inv(1) by (simp_all add: identity_inv_def client_ok_def fill_ok_def)
  ultimately show ?thesis
    using block inv by (simp add: identity_inv_def client_ok_def timers_inv_mono)
next
  case (wake v)
  with inv show ?thesis by (auto simp: identity_inv_def client_ok_def settled_def buffer_ok_def timers_inv_mono)
next
  case (deliver d)
  with inv g show ?thesis using identity_deliver timers_deliver by blast
next
  case (timer k)
  with inv g show ?thesis using identity_timer timers_timeout by blast
qed

lemma proposer_start_inv:
  assumes "proposer_init 0 sock pid lead proposer_static = (0, st)" and "0 \<le> pid" "pid < MAX_PROPOSERS"
  shows "identity_inv pid (Outside, st) \<and> timers_inv 0 st"
  using assms
  by (auto simp: proposer_init_def proposer_static_def identity_inv_def timers_inv_def counters_inv_def buffer_ok_def static_accept_def
      area_ok_def static_value_area_def client_ok_def settled_def
      in_i32_def c_simps Let_def split: if_splits prod.splits)

lemma proposer_reach_inv:
  assumes "proposer_reach pid n s" and "good_id pid n"
  shows "identity_inv pid s \<and> timers_inv n (snd s)"
  using assms
proof (induction rule: proposer_reach.induct)
  case (start sock lead st)
  then show ?case using proposer_start_inv [of sock pid lead st] by (simp add: good_id_def)
next
  case (step n s s')
  then have "good_id pid n" by (simp add: good_id_def)
  with step show ?case
    using proposer_step_inv [of pid "fst s" "snd s" n "fst s'" "snd s'"] by simp
next
  case (fill n s s')
  from fill.hyps(2) fill.IH [OF fill.prems] fill.prems show ?case
    by cases (auto intro: identity_fill timers_fill)
qed

end
