(* ===== verification/Proposer_Properties.thy ===== *)
theory Proposer_Properties
  imports Proposer_Correct
begin

text \<open>
  The properties of the proposer: the messages it can send, the delivery callback on every branch,
  the assertion that the learner's contract discharges, the retry timers, and where the code
  departs from what it means to do.
\<close>

section \<open>A concrete proposer for the witnesses\<close>

definition wit_prop :: proposer where
  "wit_prop = snd (proposer_init 0 3 1 False proposer_static)"

lemma wit_prop_start: "proposer_reach 1 0 (Outside, wit_prop)"
  by (rule proposer_reach.start [of 3 1 False])
    (simp add: wit_prop_def proposer_init_def Let_def)

lemma good_id_1: "n < 2147483000 \<Longrightarrow> good_id 1 n"
  by (simp add: good_id_def c_simps)

text \<open>The client has submitted the one-byte value 65 and is blocked.\<close>

definition wit_blocked :: proposer where
  "wit_blocked = submit_send [65] (submit_lock wit_prop)"

lemma wit_not_big: "\<not> submit_too_big [65]"
  by (simp add: submit_too_big_def c_simps)

lemma wit_blocked_reach: "proposer_reach 1 2 (Blocked [65], wit_blocked)"
proof -
  have "proposer_reach 1 (Suc 0) (Filling [65] 0, submit_lock wit_prop)"
    by (rule proposer_reach.step [OF wit_prop_start proposer_step.lock [OF wit_not_big]])
  from reach_submit_send [OF this] show ?thesis by (simp add: wit_blocked_def numeral_2_eq_2)
qed

lemma wit_prop_area: "area_ok (submit_lock wit_prop)"
  by (simp add: area_ok_def submit_lock_def wit_prop_def proposer_init_def proposer_static_def static_accept_def
      static_value_area_def c_simps Let_def)

lemma wit_blocked_eq:
  "wit_blocked = set_proposer_check_timeout 0 1 (send_proposer_buffer (filled [65] (submit_lock wit_prop)))"
  using submit_send_eq [OF wit_prop_area wit_not_big]
  by (simp add: wit_blocked_def submit_lock_def wit_prop_def proposer_init_def proposer_static_def Let_def)

lemmas wit_prop_simps = wit_blocked_eq wit_prop_def filled_def submit_lock_def proposer_init_def
  proposer_static_def static_accept_def set_proposer_check_timeout_def send_proposer_buffer_def c_simps Let_def

lemma wit_blocked_fields:
  "client_waiting wit_blocked" "prop_current_iid wit_blocked = 0" "prop_proposer_id wit_blocked = 1"
  "prop_timers wit_blocked = [\<lparr>ti_instance_id = 0, ti_hash = 1\<rparr>]" "last_accept_iid wit_blocked = 0"
  "last_accept_hash wit_blocked = 1" "prop_msg_size wit_blocked = 25"
  "amsg wit_blocked = \<lparr>acm_iid = 0, acm_ballot = 11, acm_value_size = 1, acm_proposer_id = 1, acm_value = [65]\<rparr>"
  "prop_sent wit_blocked = [(Acceptors_Net, 25, Accept \<lparr>acm_iid = 0, acm_ballot = 11, acm_value_size = 1,
     acm_proposer_id = 1, acm_value = [65]\<rparr>)]"
  by (simp_all add: wit_prop_simps)

text \<open>A delivery for instance 0 of the value 66 of proposer 2.\<close>

definition wit_other :: delivery where
  "wit_other = \<lparr>dl_value = [66], dl_size = 1, dl_iid = 0, dl_ballot = 12, dl_proposer = 2\<rparr>"

section \<open>What the proposer guarantees\<close>

text \<open>C24. What the proposer puts on the wire when callbacks may run between any two statements of a
  submission, even between two bytes of the copied value: every datagram is empty (before the first
  submission), or its size field disagrees with its length, so that the acceptors' check drops it, or it is the
  encoding of a well-formed accept of the proposer's own id at its fixed ballot with a value of at most
  \<^verbatim>\<open>PAXOS_MAX_VALUE_SIZE\<close> bytes. The client is outside \<^verbatim>\<open>proposer_submit_value\<close> only when nothing waits
  for it, and while it is blocked a send puts the accept of exactly its value on the wire.\<close>

theorem proposer_run_invariant:
  assumes "proposer_reach pid n (pc, st)" and "good_id pid n"
  shows "(\<forall>w\<in>set (prop_wire st). w = [] \<or> \<not> size_matches w (int (length w))
        \<or> (\<exists>m. w = encode_packet (Accept m) \<and> own_accept pid m \<and> wf_packet (Accept m)))
    \<and> (pc = Outside \<longrightarrow> \<not> client_waiting st)
    \<and> (\<forall>v. pc = Blocked v \<longrightarrow> acm_value (amsg st) = v
        \<and> prop_wire (send_proposer_buffer st) = prop_wire st @ [encode_packet (Accept (amsg st))])"
proof (intro conjI ballI allI impI)
  note inv = proposer_reach_inv [OF assms, THEN conjunct1]
  fix w assume "w \<in> set (prop_wire st)"
  then obtain i where "i < length (prop_wire st)" "w = prop_wire st ! i" by (auto simp: in_set_conv_nth)
  moreover have "list_all2 (proposer_datagram pid) (prop_sent st) (prop_wire st)" using inv by (simp add: identity_inv_def)
  ultimately have "proposer_datagram pid (prop_sent st ! i) w" by (simp add: list_all2_nthD2)
  then show "w = [] \<or> \<not> size_matches w (int (length w)) \<or> (\<exists>m. w = encode_packet (Accept m) \<and> own_accept pid m \<and> wf_packet (Accept m))"
    by (auto simp: proposer_datagram_def datagram_ok_def)
next
  assume "pc = Outside"
  then show "\<not> client_waiting st" using proposer_reach_inv [OF assms] by (simp add: identity_inv_def client_ok_def)
next
  fix v assume pc: "pc = Blocked v"
  note inv = proposer_reach_inv [OF assms, THEN conjunct1]
  then show "acm_value (amsg st) = v" using pc by (simp add: identity_inv_def client_ok_def)
  show "prop_wire (send_proposer_buffer st) = prop_wire st @ [encode_packet (Accept (amsg st))]"
    using buffer_encoded [of pid st] inv pc by (auto simp: identity_inv_def client_ok_def send_proposer_buffer_def buffer_ok_def)
qed

theorem proposer_run_invariant_witness:
  "hd (prop_wire wit_blocked) = encode_packet (Accept (amsg wit_blocked)) \<and> acm_value (amsg wit_blocked) = [65]
   \<and> length (prop_wire (send_proposer_buffer wit_blocked)) = 2"
proof -
  have "prop_wire (send_proposer_buffer wit_blocked) = prop_wire wit_blocked @ [encode_packet (Accept (amsg wit_blocked))]"
    using proposer_run_invariant [OF wit_blocked_reach good_id_1] by simp
  moreover have "prop_wire wit_blocked = [encode_packet (Accept (amsg wit_blocked))]"
    by (simp add: wit_prop_simps proposer_send_buffer_def encode_packet_def accept_bytes_def static_value_area_def le32_def)
  ultimately show ?thesis by (simp add: wit_blocked_fields)
qed

text \<open>C12. The delivery callback: it fails exactly when the instance is not the one after the last
  delivery; without a waiting client it only counts; the delivery of its own value wakes the client
  and sends nothing; a value of another proposer makes it send the client's value, unchanged, for
  the next instance.\<close>

theorem proposer_deliver_correct:
  assumes "proposer_reach pid n (pc, st)" and "good_id pid n"
  shows "(if dl_iid d \<noteq> prop_current_iid st then proposer_deliver_callback d st = None
     else \<exists>st'. proposer_deliver_callback d st = Some st'
       \<and> prop_current_iid st' = dl_iid d + 1
       \<and> client_waiting st' = (client_waiting st \<and> dl_proposer d \<noteq> pid)
       \<and> prop_sent st' = prop_sent st @
           (if client_waiting st'
            then [(Acceptors_Net, prop_msg_size st, Accept ((amsg st)\<lparr>acm_iid := dl_iid d + 1\<rparr>))] else [])
       \<and> client_calls st' = client_calls st @ (if client_waiting st \<and> has_client_deliver_func st then [d] else []))"
proof -
  have inv: "identity_inv pid (pc, st)" "timers_inv n st" using proposer_reach_inv [OF assms] by simp_all
  then have cur: "i32 (prop_current_iid st + 1) = prop_current_iid st + 1" and pid: "prop_proposer_id st = pid"
    and h: "0 \<le> last_accept_hash st" "last_accept_hash st < 2147483002"
    using assms(2) by (simp_all add: identity_inv_def timers_inv_def counters_inv_def good_id_def)
  have "client_calls (after_lock d st) = client_calls st"
    "client_calls (after_client d st) = client_calls st @ (if has_client_deliver_func st then [d] else [])"
    by (simp_all add: after_lock_def after_client_def)
  then show ?thesis
    using cur pid h
    by (auto simp: deliver_cases frame send_for_next_instance_def set_proposer_check_timeout_def
        send_proposer_buffer_def Let_def)
qed

theorem proposer_deliver_correct_witness:
  "\<exists>st'. proposer_deliver_callback wit_other wit_blocked = Some st' \<and> client_waiting st'
     \<and> prop_sent st' = prop_sent wit_blocked @ [(Acceptors_Net, 25, Accept \<lparr>acm_iid = 1, acm_ballot = 11,
         acm_value_size = 1, acm_proposer_id = 1, acm_value = [65]\<rparr>)]"
  using proposer_deliver_correct [OF wit_blocked_reach good_id_1, of wit_other]
  by (auto simp: wit_blocked_fields wit_other_def)







text \<open>Firing the timer \<open>k\<close>, if there is one.\<close>

definition fire :: "nat \<Rightarrow> proposer \<Rightarrow> proposer option" where
  "fire k st = (if k < length (prop_timers st) then Some (proposer_check_timeout k st) else None)"

definition none_current :: "proposer \<Rightarrow> bool" where
  "none_current st \<longleftrightarrow> (\<forall>t\<in>set (prop_timers st). \<not> timer_current st t)"

lemma fire_none_current:
  assumes "none_current st" "fire k st = Some st'"
  shows "none_current st' \<and> prop_sent st' = prop_sent st"
proof -
  have k: "k < length (prop_timers st)" "st' = proposer_check_timeout k st"
    using assms(2) by (simp_all add: fire_def split: if_splits)
  then have "\<not> timer_current st (prop_timers st ! k)" using assms(1) by (simp add: none_current_def)
  then have "st' = st\<lparr>prop_timers := take k (prop_timers st) @ drop (Suc k) (prop_timers st)\<rparr>"
    using k by (simp add: proposer_check_timeout_def Let_def)
  then show ?thesis
    using assms(1) set_rest [of k "prop_timers st"]
    by (auto simp: none_current_def timer_current_def)
qed

lemma fires_none_current:
  assumes "none_current st" "ofold fire ks st = Some st'"
  shows "prop_sent st' = prop_sent st"
proof -
  have "none_current st' \<and> prop_sent st' = prop_sent st"
    using assms fire_none_current
    by (intro ofold_invariant [where P = "\<lambda>s. none_current s \<and> prop_sent s = prop_sent st", of ks fire st st']) auto
  then show ?thesis by simp
qed

text \<open>C38. Until an instance is decided, each time the retry timer of the last accept fires the same
  datagram goes out again and the timer is set again; after a collision, that is after the
  delivery of another proposer's value, no timer is current: the accept for the next instance is
  sent once and never again, however many timers fire.\<close>

theorem collision_stops_retries:
  assumes "proposer_reach pid n (pc, st)" and "good_id pid n" and "client_waiting st"
  shows "(\<forall>k. k < length (prop_timers st) \<and> timer_current st (prop_timers st ! k) \<longrightarrow>
        prop_sent (proposer_check_timeout k st) = prop_sent st @ [(Acceptors_Net, prop_msg_size st, Accept (amsg st))]
        \<and> (\<exists>t\<in>set (prop_timers (proposer_check_timeout k st)). timer_current (proposer_check_timeout k st) t))
    \<and> (\<forall>d st' ks st''. proposer_deliver_callback d st = Some st' \<and> dl_proposer d \<noteq> pid
        \<and> ofold fire ks st' = Some st'' \<longrightarrow> prop_sent st'' = prop_sent st')"
proof (intro conjI allI impI; elim conjE)
  fix k assume "k < length (prop_timers st)" "timer_current st (prop_timers st ! k)"
  then show "prop_sent (proposer_check_timeout k st) = prop_sent st @ [(Acceptors_Net, prop_msg_size st, Accept (amsg st))]"
    "\<exists>t\<in>set (prop_timers (proposer_check_timeout k st)). timer_current (proposer_check_timeout k st) t"
    by (simp_all add: proposer_check_timeout_def send_proposer_buffer_def timer_current_def Let_def)
next
  fix d st' ks st''
  assume d: "proposer_deliver_callback d st = Some st'" "dl_proposer d \<noteq> pid" and fires: "ofold fire ks st' = Some st''"
  have inv: "identity_inv pid (pc, st)" "timers_inv n st" using proposer_reach_inv [OF assms(1,2)] by simp_all
  have cur: "i32 (prop_current_iid st + 1) = prop_current_iid st + 1"
    and h: "i32 (last_accept_hash st + 1) = last_accept_hash st + 1"
    using inv assms(2) by (simp_all add: timers_inv_def counters_inv_def good_id_def)
  have "st' = send_for_next_instance (dl_iid d) (after_client d st)" "dl_iid d = prop_current_iid st"
    using d assms(3) inv(1) by (auto simp: deliver_cases identity_inv_def split: if_splits)
  then have f: "last_accept_iid st' = prop_current_iid st" "last_accept_hash st' = last_accept_hash st + 1"
    "prop_timers st' = prop_timers st @ [\<lparr>ti_instance_id = prop_current_iid st + 1, ti_hash = last_accept_hash st + 1\<rparr>]"
    using cur h
    by (simp_all add: send_for_next_instance_def set_proposer_check_timeout_def send_proposer_buffer_def frame Let_def)
  have "\<not> timer_current st' t" if "timer_ok st t" for t
    using that assms(3) inv(2) f(1,2) by (auto simp: timer_current_def timer_ok_def timers_inv_def counters_inv_def)
  moreover have "\<not> timer_current st' \<lparr>ti_instance_id = prop_current_iid st + 1, ti_hash = last_accept_hash st + 1\<rparr>"
    by (simp add: timer_current_def f(1))
  ultimately have "none_current st'" using inv(2) by (auto simp: none_current_def f(3) timers_inv_def)
  with fires show "prop_sent st'' = prop_sent st'" by (rule fires_none_current [rotated])
qed

theorem collision_stops_retries_witness:
  "length (prop_sent (proposer_check_timeout 0 wit_blocked)) = 2
   \<and> (\<exists>st' st''. proposer_deliver_callback wit_other wit_blocked = Some st' \<and> client_waiting st'
        \<and> ofold fire [1, 0] st' = Some st'' \<and> prop_sent st'' = prop_sent st')"
proof -
  note both = collision_stops_retries [OF wit_blocked_reach good_id_1 [of 2, simplified] wit_blocked_fields(1)]
  have "timer_current wit_blocked (prop_timers wit_blocked ! 0)"
    by (simp add: timer_current_def wit_blocked_fields)
  with both have one: "length (prop_sent (proposer_check_timeout 0 wit_blocked)) = 2"
    by (simp add: wit_blocked_fields)
  let ?s = "send_for_next_instance 0 (after_client wit_other wit_blocked)"
  have d: "proposer_deliver_callback wit_other wit_blocked = Some ?s"
    by (simp add: deliver_cases wit_blocked_fields wit_other_def)
  have s: "client_waiting ?s" "prop_timers ?s = [\<lparr>ti_instance_id = 0, ti_hash = 1\<rparr>, \<lparr>ti_instance_id = 1, ti_hash = 2\<rparr>]"
    "last_accept_iid ?s = 0" "last_accept_hash ?s = 2"
    by (simp_all add: send_for_next_instance_def set_proposer_check_timeout_def send_proposer_buffer_def frame
        wit_blocked_fields Let_def)
  then have "\<exists>st''. ofold fire [1, 0] ?s = Some st''"
    by (simp add: fire_def proposer_check_timeout_def timer_current_def Let_def)
  then obtain st'' where "ofold fire [1, 0] ?s = Some st''" ..
  moreover have "dl_proposer wit_other \<noteq> 1" by (simp add: wit_other_def)
  ultimately have "prop_sent st'' = prop_sent ?s" using both d by blast
  with one d s(1) \<open>ofold fire [1, 0] ?s = Some st''\<close> show ?thesis by blast
qed

section \<open>Where the code departs from its purpose\<close>

text \<open>
  The state after the critical section and the first \<open>5 + j\<close> statements: the first \<open>j\<close> bytes of the
  value are written, the others are those of the previous submission.
\<close>

lemma half_filled:
  fixes v :: "byte list"
  assumes len: "length (acm_value (amsg st)) = length v" and j: "j \<le> length v"
  shows "fold (\<lambda>f. f) (take (5 + j) (submit_tail v)) st
    = st\<lparr>buf_type := PAXOS_ACCEPT, buf_size := 16 + int (length v),
        amsg := (amsg st)\<lparr>acm_ballot := fixed_ballot st, acm_value_size := int (length v),
          acm_proposer_id := prop_proposer_id st, acm_value := take j v @ drop j (acm_value (amsg st))\<rparr>\<rparr>"
proof -
  define s where "s = st\<lparr>buf_type := PAXOS_ACCEPT, buf_size := 16 + int (length v),
    amsg := (amsg st)\<lparr>acm_ballot := fixed_ballot st, acm_value_size := int (length v), acm_proposer_id := prop_proposer_id st\<rparr>\<rparr>"
  have "take j (map (copy_byte v) [0..<length v] @ xs) = map (copy_byte v) [0..<j]" for xs
    using j by (simp add: take_map)
  moreover have "set_value_size (int (length v)) t = t\<lparr>amsg := (amsg t)\<lparr>acm_value_size := int (length v)\<rparr>\<rparr>"
    if "length (acm_value (amsg t)) = length v" for t
    using that by (simp add: set_value_size_def Let_def)
  ultimately have "fold (\<lambda>f. f) (take (5 + j) (submit_tail v)) st = fold (\<lambda>f. f) (map (copy_byte v) [0..<j]) s"
    using len by (simp add: submit_tail_def s_def c_simps eval_nat_numeral)
  also have "\<dots> = s\<lparr>amsg := (amsg s)\<lparr>acm_value := take j v @ drop j (acm_value (amsg s))\<rparr>\<rparr>"
    using len j by (intro copied_bytes) (simp_all add: s_def)
  finally show ?thesis by (simp add: s_def)
qed

text \<open>C15. The delivery of another proposer's value while \<^verbatim>\<open>proposer_submit_value\<close> copies the client's value
  sends a mix of two values: when the previous submission had a value of the same length, the datagram is a
  well-formed accept for the next instance at the proposer's ballot, with the bytes copied so far
  followed by the previous value's. In the witness no client submitted the result.\<close>

theorem submission_race_sends_torn_value:
  fixes d :: delivery
  assumes "proposer_reach pid n (Outside, st)" and "good_id pid n" and "\<not> submit_too_big v"
    and old: "prop_msg_size st \<noteq> 0" "length (acm_value (amsg st)) = length v"
    and d: "dl_iid d = prop_current_iid st" "dl_proposer d \<noteq> pid" and j: "j \<le> length v"
  shows "\<exists>st'. proposer_reach pid (n + 2) (Filling v (5 + j), st')
    \<and> last (prop_wire st') = encode_packet (Accept \<lparr>acm_iid = prop_current_iid st + 1, acm_ballot = MAX_PROPOSERS + pid,
         acm_value_size = int (length v), acm_proposer_id = pid, acm_value = take j v @ drop j (acm_value (amsg st))\<rparr>)"
proof -
  have inv: "identity_inv pid (Outside, st)" "timers_inv n st" using proposer_reach_inv [OF assms(1,2)] by simp_all
  then have cur: "i32 (prop_current_iid st + 1) = prop_current_iid st + 1"
    and id: "prop_proposer_id st = pid" "fixed_ballot st = MAX_PROPOSERS + pid"
    using assms(2) by (simp_all add: identity_inv_def timers_inv_def counters_inv_def good_id_def)
  have size: "prop_msg_size st = 24 + int (length v)"
    using inv(1) old by (auto simp: identity_inv_def client_ok_def settled_def buffer_ok_def)
  define s where "s = fold (\<lambda>f. f) (take (5 + j) (submit_tail v)) (submit_lock st)"
  have s: "s = (submit_lock st)\<lparr>buf_type := PAXOS_ACCEPT, buf_size := 16 + int (length v),
        amsg := (amsg (submit_lock st))\<lparr>acm_ballot := fixed_ballot (submit_lock st), acm_value_size := int (length v),
          acm_proposer_id := prop_proposer_id (submit_lock st), acm_value := take j v @ drop j (acm_value (amsg (submit_lock st)))\<rparr>\<rparr>"
    unfolding s_def using old j by (intro half_filled) (simp_all add: submit_lock_def)
  have "proposer_reach pid (Suc n) (Filling v 0, submit_lock st)"
    by (rule proposer_reach.step [OF assms(1) proposer_step.lock [OF assms(3)]])
  from reach_fills [OF this, of "5 + j"] j have "proposer_reach pid (Suc n) (Filling v (5 + j), s)" by (simp add: s_def)
  moreover have "proposer_deliver_callback d s = Some (send_for_next_instance (dl_iid d) (after_client d s))"
    using d id by (simp add: deliver_cases s submit_lock_def)
  ultimately have "proposer_reach pid (n + 2) (Filling v (5 + j), send_for_next_instance (dl_iid d) (after_client d s))"
    using proposer_reach.step proposer_step.deliver by fastforce
  moreover have "last (prop_wire (send_for_next_instance (dl_iid d) (after_client d s)))
    = encode_packet (Accept \<lparr>acm_iid = prop_current_iid st + 1, acm_ballot = MAX_PROPOSERS + pid,
         acm_value_size = int (length v), acm_proposer_id = pid, acm_value = take j v @ drop j (acm_value (amsg st))\<rparr>)"
    using j old(2) cur id size
    by (simp add: send_for_next_instance_def set_proposer_check_timeout_def send_proposer_buffer_def proposer_send_buffer_def
        encode_packet_def accept_bytes_def frame s submit_lock_def nat_add_distrib Let_def)
  ultimately show ?thesis by blast
qed

text \<open>Proposer 1 was served instance 0 with the value 65.\<close>

definition served :: "proposer \<Rightarrow> proposer" where
  "served st = (after_client (wit_other\<lparr>dl_proposer := 1\<rparr>) st)\<lparr>client_waiting := False\<rparr>"

lemma served_reach:
  assumes "proposer_reach 1 2 (Blocked v, st)" and "client_waiting st" "prop_current_iid st = 0" "prop_proposer_id st = 1"
  shows "proposer_reach 1 4 (Outside, served st)"
proof -
  have "proposer_deliver_callback (wit_other\<lparr>dl_proposer := 1\<rparr>) st = Some (served st)"
    using assms(2-) by (simp add: deliver_cases wit_other_def served_def)
  from proposer_reach.step [OF assms(1) proposer_step.deliver [OF this]]
  have "proposer_reach 1 (Suc 2) (Blocked v, served st)" .
  from proposer_reach.step [OF this proposer_step.wake]
  show ?thesis by (simp add: served_def)
qed

definition wit_served :: proposer where
  "wit_served = served wit_blocked"

lemma wit_served_reach: "proposer_reach 1 4 (Outside, wit_served)"
  unfolding wit_served_def by (rule served_reach [OF wit_blocked_reach wit_blocked_fields(1-3)])

lemma wit_served_fields:
  "prop_current_iid wit_served = 1" "prop_msg_size wit_served = 25" "acm_value (amsg wit_served) = [65]"
  by (simp_all add: wit_served_def served_def frame wit_blocked_fields)

text \<open>The same with a value of two bytes, so that the next one can be torn between them.\<close>

definition wit_pair :: proposer where
  "wit_pair = submit_send [65, 66] (submit_lock wit_prop)"

lemma wit_pair_reach: "proposer_reach 1 2 (Blocked [65, 66], wit_pair)"
proof -
  have "\<not> submit_too_big [65, 66]" by (simp add: submit_too_big_def c_simps)
  from proposer_reach.step [OF wit_prop_start proposer_step.lock [OF this]]
  have "proposer_reach 1 (Suc 0) (Filling [65, 66] 0, submit_lock wit_prop)" .
  from reach_submit_send [OF this] show ?thesis by (simp add: wit_pair_def numeral_2_eq_2)
qed

lemma wit_pair_fields:
  "client_waiting wit_pair" "prop_current_iid wit_pair = 0" "prop_proposer_id wit_pair = 1" "prop_msg_size wit_pair = 26"
  "acm_value (amsg wit_pair) = [65, 66]"
proof -
  have "\<not> submit_too_big [65, 66]" by (simp add: submit_too_big_def c_simps)
  from submit_send_eq [OF _ this, of "submit_lock wit_prop"] wit_prop_area
  show "client_waiting wit_pair" "prop_current_iid wit_pair = 0" "prop_proposer_id wit_pair = 1" "prop_msg_size wit_pair = 26"
    "acm_value (amsg wit_pair) = [65, 66]"
    by (simp_all add: wit_pair_def set_proposer_check_timeout_def send_proposer_buffer_def filled_def submit_lock_def
        wit_prop_def proposer_init_def proposer_static_def Let_def)
qed

theorem submission_race_sends_torn_value_witness:
  "\<exists>st'. proposer_reach 1 6 (Filling [67, 68] 6, st')
     \<and> last (prop_wire st') = encode_packet (Accept \<lparr>acm_iid = 2, acm_ballot = 11, acm_value_size = 2,
         acm_proposer_id = 1, acm_value = [67, 66]\<rparr>)"
proof -
  have v: "\<not> submit_too_big [67, 68]" by (simp add: submit_too_big_def c_simps)
  have f: "prop_current_iid (served wit_pair) = 1" "prop_msg_size (served wit_pair) = 26" "acm_value (amsg (served wit_pair)) = [65, 66]"
    by (simp_all add: served_def frame wit_pair_fields)
  from submission_race_sends_torn_value [OF served_reach [OF wit_pair_reach wit_pair_fields(1-3)] good_id_1 v,
      of "wit_other\<lparr>dl_iid := 1\<rparr>" 1] f
  show ?thesis by (simp add: wit_other_def c_simps)
qed

text \<open>\<^verbatim>\<open>proposer_init_and_deliver\<close> ignores the id it is given: it passes the static one on, so in
  a new process every proposer started this way has id 0 and the ballot of proposer 0.\<close>

theorem init_and_deliver_ignores_id:
  assumes "proposer_init_and_deliver 0 sock prop_id is_leader proposer_static = (0, st)"
  shows "prop_proposer_id st = 0 \<and> fixed_ballot st = MAX_PROPOSERS \<and> has_client_deliver_func st"
  using assms
  by (auto simp: proposer_init_and_deliver_def proposer_init_def leader_init_def proposer_static_def c_simps Let_def
      split: if_splits)

theorem init_and_deliver_ignores_id_witness:
  "prop_proposer_id (snd (proposer_init_and_deliver 0 3 7 False proposer_static)) = 0"
  using init_and_deliver_ignores_id [of 3 7 False "snd (proposer_init_and_deliver 0 3 7 False proposer_static)"]
  by (simp add: proposer_init_and_deliver_def proposer_init_def Let_def)

end
