(* ===== verification/Agreement.thy ===== *)
theory Agreement
  imports Acceptor_Properties Leader_Properties Proposer_Properties
begin

text \<open>
  What the properties that span components share: runs of an acceptor over a list of packets, one
  any message followed by one accept, an acceptor that answered a prepare, and three reports of one
  accept that reach a learner.
\<close>

definition acceptor_run :: "'s acc_env \<Rightarrow> packet list \<Rightarrow> 's acceptor \<Rightarrow> 's acceptor option" where
  "acceptor_run env ps st = ofold (\<lambda>p s. map_option snd (handle_message env p s)) ps st"

lemma acceptor_run_append:
  "acceptor_run env ps st = Some t \<Longrightarrow> acceptor_run env (ps @ qs) st = acceptor_run env qs t"
  by (simp add: acceptor_run_def ofold_append)

section \<open>One any message and one accept\<close>

lemma handle_anyval_slot:
  assumes "ar_iid (slot st i) \<le> i" and "handle_anyval env b i st = Some (1, t)"
  shows "ar_iid (slot t i) = i \<and> ar_any_enabled (slot t i) = 1"
  using assms
  by (auto simp: handle_anyval_def slot_def Let_def frame apply_anyval_def anyval_record_def set_slot_def
      split: if_splits)

lemma handle_accept_slot:
  assumes "ar_iid (slot st (acm_iid m)) = acm_iid m"
  shows "ar_iid (slot (snd (handle_accept env m st)) (acm_iid m)) = acm_iid m"
  using assms
  by (auto simp: handle_accept_def slot_def Let_def frame apply_accept_def accepted_record_def set_slot_def)

lemma any_accept_round:
  assumes inv: "acc_inv env st" and env: "env_ok env" and i: "valid_iid i" "in_i32 b" "ar_iid (slot st i) \<le> i"
    and old: "\<And>f. known env st i = Some f \<Longrightarrow> fl_ballot f \<le> b"
    and m: "accept_msg_ok m" "acm_iid m = i"
  shows "\<exists>t. acceptor_run env [Anyval b [i], Accept m] st = Some t \<and> acc_inv env t \<and> ar_iid (slot t i) = i
    \<and> known env t i = Some (accept_flat m) \<and> acceptor_id t = acceptor_id st
    \<and> acc_sent t = acc_sent st @ [learn_datagram (learn_of_accept (acceptor_id st) m)]"
proof -
  have "any_ok (sees_any env st i) b i (known env st)" "\<not> any_crashes env st i"
    using old i(3) by (auto simp: any_ok_def any_crashes_def split: option.split)
  with handle_anyval_out [OF inv env i(1,2)] obtain t1 where
    t1: "handle_anyval env b i st = Some (1, t1)" "anys env b i st t1"
    by (auto split: option.splits)
  note slot1 = handle_anyval_slot [OF i(3) t1(1)]
  let ?t = "snd (handle_accept env m t1)"
  have "sees_any env t1 (acm_iid m)" using slot1 m(2) by (simp add: sees_any_def)
  moreover have "known env t1 (acm_iid m) = Some (any_flat i b)" using t1(2) m(2) by (simp add: anys_def)
  ultimately have "accept_ok (sees_any env t1 (acm_iid m)) m (known env t1)" by (simp add: accept_ok_def)
  with handle_accept_out [OF _ env m(1), of t1] t1(2) have acc: "accepts env m t1 ?t" by (simp add: anys_def)
  have "acceptor_run env [Anyval b [i], Accept m] st = Some ?t"
    using t1(1) by (simp add: acceptor_run_def handle_batch_anyval_def)
  then show ?thesis
    using acc t1(2) m(2) slot1 handle_accept_slot [of t1 m env] by (simp add: accepts_def anys_def)
qed

text \<open>A new acceptor that answered the leader's prepare for the instance.\<close>

lemma prepared_acceptor:
  assumes env: "env_ok env" "empty_db env db0" and a: "in_i32 a" and m: "prepare_ok m" "0 \<le> pm_iid m"
  shows "\<exists>t. acceptor_run env [Prepare_Batch [m]] (acceptor_init a db0) = Some t \<and> acc_inv env t
    \<and> ar_iid (slot t (pm_iid m)) = pm_iid m \<and> acceptor_id t = a
    \<and> (\<forall>f. known env t (pm_iid m) = Some f \<longrightarrow> fl_ballot f = pm_ballot m)"
proof -
  let ?st = "acceptor_init a db0" and ?i = "pm_iid m"
  have inv: "acc_inv env ?st" using env a by (intro acc_inv_init)
  have none: "known env ?st ?i = None"
    using env(2) by (simp add: known_def empty_db_def acceptor_init_def)
  let ?t = "snd (handle_prepare_batch env [m] ?st)"
  have out: "acc_inv env ?t" "known env ?t = prepare_spec m (known env ?st)" "acceptor_id ?t = a"
    using handle_prepare_batch_out [of "[m]" env ?st] env inv m by (simp_all add: acceptor_init_def)
  let ?u = "?st\<lparr>send_buffer_size := sizeof_paxos_msg + sizeof_promise_batch_msg, batch_promises := [],
    batch_acceptor_id := acceptor_id ?st\<rparr>"
  have "slot ?t ?i = slot (snd (handle_prepare env m ?u)) ?i"
    by (simp add: handle_prepare_batch_def slot_def frame Let_def)
  moreover have "ar_iid (slot ?u ?i) \<le> ?i" using m(2) by (simp add: slot_def acceptor_init_def static_record_def)
  ultimately have "ar_iid (slot ?t ?i) = ?i" using handle_prepare_slot [of ?u m env] by simp
  moreover have "\<forall>f. known env ?t ?i = Some f \<longrightarrow> fl_ballot f = pm_ballot m"
    using out(2) none by (auto simp: prepare_spec_def prepare_flat_def split: option.splits if_splits)
  moreover have "acceptor_run env [Prepare_Batch [m]] ?st = Some ?t" by (simp add: acceptor_run_def)
  ultimately show ?thesis using out by blast
qed

section \<open>A quorum of learn messages\<close>

definition delivery_of :: "accept_msg \<Rightarrow> delivery" where
  "delivery_of m = \<lparr>dl_value = acm_value m, dl_size = acm_value_size m, dl_iid = acm_iid m,
     dl_ballot = acm_ballot m, dl_proposer = acm_proposer_id m\<rparr>"

lemma three_learns_deliver:
  assumes "acm_iid m = 0" and "wf_accept m"
  shows "delivered (learner_run (map (\<lambda>a. learn_of_accept a m) [0, 1, 2])) = [delivery_of m]"
  using assms
  by (simp add: learner_run_def learn_of_accept_def learner_start_def static_learner_record_def
      learner_eval quorum_of_def numeral_3_eq_3 delivery_of_def wf_accept_def)

text \<open>The accepts of proposers 1 and 2 for instance 0.\<close>

definition wit_A :: accept_msg where
  "wit_A = \<lparr>acm_iid = 0, acm_ballot = 11, acm_value_size = 1, acm_proposer_id = 1, acm_value = [65]\<rparr>"

definition wit_B :: accept_msg where
  "wit_B = \<lparr>acm_iid = 0, acm_ballot = 12, acm_value_size = 1, acm_proposer_id = 2, acm_value = [66]\<rparr>"

lemma wit_AB_ok [simp]: "accept_msg_ok wit_A" "accept_msg_ok wit_B"
  by (simp_all add: wit_A_def wit_B_def accept_msg_ok_def valid_iid_def wf_accept_def in_i32_def c_simps)

end
