(* ===== verification/Fast_Path.thy ===== *)
theory Fast_Path
  imports Agreement
begin

text \<open>
  Agreement on the fast path, for the acceptors' code and not only for a set of votes: whatever an
  acceptor is sent while no instance is recovered, it reports one value per instance, so that the
  hypotheses of the learners' agreement theorem hold for everything the acceptors send.

  The traces are the ones in which the leader opens each instance once, after its prepares, proposers
  send accepts below the leaders' ballots, and learners may ask for retransmission at any time. They
  stay in the first round of the acceptors' array, instances below \<^verbatim>\<open>ACCEPTOR_ARRAY_SIZE\<close>.
\<close>

section \<open>Traces of the fast path\<close>

definition first_round :: "int \<Rightarrow> bool" where
  "first_round i \<longleftrightarrow> 0 \<le> i \<and> i < ACCEPTOR_ARRAY_SIZE"

text \<open>\<open>op\<close> holds the instances of the any messages so far.\<close>

fun fast_trace :: "int list \<Rightarrow> packet list \<Rightarrow> bool" where
  "fast_trace op [] = True"
| "fast_trace op (Prepare_Batch ms # ps) =
     (list_all (\<lambda>m. first_round (pm_iid m) \<and> pm_iid m \<notin> set op) ms \<and> fast_trace op ps)"
| "fast_trace op (Anyval b ids # ps) =
     (distinct ids \<and> list_all (\<lambda>i. first_round i \<and> i \<notin> set op) ids \<and> fast_trace (ids @ op) ps)"
| "fast_trace op (Accept m # ps) =
     (first_round (acm_iid m) \<and> accept_msg_ok m \<and> acm_ballot m < min_ballot \<and> fast_trace op ps)"
| "fast_trace op (Lsync ids # ps) = (list_all first_round ids \<and> fast_trace op ps)"
| "fast_trace op (p # ps) = fast_trace op ps"

definition accepts_in :: "packet list \<Rightarrow> accept_msg set" where
  "accepts_in ps = {m. Accept m \<in> set ps}"

definition learns_in :: "datagram \<Rightarrow> learn_msg list" where
  "learns_in d = (case snd (snd d) of Learn l \<Rightarrow> [l] | _ \<Rightarrow> [])"

definition sent_learns :: "'s acceptor \<Rightarrow> learn_msg list" where
  "sent_learns st = concat (map learns_in (acc_sent st))"

lemma first_round_index: "first_round i \<Longrightarrow> GET_ACC_INDEX i = nat i"
  by (simp add: first_round_def GET_ACC_INDEX_mod c_simps)

lemma first_round_slot: "first_round i \<Longrightarrow> slot st i = acceptor_array st (nat i)"
  by (simp add: slot_def first_round_index)

section \<open>What a slot has gone through\<close>

text \<open>
  \<open>M\<close> are the accepts received, \<open>L\<close> the learns sent for the instance: none before a value is there;
  then only that of the record, whose any flag is spent.
\<close>

definition fast_slot :: "int set \<Rightarrow> accept_msg set \<Rightarrow> int \<Rightarrow> int \<Rightarrow> learn_msg set \<Rightarrow> acceptor_record \<Rightarrow> bool" where
  "fast_slot op M a i L r \<longleftrightarrow> ar_iid r \<in> {-1, i}
     \<and> (ar_value r = None \<longrightarrow> L = {})
     \<and> (ar_value r \<noteq> None \<longrightarrow> ar_any_enabled r = 0 \<and> i \<in> op \<and> L \<subseteq> {learn_of a r}
          \<and> (\<exists>m\<in>M. acm_iid m = i \<and> learn_of a r = learn_of_accept a m))
     \<and> (i \<notin> op \<longrightarrow> ar_any_enabled r = 0)"

definition learns_for :: "'s acceptor \<Rightarrow> int \<Rightarrow> learn_msg set" where
  "learns_for st i = {l \<in> set (sent_learns st). lm_iid l = i}"

definition fast_inv :: "int set \<Rightarrow> accept_msg set \<Rightarrow> int \<Rightarrow> 's acceptor \<Rightarrow> bool" where
  "fast_inv op M a st \<longleftrightarrow> acceptor_id st = a
     \<and> (\<forall>l\<in>set (sent_learns st). first_round (lm_iid l))
     \<and> (\<forall>i. first_round i \<longrightarrow> fast_slot op M a i (learns_for st i) (acceptor_array st (nat i)))"

lemma fast_inv_update:
  assumes "fast_inv op M a st" and "first_round i"
    and "acceptor_array t = (acceptor_array st)(nat i := r)" and "sent_learns t = sent_learns st @ ls"
    and "acceptor_id t = acceptor_id st" and "\<forall>l\<in>set ls. lm_iid l = i"
    and "fast_slot op M a i (learns_for st i \<union> set ls) r"
  shows "fast_inv op M a t"
proof -
  have "learns_for t j = (if j = i then learns_for st i \<union> set ls else learns_for st j)" for j
    using assms(4,6) by (auto simp: learns_for_def)
  then show ?thesis using assms by (auto simp: fast_inv_def first_round_def)
qed

lemma fast_slot_mono:
  "fast_slot op M a i L r \<Longrightarrow> op \<subseteq> op' \<Longrightarrow> M \<subseteq> M' \<Longrightarrow> fast_slot op' M' a i L r"
  unfolding fast_slot_def by blast

lemma fast_inv_mono: "fast_inv op M a st \<Longrightarrow> op \<subseteq> op' \<Longrightarrow> M \<subseteq> M' \<Longrightarrow> fast_inv op' M' a st"
  using fast_slot_mono unfolding fast_inv_def by blast

section \<open>The handlers\<close>

lemma sent_learns_flush [frame]: "sent_learns (flush_promises env st) = sent_learns st"
  by (simp add: sent_learns_def flush_promises_def flush_send_buffer_def learns_in_def Let_def)

lemma sent_learns_add_promise [frame]:
  "sent_learns (snd (add_promise_to_send_buffer env r st)) = sent_learns st"
  using sent_learns_flush [of env st] by (auto simp: add_promise_to_send_buffer_def sent_learns_def Let_def)

lemma sent_learns_send_learn:
  "sent_learns (snd (send_learn_message env r st)) = sent_learns st @ [learn_of (acceptor_id st) r]"
  by (simp add: sent_learns_def send_learn_sent learns_in_def learn_datagram_def)

lemma sent_learns_frame [frame]:
  "sent_learns (update_disk env r st) = sent_learns st"
  "sent_learns (set_slot k r st) = sent_learns st"
  by (simp_all add: sent_learns_def frame)

lemma set_slot_array [frame]: "acceptor_array (set_slot k r st) = (acceptor_array st)(k := r)"
  by (simp add: set_slot_def)

text \<open>Each handler rewrites at most the slot of its instance.\<close>

lemma prepare_fast:
  fixes env :: "'s acc_env"
  assumes "first_round (pm_iid m)" and "ar_iid (acceptor_array st (nat (pm_iid m))) \<in> {-1, pm_iid m}"
  defines "t \<equiv> snd (handle_prepare env m st)" and "r \<equiv> acceptor_array st (nat (pm_iid m))"
  defines "r' \<equiv> acceptor_array t (nat (pm_iid m))"
  shows "acceptor_array t = (acceptor_array st)(nat (pm_iid m) := r') \<and> sent_learns t = sent_learns st
    \<and> acceptor_id t = acceptor_id st \<and> ar_iid r' \<in> {-1, pm_iid m} \<and> ar_any_enabled r' = ar_any_enabled r
    \<and> (ar_value r = None \<longrightarrow> ar_value r' = None)"
  using assms(1,2) unfolding r'_def t_def r_def
  by (auto simp: handle_prepare_def first_round_index first_round_def Let_def frame)

lemma anyval_fast:
  assumes "first_round i" and "ar_iid (acceptor_array st (nat i)) \<in> {-1, i}"
  shows "\<exists>ret t. handle_anyval env b i st = Some (ret, t) \<and> sent_learns t = sent_learns st
    \<and> acceptor_id t = acceptor_id st
    \<and> (acceptor_array t = acceptor_array st
       \<or> acceptor_array t = (acceptor_array st)(nat i := anyval_record (acceptor_array st (nat i)) i b))"
  using assms
  by (auto simp: handle_anyval_def first_round_index first_round_def Let_def frame apply_anyval_def)

lemma accept_fast:
  fixes env :: "'s acc_env"
  assumes "first_round (acm_iid m)" and "ar_iid (acceptor_array st (nat (acm_iid m))) \<in> {-1, acm_iid m}"
    and "acm_ballot m < min_ballot"
  defines "t \<equiv> snd (handle_accept env m st)" and "r \<equiv> acceptor_array st (nat (acm_iid m))"
  defines "r' \<equiv> accepted_record (clear_any r) m"
  shows "acceptor_id t = acceptor_id st
    \<and> (if ar_iid r = acm_iid m \<and> ar_any_enabled r \<noteq> 0
       then acceptor_array t = (acceptor_array st)(nat (acm_iid m) := r')
         \<and> sent_learns t = sent_learns st @ [learn_of (acceptor_id st) r']
       else acceptor_array t = acceptor_array st \<and> sent_learns t = sent_learns st)"
  using assms(1-3) unfolding t_def r_def r'_def
  by (auto simp: handle_accept_def first_round_index first_round_def Let_def frame apply_accept_def
      accept_enabled_def sent_learns_send_learn)

lemma lsync_fast:
  fixes env :: "'s acc_env"
  assumes "first_round i" and "ar_iid (acceptor_array st (nat i)) \<in> {-1, i}"
  defines "t \<equiv> snd (handle_lsync env i st)" and "r \<equiv> acceptor_array st (nat i)"
  shows "acceptor_id t = acceptor_id st \<and> acceptor_array t = acceptor_array st
    \<and> sent_learns t = sent_learns st
       @ (if ar_iid r = i \<and> ar_value r \<noteq> None then [learn_of (acceptor_id st) r] else [])"
  using assms(1,2) unfolding t_def r_def
  by (auto simp: handle_lsync_def first_round_index first_round_def Let_def frame sent_learns_send_learn)

section \<open>The invariant along a trace\<close>

lemma fast_inv_cong:
  "acceptor_array t = acceptor_array st \<Longrightarrow> sent_learns t = sent_learns st \<Longrightarrow> acceptor_id t = acceptor_id st \<Longrightarrow>
   fast_inv op M a t = fast_inv op M a st"
  by (simp add: fast_inv_def learns_for_def)

lemma fast_invD:
  assumes "fast_inv op M a st" and "first_round i"
  shows "fast_slot op M a i (learns_for st i) (acceptor_array st (nat i))" and "acceptor_id st = a"
    and "ar_iid (acceptor_array st (nat i)) \<in> {-1, i}"
  using assms by (auto simp: fast_inv_def fast_slot_def)

lemma fast_inv_init: "fast_inv {} {} a (acceptor_init a db0)"
  by (simp add: fast_inv_def fast_slot_def acceptor_init_def static_record_def sent_learns_def learns_for_def)

lemma prepare_step_fast:
  assumes inv: "fast_inv op M a st" and i: "first_round (pm_iid m)" "pm_iid m \<notin> op"
  shows "fast_inv op M a (snd (handle_prepare env m st))"
proof -
  note p = prepare_fast [OF i(1) fast_invD(3) [OF inv i(1)], of env]
  note s = fast_invD(1) [OF inv i(1)]
  let ?r = "acceptor_array st (nat (pm_iid m))" and ?r' = "acceptor_array (snd (handle_prepare env m st)) (nat (pm_iid m))"
  have "ar_value ?r = None" using s i(2) by (auto simp: fast_slot_def)
  then have "fast_slot op M a (pm_iid m) (learns_for st (pm_iid m)) ?r'"
    using s p i(2) by (auto simp: fast_slot_def)
  then show ?thesis using p by (intro fast_inv_update [OF inv i(1), of _ ?r' "[]"]) auto
qed

lemma prepare_batch_step_fast:
  assumes inv: "fast_inv op M a st"
    and ms: "list_all (\<lambda>m. first_round (pm_iid m) \<and> pm_iid m \<notin> op) ms"
  shows "fast_inv op M a (snd (handle_prepare_batch env ms st))"
proof -
  let ?st1 = "st\<lparr>send_buffer_size := sizeof_paxos_msg + sizeof_promise_batch_msg, batch_promises := [],
    batch_acceptor_id := acceptor_id st\<rparr>"
  let ?st2 = "fold (\<lambda>m s. snd (handle_prepare env m s)) ms ?st1"
  have "fast_inv op M a ?st1" using inv by (simp add: fast_inv_cong [of ?st1 st] sent_learns_def)
  with ms have "fast_inv op M a ?st2"
    by (induction ms arbitrary: st rule: rev_induct) (auto intro: prepare_step_fast)
  then show ?thesis
    by (simp add: handle_prepare_batch_def Let_def fast_inv_cong [of "flush_promises env ?st2" ?st2] frame)
qed

lemma anyval_step_fast:
  assumes inv: "fast_inv op M a st" and i: "first_round i" "i \<notin> op"
  obtains ret t where "handle_anyval env b i st = Some (ret, t)" "fast_inv (insert i op) M a t"
proof -
  let ?r = "acceptor_array st (nat i)"
  obtain ret t where t: "handle_anyval env b i st = Some (ret, t)" "sent_learns t = sent_learns st"
      "acceptor_id t = acceptor_id st"
      "acceptor_array t = acceptor_array st \<or> acceptor_array t = (acceptor_array st)(nat i := anyval_record ?r i b)"
    using anyval_fast [OF i(1) fast_invD(3) [OF inv i(1)], of env b] by blast
  have inv': "fast_inv (insert i op) M a st" using inv by (rule fast_inv_mono) auto
  have "learns_for st i = {}" using fast_invD(1) [OF inv i(1)] i(2) by (auto simp: fast_slot_def)
  then have "fast_slot (insert i op) M a i (learns_for st i) (anyval_record ?r i b)"
    by (simp add: fast_slot_def anyval_record_def)
  then have "fast_inv (insert i op) M a t"
    using t(4) fast_inv_update [OF inv' i(1), of t "anyval_record ?r i b" "[]"] inv' t(2,3)
    by (auto simp: fast_inv_cong [of t st])
  with t(1) show thesis by (rule that)
qed

lemma batch_anyval_step_fast:
  assumes "fast_inv op M a st" and "distinct ids" and "list_all (\<lambda>i. first_round i \<and> i \<notin> op) ids"
  shows "\<exists>ret t. handle_batch_anyval env b ids st = Some (ret, t) \<and> fast_inv (set ids \<union> op) M a t"
proof -
  have "\<exists>t. ofold (\<lambda>i s. map_option snd (handle_anyval env b i s)) ids st = Some t \<and> fast_inv (set ids \<union> op) M a t"
    using assms
  proof (induction ids arbitrary: st op)
    case Nil
    then show ?case by simp
  next
    case (Cons i ids)
    obtain ret t where t: "handle_anyval env b i st = Some (ret, t)" "fast_inv (insert i op) M a t"
      using anyval_step_fast [of op M a st i env b] Cons.prems by auto
    then show ?case using Cons.IH [OF t(2)] Cons.prems by (auto simp: list_all_iff)
  qed
  then show ?thesis by (auto simp: handle_batch_anyval_def)
qed

lemma accept_step_fast:
  assumes inv: "fast_inv op M a st" and i: "first_round (acm_iid m)" and m: "accept_msg_ok m" "acm_ballot m < min_ballot"
  shows "fast_inv op (insert m M) a (snd (handle_accept env m st))"
proof -
  let ?r = "acceptor_array st (nat (acm_iid m))" and ?t = "snd (handle_accept env m st)"
  let ?r' = "accepted_record (clear_any ?r) m"
  note acc = accept_fast [OF i fast_invD(3) [OF inv i] m(2), of env] and s = fast_invD(1,2) [OF inv i]
  have inv': "fast_inv op (insert m M) a st" using inv by (rule fast_inv_mono) auto
  show ?thesis
  proof (cases "ar_iid ?r = acm_iid m \<and> ar_any_enabled ?r \<noteq> 0")
    case True
    have "learns_for st (acm_iid m) = {}" "acm_iid m \<in> op" using s True by (auto simp: fast_slot_def)
    moreover have "ar_iid ?r' = acm_iid m" "ar_value ?r' \<noteq> None" "ar_any_enabled ?r' = 0"
      by (simp_all add: accepted_record_def clear_any_def)
    ultimately have "fast_slot op (insert m M) a (acm_iid m) (learns_for st (acm_iid m) \<union> {learn_of a ?r'}) ?r'"
      using learn_of_accepted [OF m(1), of a "clear_any ?r"] by (auto simp: fast_slot_def)
    moreover have "lm_iid (learn_of a ?r') = acm_iid m" by (simp add: learn_of_def accepted_record_def)
    ultimately show ?thesis
      using True acc s(2) by (intro fast_inv_update [OF inv' i, of _ ?r' "[learn_of a ?r']"]) simp_all
  next
    case False
    then show ?thesis using acc inv' by (auto simp: fast_inv_cong [of ?t st])
  qed
qed

lemma lsync_step_fast:
  assumes inv: "fast_inv op M a st" and i: "first_round i"
  shows "fast_inv op M a (snd (handle_lsync env i st))"
proof -
  let ?r = "acceptor_array st (nat i)"
  let ?ls = "if ar_iid ?r = i \<and> ar_value ?r \<noteq> None then [learn_of a ?r] else []"
  note l = lsync_fast [OF i fast_invD(3) [OF inv i], of env] and s = fast_invD(1,2) [OF inv i]
  have "fast_slot op M a i (learns_for st i \<union> set ?ls) ?r" using s(1) by (auto simp: fast_slot_def)
  then show ?thesis
    using l s(2) by (intro fast_inv_update [OF inv i, of _ ?r ?ls]) (auto simp: learn_of_def)
qed

lemma batch_lsync_step_fast:
  assumes "fast_inv op M a st" and "list_all first_round ids"
  shows "fast_inv op M a (snd (handle_batch_lsync env ids st))"
  using assms unfolding handle_batch_lsync_def snd_conv
  by (induction ids arbitrary: st) (auto intro: lsync_step_fast)

lemma fast_trace_run:
  assumes "fast_trace op ps" and "fast_inv (set op) M a st"
  shows "\<exists>t op'. acceptor_run env ps st = Some t \<and> fast_inv op' (M \<union> accepts_in ps) a t"
  using assms
proof (induction op ps arbitrary: M st rule: fast_trace.induct)
  case (1 op)
  then show ?case by (auto simp: acceptor_run_def accepts_in_def)
next
  case (2 op ms ps)
  then show ?case
    using prepare_batch_step_fast [of "set op" M a st ms env]
    by (fastforce simp: acceptor_run_def accepts_in_def)
next
  case (3 op b ids ps)
  then obtain ret t where "handle_batch_anyval env b ids st = Some (ret, t)" "fast_inv (set (ids @ op)) M a t"
    using batch_anyval_step_fast [of "set op" M a st ids env b] by auto
  with 3 show ?case by (fastforce simp: acceptor_run_def accepts_in_def)
next
  case (4 op m ps)
  have "insert m M \<union> accepts_in ps = M \<union> accepts_in (Accept m # ps)" by (auto simp: accepts_in_def)
  with 4 show ?case
    using accept_step_fast [of "set op" M a st m env] by (fastforce simp: acceptor_run_def)
next
  case (5 op ids ps)
  then show ?case
    using batch_lsync_step_fast [of "set op" M a st ids env] by (fastforce simp: acceptor_run_def accepts_in_def)
qed (fastforce simp: acceptor_run_def accepts_in_def)+

section \<open>Agreement\<close>

text \<open>What the acceptors report in the runs over the traces \<open>T\<close>.\<close>

definition reported :: "'s acc_env \<Rightarrow> 's \<Rightarrow> (int \<Rightarrow> packet list) \<Rightarrow> learn_msg set" where
  "reported env db0 T = (\<Union>a\<in>acceptor_ids.
     case acceptor_run env (T a) (acceptor_init a db0) of None \<Rightarrow> {} | Some st \<Rightarrow> set (sent_learns st))"

definition proposed :: "(int \<Rightarrow> packet list) \<Rightarrow> accept_msg set" where
  "proposed T = (\<Union>a\<in>acceptor_ids. accepts_in (T a))"

text \<open>A ballot of an instance stands for one accept: it has the proposer's id in it.\<close>

definition one_per_ballot :: "accept_msg set \<Rightarrow> bool" where
  "one_per_ballot M \<longleftrightarrow> (\<forall>m\<in>M. \<forall>m'\<in>M. acm_iid m = acm_iid m' \<and> acm_ballot m = acm_ballot m' \<longrightarrow> m = m')"

lemma fast_trace_reports:
  assumes "fast_trace [] ps" and "acceptor_run env ps (acceptor_init a db0) = Some st" and l: "l \<in> set (sent_learns st)"
  shows "lm_acceptor_id l = a \<and> (\<exists>m\<in>accepts_in ps. l = learn_of_accept a m)
    \<and> (\<forall>l'\<in>set (sent_learns st). lm_iid l' = lm_iid l \<longrightarrow> l' = l) \<and> first_round (lm_iid l)"
proof -
  obtain op' where inv: "fast_inv op' (accepts_in ps) a st"
    using fast_trace_run [OF assms(1), of "{}" a "acceptor_init a db0" env] assms(2) fast_inv_init [of a db0] by auto
  then have i: "first_round (lm_iid l)" using l by (auto simp: fast_inv_def)
  let ?r = "acceptor_array st (nat (lm_iid l))"
  have mem: "l \<in> learns_for st (lm_iid l)" using l by (simp add: learns_for_def)
  then have sub: "learns_for st (lm_iid l) \<subseteq> {learn_of a ?r}"
      "\<exists>m\<in>accepts_in ps. learn_of a ?r = learn_of_accept a m"
    using fast_invD(1) [OF inv i] by (auto simp: fast_slot_def)
  then have lr: "l = learn_of a ?r" using mem by blast
  then have "lm_acceptor_id l = a" by (metis learn_of_def learn_msg.select_convs(1))
  moreover have "\<exists>m\<in>accepts_in ps. l = learn_of_accept a m" using sub(2) lr by simp
  moreover have "l' = l" if "l' \<in> set (sent_learns st)" "lm_iid l' = lm_iid l" for l'
    using sub(1) that lr by (auto simp: learns_for_def)
  ultimately show ?thesis using i by blast
qed

lemma fast_trace_accepts: "fast_trace op ps \<Longrightarrow> m \<in> accepts_in ps \<Longrightarrow> accept_msg_ok m \<and> first_round (acm_iid m)"
  by (induction op ps rule: fast_trace.induct) (auto simp: accepts_in_def)

lemma learn_of_accept_ok:
  "accept_msg_ok m \<Longrightarrow> first_round (acm_iid m) \<Longrightarrow> a \<in> acceptor_ids \<Longrightarrow> learn_ok (learn_of_accept a m)"
  by (simp add: accept_msg_ok_def wf_accept_def learn_ok_def wf_learn_def learn_of_accept_def first_round_def
      acceptor_ids_def in_i32_def c_simps)

lemma reported_cases:
  assumes "\<forall>a\<in>acceptor_ids. fast_trace [] (T a)" and "l \<in> reported env db0 T"
  obtains a st m where "a \<in> acceptor_ids" "acceptor_run env (T a) (acceptor_init a db0) = Some st"
    "l \<in> set (sent_learns st)" "m \<in> accepts_in (T a)" "l = learn_of_accept a m"
proof -
  obtain a st where a: "a \<in> acceptor_ids" "acceptor_run env (T a) (acceptor_init a db0) = Some st" "l \<in> set (sent_learns st)"
    using assms(2) by (auto simp: reported_def split: option.splits)
  then show thesis using fast_trace_reports [OF _ a(2,3)] assms(1) that by blast
qed

lemma reported_votes:
  assumes T: "\<forall>a\<in>acceptor_ids. fast_trace [] (T a)" and one: "one_per_ballot (proposed T)"
  shows "one_vote (reported env db0 T)" and "ballot_value (reported env db0 T)"
    and "\<forall>l\<in>reported env db0 T. learn_ok l"
proof -
  show "one_vote (reported env db0 T)" unfolding one_vote_def
  proof (intro ballI impI)
    fix l l' assume l: "l \<in> reported env db0 T" "l' \<in> reported env db0 T"
      and eq: "lm_acceptor_id l = lm_acceptor_id l' \<and> lm_iid l = lm_iid l'"
    obtain a st where a: "a \<in> acceptor_ids" "acceptor_run env (T a) (acceptor_init a db0) = Some st" "l \<in> set (sent_learns st)"
      by (rule reported_cases [OF T l(1)])
    obtain b st' where b: "b \<in> acceptor_ids" "acceptor_run env (T b) (acceptor_init b db0) = Some st'" "l' \<in> set (sent_learns st')"
      by (rule reported_cases [OF T l(2)])
    have "a = b" using fast_trace_reports [OF _ a(2,3)] fast_trace_reports [OF _ b(2,3)] T a(1) b(1) eq by auto
    then have "l' = l" using fast_trace_reports [OF _ a(2,3)] T a(1,2) b(2,3) eq by auto
    then show "lm_ballot l = lm_ballot l'" by simp
  qed
  show "ballot_value (reported env db0 T)" unfolding ballot_value_def
  proof (intro ballI impI)
    fix l l' assume l: "l \<in> reported env db0 T" "l' \<in> reported env db0 T"
      and eq: "lm_iid l = lm_iid l' \<and> lm_ballot l = lm_ballot l'"
    obtain a m where a: "a \<in> acceptor_ids" "m \<in> accepts_in (T a)" "l = learn_of_accept a m"
      by (rule reported_cases [OF T l(1)])
    obtain b m' where b: "b \<in> acceptor_ids" "m' \<in> accepts_in (T b)" "l' = learn_of_accept b m'"
      by (rule reported_cases [OF T l(2)])
    have "m = m'" using one a b eq unfolding one_per_ballot_def proposed_def learn_of_accept_def by auto
    then show "lm_value l = lm_value l' \<and> lm_proposer_id l = lm_proposer_id l'"
      using a b by (simp add: learn_of_accept_def)
  qed
  show "\<forall>l\<in>reported env db0 T. learn_ok l"
  proof
    fix l assume "l \<in> reported env db0 T"
    then obtain a m where "a \<in> acceptor_ids" "m \<in> accepts_in (T a)" "l = learn_of_accept a m"
      by (rule reported_cases [OF T])
    then show "learn_ok l" using fast_trace_accepts T learn_of_accept_ok by blast
  qed
qed

text \<open>Agreement and validity on the fast path, from the code of acceptors and learners together:
  whatever sequence of prepares, any messages, accepts below the leaders' ballots and sync requests
  each acceptor receives in the first round of its array, each instance opened once and after its
  prepares, no acceptor crashes, and two learners that hear any part of what the acceptors report,
  in any order and with any repetitions, deliver one a prefix of the other, and only values a proposer
  sent for that instance. The one hypothesis on the proposers is that a ballot of an instance stands for
  one accept.\<close>

theorem fast_path_agreement:
  assumes T: "\<forall>a\<in>acceptor_ids. fast_trace [] (T a)" and one: "one_per_ballot (proposed T)"
    and ms: "set ms \<subseteq> reported env db0 T" "set ms' \<subseteq> reported env db0 T"
  shows "(\<forall>a\<in>acceptor_ids. acceptor_run env (T a) (acceptor_init a db0) \<noteq> None)
    \<and> (prefix (delivered (learner_run ms)) (delivered (learner_run ms'))
       \<or> prefix (delivered (learner_run ms')) (delivered (learner_run ms)))
    \<and> (\<forall>d\<in>set (delivered (learner_run ms)). \<exists>m\<in>proposed T. delivery_of m = d)"
proof (intro conjI ballI)
  note votes = reported_votes [OF T one, of env db0]
  have ok: "\<forall>m\<in>set ms \<union> set ms'. learn_ok m" using votes(3) ms by blast
  have "one_vote (set ms \<union> set ms')" "ballot_value (set ms \<union> set ms')"
    using votes(1,2) ms unfolding one_vote_def ballot_value_def by (meson Un_iff subsetD)+
  then show "prefix (delivered (learner_run ms)) (delivered (learner_run ms'))
      \<or> prefix (delivered (learner_run ms')) (delivered (learner_run ms))"
    by (rule learners_prefix [OF ok])
  fix a assume "a \<in> acceptor_ids"
  then show "acceptor_run env (T a) (acceptor_init a db0) \<noteq> None"
    using fast_trace_run [of "[]" "T a" "{}" a "acceptor_init a db0" env] fast_inv_init [of a db0] T by auto
next
  fix d assume "d \<in> set (delivered (learner_run ms))"
  moreover have "\<forall>m\<in>set ms. learn_ok m" using reported_votes(3) [OF T one, of env db0] ms by blast
  ultimately have "supported (set ms) d"
    using learner_run_ok [of ms] by (simp add: learner_inv_def core_inv_def log_ok_def)
  then obtain l where l: "l \<in> reported env db0 T" "lm_iid l = dl_iid d" "lm_ballot l = dl_ballot d"
      "lm_value l = dl_value d" "lm_proposer_id l = dl_proposer d" "dl_size d = int (length (dl_value d))"
    using ms unfolding supported_def by blast
  obtain a m where m: "a \<in> acceptor_ids" "m \<in> accepts_in (T a)" "l = learn_of_accept a m"
    by (rule reported_cases [OF T l(1)])
  moreover have "acm_value_size m = int (length (acm_value m))"
    using fast_trace_accepts T m(1,2) by (auto simp: accept_msg_ok_def wf_accept_def)
  ultimately have "delivery_of m = d" using l by (simp add: delivery_of_def learn_of_accept_def)
  then show "\<exists>m\<in>proposed T. delivery_of m = d" using m by (auto simp: proposed_def)
qed

text \<open>Two proposers compete for instance 0; every acceptor hears the first one first.\<close>

definition wit_T :: "int \<Rightarrow> packet list" where
  "wit_T a = [Anyval 21 [0], Accept wit_A, Accept wit_B]"

lemma wit_T_reports:
  assumes "a \<in> acceptor_ids"
  shows "learn_of_accept a wit_A \<in> reported wit_env (\<lambda>_. None) wit_T"
proof -
  let ?st = "acceptor_init a (\<lambda>_. None) :: (32 word \<Rightarrow> flat_record option) acceptor"
  have a: "in_i32 a" using assms by (simp add: acceptor_ids_def in_i32_def c_simps)
  have inv: "acc_inv wit_env ?st" by (rule acc_inv_init [OF wit_empty a])
  have "known wit_env ?st = (\<lambda>_. None)"
    using wit_empty by (simp add: known_def empty_db_def fun_eq_iff acceptor_init_def)
  moreover have "ar_iid (slot ?st 0) \<le> 0" by (simp add: slot_def acceptor_init_def static_record_def)
  moreover have "valid_iid 0" "in_i32 21" "acm_iid wit_A = 0" by (simp_all add: valid_iid_def in_i32_def wit_A_def)
  ultimately obtain t where t: "acceptor_run wit_env [Anyval 21 [0], Accept wit_A] ?st = Some t" "acc_inv wit_env t"
      "acc_sent t = acc_sent ?st @ [learn_datagram (learn_of_accept (acceptor_id ?st) wit_A)]"
    using any_accept_round [OF inv wit_env_ok, of 0 21 wit_A] by auto
  let ?u = "snd (handle_accept wit_env wit_B t)"
  have "learn_datagram (learn_of_accept a wit_A) \<in> set (acc_sent ?u)"
    using handle_accept_out [OF t(2) wit_env_ok wit_AB_ok(2)] t(3)
    by (auto simp: accepts_def refuses_def acceptor_init_def split: if_splits)
  then have "learn_of_accept a wit_A \<in> set (sent_learns ?u)"
    by (force simp: sent_learns_def learns_in_def learn_datagram_def)
  moreover have "acceptor_run wit_env (wit_T a) ?st = Some ?u"
    using acceptor_run_append [OF t(1), of "[Accept wit_B]"] by (simp add: wit_T_def acceptor_run_def)
  ultimately show ?thesis using assms by (force simp: reported_def)
qed

theorem fast_path_agreement_witness:
  "delivered (learner_run (map (\<lambda>a. learn_of_accept a wit_A) [0, 1, 2])) = [delivery_of wit_A]
   \<and> delivery_of wit_A \<in> delivery_of ` proposed wit_T
   \<and> acceptor_run wit_env (wit_T 2) (acceptor_init 2 (\<lambda>_. None)) \<noteq> None"
proof -
  let ?ms = "map (\<lambda>a. learn_of_accept a wit_A) [0, 1, 2]"
  have T: "\<forall>a\<in>acceptor_ids. fast_trace [] (wit_T a)"
    by (simp add: wit_T_def first_round_def min_ballot_def c_simps) (simp add: wit_A_def wit_B_def)
  have "proposed wit_T \<subseteq> {wit_A, wit_B}" by (auto simp: proposed_def accepts_in_def wit_T_def)
  moreover have "one_per_ballot {wit_A, wit_B}" by (simp add: one_per_ballot_def wit_A_def wit_B_def)
  ultimately have one: "one_per_ballot (proposed wit_T)" unfolding one_per_ballot_def by blast
  have ms: "set ?ms \<subseteq> reported wit_env (\<lambda>_. None) wit_T"
    using wit_T_reports by (simp add: acceptor_ids_def c_simps)
  have d: "delivered (learner_run ?ms) = [delivery_of wit_A]"
    using wit_AB_ok(1) by (intro three_learns_deliver) (simp_all add: accept_msg_ok_def, simp add: wit_A_def)
  have "2 \<in> acceptor_ids" by (simp add: acceptor_ids_def c_simps)
  moreover obtain m where "m \<in> proposed wit_T" "delivery_of m = delivery_of wit_A"
    using fast_path_agreement [OF T one ms ms] d by auto
  ultimately show ?thesis
    using fast_path_agreement [OF T one ms ms] d rev_image_eqI [of m "proposed wit_T" _ delivery_of] by auto
qed

end
