(* ===== verification/Collision.thy ===== *)
theory Collision
  imports Fast_Path
begin

text \<open>
  A collision: the acceptors accepted the values of two proposers for one instance. The learners'
  retransmission requests then meet the leader's new prepare, and the answers count as votes.
\<close>

section \<open>One instance of one acceptor\<close>

text \<open>The acceptor's id, its record of instance \<open>i\<close>, and the learns it sent.\<close>

definition at_slot :: "int \<Rightarrow> acceptor_record \<Rightarrow> learn_msg list \<Rightarrow> int \<Rightarrow> 's acceptor \<Rightarrow> bool" where
  "at_slot i r L a st \<longleftrightarrow> acceptor_id st = a \<and> acceptor_array st (nat i) = r \<and> sent_learns st = L"

definition prepared :: "int \<Rightarrow> int \<Rightarrow> acceptor_record \<Rightarrow> acceptor_record" where
  "prepared i b r = (if ar_iid r < i then r\<lparr>ar_iid := i, ar_ballot := b, ar_value_ballot := -1, ar_value_size := 0,
     ar_value := None\<rparr> else r\<lparr>ar_ballot := b\<rparr>)"

lemma at_slot_init: "at_slot i static_record [] a (acceptor_init a db0)"
  by (simp add: at_slot_def acceptor_init_def sent_learns_def)

lemma at_slot_cong:
  "acceptor_array t = acceptor_array st \<Longrightarrow> sent_learns t = sent_learns st \<Longrightarrow> acceptor_id t = acceptor_id st \<Longrightarrow>
   at_slot i r L a t = at_slot i r L a st"
  by (simp add: at_slot_def)

lemma at_slot_prepare_one:
  assumes st: "at_slot i r L a st" and i: "first_round i" and "ar_iid r < i \<or> ar_iid r = i \<and> ar_ballot r < b"
  shows "at_slot i (prepared i b r) L a (snd (handle_prepare env \<lparr>pm_iid = i, pm_ballot = b\<rparr> st))"
proof (cases "ar_iid r < i")
  case True
  then show ?thesis
    using st by (simp add: at_slot_def handle_prepare_def first_round_index [OF i] prepared_def frame Let_def)
next
  case False
  then show ?thesis
    using assms(3) st
    by (simp add: at_slot_def handle_prepare_def first_round_index [OF i] prepared_def frame Let_def)
qed

lemma at_slot_prepare:
  assumes st: "at_slot i r L a st" and i: "first_round i" and b: "ar_iid r < i \<or> ar_iid r = i \<and> ar_ballot r < b"
  shows "\<exists>t. acceptor_run env [Prepare_Batch [\<lparr>pm_iid = i, pm_ballot = b\<rparr>]] st = Some t \<and> at_slot i (prepared i b r) L a t"
proof -
  let ?st1 = "st\<lparr>send_buffer_size := sizeof_paxos_msg + sizeof_promise_batch_msg, batch_promises := [],
    batch_acceptor_id := acceptor_id st\<rparr>"
  let ?st2 = "snd (handle_prepare env \<lparr>pm_iid = i, pm_ballot = b\<rparr> ?st1)"
  have "at_slot i r L a ?st1" using st by (simp add: at_slot_cong [of ?st1 st] sent_learns_def)
  from at_slot_prepare_one [OF this i b, of env] show ?thesis
    by (simp add: acceptor_run_def handle_prepare_batch_def Let_def at_slot_cong [of "flush_promises env ?st2" ?st2] frame)
qed

lemma at_slot_any:
  assumes "at_slot i r L a st" and "first_round i" and "ar_iid r < i \<or> ar_iid r = i \<and> ar_ballot r \<le> b"
  shows "\<exists>t. acceptor_run env [Anyval b [i]] st = Some t \<and> at_slot i (anyval_record r i b) L a t"
  using assms
  by (auto simp: acceptor_run_def at_slot_def handle_batch_anyval_def handle_anyval_def apply_anyval_def
      first_round_index frame Let_def)

lemma at_slot_accept:
  assumes "at_slot i r L a st" and "first_round i" and "acm_iid m = i" "ar_iid r = i" "ar_any_enabled r \<noteq> 0"
    and "accept_msg_ok m"
  shows "\<exists>t. acceptor_run env [Accept m] st = Some t
    \<and> at_slot i (accepted_record (clear_any r) m) (L @ [learn_of_accept a m]) a t"
  using assms learn_of_accepted [OF assms(6), of a "clear_any r"]
  by (auto simp: acceptor_run_def at_slot_def handle_accept_def apply_accept_def accept_enabled_def
      first_round_index frame sent_learns_send_learn Let_def)

lemma at_slot_lsync:
  assumes "at_slot i r L a st" and "first_round i" and "ar_iid r = i" "ar_value r \<noteq> None"
  shows "\<exists>t. acceptor_run env [Lsync [i]] st = Some t \<and> at_slot i r (L @ [learn_of a r]) a t"
  using assms
  by (auto simp: acceptor_run_def at_slot_def handle_batch_lsync_def handle_lsync_def
      first_round_index frame sent_learns_send_learn)

lemma run_step:
  assumes "\<exists>t. acceptor_run env ps st = Some t \<and> P t" and "\<And>t. P t \<Longrightarrow> \<exists>u. acceptor_run env qs t = Some u \<and> Q u"
  shows "\<exists>u. acceptor_run env (ps @ qs) st = Some u \<and> Q u"
  using assms acceptor_run_append by metis

text \<open>An acceptor that took part in the fast path, promised a higher ballot and is then asked to sync.\<close>

definition collision_trace :: "int \<Rightarrow> int \<Rightarrow> accept_msg \<Rightarrow> packet list" where
  "collision_trace b c m = [Prepare_Batch [\<lparr>pm_iid = acm_iid m, pm_ballot = b\<rparr>]] @ [Anyval b [acm_iid m]] @ [Accept m]
     @ [Prepare_Batch [\<lparr>pm_iid = acm_iid m, pm_ballot = c\<rparr>]] @ [Lsync [acm_iid m]]"

lemma collision_learns:
  assumes "first_round (acm_iid m)" and "accept_msg_ok m" and "acm_ballot m < c"
  shows "\<exists>t. acceptor_run env (collision_trace b c m) (acceptor_init a db0) = Some t
    \<and> sent_learns t = [learn_of_accept a m, (learn_of_accept a m)\<lparr>lm_ballot := c\<rparr>]"
proof -
  let ?i = "acm_iid m"
  let ?r1 = "prepared ?i b static_record"
  let ?r2 = "anyval_record ?r1 ?i b"
  let ?r3 = "accepted_record (clear_any ?r2) m"
  let ?r4 = "prepared ?i c ?r3"
  have r: "ar_iid static_record < ?i" "ar_iid ?r1 = ?i" "ar_ballot ?r1 = b" "ar_iid ?r2 = ?i" "ar_any_enabled ?r2 \<noteq> 0"
    "ar_iid ?r3 = ?i" "ar_ballot ?r3 = acm_ballot m" "ar_iid ?r4 = ?i" "ar_value ?r4 \<noteq> None"
    using assms(1)
    by (simp_all add: static_record_def prepared_def anyval_record_def accepted_record_def clear_any_def first_round_def)
  have l: "learn_of a ?r4 = (learn_of_accept a m)\<lparr>lm_ballot := c\<rparr>"
    unfolding learn_of_accepted [OF assms(2), of a "clear_any ?r2", symmetric] prepared_def [of ?i c]
    by (simp only: r(6) less_irrefl if_False) (simp add: learn_of_def)
  let ?L = "[] @ [learn_of_accept a m]"
  have 1: "\<exists>t. acceptor_run env [Prepare_Batch [\<lparr>pm_iid = ?i, pm_ballot = b\<rparr>]] (acceptor_init a db0) = Some t
      \<and> at_slot ?i ?r1 [] a t"
    by (rule at_slot_prepare [OF at_slot_init assms(1)]) (simp only: r simp_thms)
  have 2: "\<exists>u. acceptor_run env [Anyval b [?i]] t = Some u \<and> at_slot ?i ?r2 [] a u" if "at_slot ?i ?r1 [] a t" for t
    by (rule at_slot_any [OF that assms(1)]) (simp only: r order_refl simp_thms)
  have 3: "\<exists>u. acceptor_run env [Accept m] t = Some u \<and> at_slot ?i ?r3 ?L a u" if "at_slot ?i ?r2 [] a t" for t
    by (rule at_slot_accept [OF that assms(1) refl r(4,5) assms(2)])
  have 4: "\<exists>u. acceptor_run env [Prepare_Batch [\<lparr>pm_iid = ?i, pm_ballot = c\<rparr>]] t = Some u
      \<and> at_slot ?i ?r4 ?L a u" if "at_slot ?i ?r3 ?L a t" for t
    by (rule at_slot_prepare [OF that assms(1)]) (simp only: r assms(3) simp_thms)
  have 5: "\<exists>u. acceptor_run env [Lsync [?i]] t = Some u \<and> at_slot ?i ?r4 (?L @ [learn_of a ?r4]) a u"
    if "at_slot ?i ?r4 ?L a t" for t
    by (rule at_slot_lsync [OF that assms(1) r(8,9)])
  note 45 = run_step [OF 4 5]
  note 35 = run_step [OF 3 45]
  note 25 = run_step [OF 2 35]
  have "\<exists>t. acceptor_run env (collision_trace b c m) (acceptor_init a db0) = Some t
      \<and> at_slot ?i ?r4 (?L @ [learn_of a ?r4]) a t"
    unfolding collision_trace_def by (rule run_step [OF 1 25])
  then show ?thesis by (auto simp: at_slot_def l)
qed

section \<open>The learners' side\<close>

text \<open>Three learns of one ballot for instance 0: the message that completes the quorum is delivered.\<close>

definition vote_of :: "int \<Rightarrow> int \<Rightarrow> accept_msg \<Rightarrow> learn_msg" where
  "vote_of c a m = (learn_of_accept a m)\<lparr>lm_ballot := c\<rparr>"

lemma last_vote_delivered:
  assumes "acm_iid m = 0" "acm_iid m' = 0" and "wf_accept m" "wf_accept m'"
  shows "delivered (learner_run [vote_of c 0 m, vote_of c 1 m, vote_of c 2 m']) = [(delivery_of m')\<lparr>dl_ballot := c\<rparr>]"
    and "delivered (learner_run [vote_of c 2 m', vote_of c 1 m, vote_of c 0 m]) = [(delivery_of m)\<lparr>dl_ballot := c\<rparr>]"
  using assms
  by (simp_all add: learner_run_def vote_of_def learn_of_accept_def learner_start_def static_learner_record_def
      learner_eval quorum_of_def numeral_3_eq_3 delivery_of_def wf_accept_def)

definition collision_of :: "int \<Rightarrow> int \<Rightarrow> accept_msg \<Rightarrow> accept_msg \<Rightarrow> int \<Rightarrow> packet list" where
  "collision_of b c m m' a = collision_trace b c (if a = 2 then m' else m)"

lemma collision_reports:
  assumes "accept_msg_ok m" "acm_iid m = 0" "acm_ballot m < c" and "a \<in> acceptor_ids" and "T a = collision_trace b c m"
  shows "vote_of c a m \<in> reported env db0 T"
proof -
  have "first_round (acm_iid m)" using assms(2) by (simp add: first_round_def c_simps)
  from collision_learns [OF this assms(1,3)] obtain t where
    "acceptor_run env (T a) (acceptor_init a db0) = Some t" "vote_of c a m \<in> set (sent_learns t)"
    unfolding assms(5) vote_of_def by fastforce
  then show ?thesis unfolding reported_def by (intro UN_I [OF assms(4)]) simp
qed

text \<open>C34. Agreement lost after a collision, with no message lost, repeated or reordered on its way to
  an acceptor: the acceptors opened instance 0 once and accepted one accept each, acceptors 0 and 1
  that of one proposer, acceptor 2 that of another, so that no learner has a quorum. The leader's next
  prepare raises the ballot of the three records, and a sync request is then answered with the value
  each acceptor accepted under the ballot it promised (\<^verbatim>\<open>send_learn_message\<close> puts \<^verbatim>\<open>rec->ballot\<close> in the
  learn, not \<^verbatim>\<open>rec->value_ballot\<close>). The three answers look like a quorum of one ballot: the learner that
  hears acceptor 2 last delivers the one value, the learner that hears it first the other.\<close>

theorem sync_replies_break_agreement:
  assumes m: "accept_msg_ok m" "accept_msg_ok m'" "acm_iid m = 0" "acm_iid m' = 0"
    and c: "acm_ballot m < c" "acm_ballot m' < c"
  shows "\<exists>ms ms'. set ms \<subseteq> reported env db0 (collision_of b c m m') \<and> set ms' = set ms
    \<and> delivered (learner_run ms) = [(delivery_of m')\<lparr>dl_ballot := c\<rparr>]
    \<and> delivered (learner_run ms') = [(delivery_of m)\<lparr>dl_ballot := c\<rparr>]"
proof (intro exI conjI)
  let ?ms = "[vote_of c 0 m, vote_of c 1 m, vote_of c 2 m']"
  have wf: "wf_accept m" "wf_accept m'" using m by (simp_all add: accept_msg_ok_def)
  show "delivered (learner_run ?ms) = [(delivery_of m')\<lparr>dl_ballot := c\<rparr>]"
    and "delivered (learner_run (rev ?ms)) = [(delivery_of m)\<lparr>dl_ballot := c\<rparr>]"
    using last_vote_delivered [OF m(3,4) wf, of c] by simp_all
  show "set ?ms \<subseteq> reported env db0 (collision_of b c m m')"
    by (auto intro!: collision_reports m c simp: collision_of_def acceptor_ids_def c_simps)
  show "set (rev ?ms) = set ?ms" by (rule set_rev)
qed

theorem sync_replies_break_agreement_witness:
  "\<exists>ms ms'. set ms = set ms' \<and> set ms \<subseteq> reported wit_env (\<lambda>_. None) (collision_of 21 31 wit_A wit_B)
    \<and> map dl_value (delivered (learner_run ms)) = [[66]] \<and> map dl_value (delivered (learner_run ms')) = [[65]]"
proof -
  have "acm_iid wit_A = 0" "acm_iid wit_B = 0" "acm_ballot wit_A < 31" "acm_ballot wit_B < 31"
    by (simp_all add: wit_A_def wit_B_def)
  from sync_replies_break_agreement [OF wit_AB_ok this, of wit_env "\<lambda>_. None" 21] obtain ms ms' where
    "set ms \<subseteq> reported wit_env (\<lambda>_. None) (collision_of 21 31 wit_A wit_B)" "set ms' = set ms"
    "delivered (learner_run ms) = [(delivery_of wit_B)\<lparr>dl_ballot := 31\<rparr>]"
    "delivered (learner_run ms') = [(delivery_of wit_A)\<lparr>dl_ballot := 31\<rparr>]" by blast
  moreover have "dl_value (delivery_of wit_A) = [65]" "dl_value (delivery_of wit_B) = [66]"
    by (simp_all add: delivery_of_def wit_A_def wit_B_def)
  ultimately show ?thesis by (intro exI [of _ ms] exI [of _ ms']) simp
qed

end
