(* ===== verification/Delivery_Loop.thy ===== *)
theory Delivery_Loop
  imports Learner
begin

text \<open>
  The delivery loop as \<^verbatim>\<open>learner.c\<close> writes it, \<^verbatim>\<open>while(1)\<close> with a break, against the total function
  of the learner's model: it returns from every state, after at most one round per slot.
\<close>

section \<open>The loop as written\<close>

text \<open>\<open>None\<close> would be a loop that does not return.\<close>

partial_function (option) deliver_loop :: "int \<Rightarrow> learner \<Rightarrow> learner option" where
  "deliver_loop instance_id st =
     (let r = learner_array st (GET_LEA_INDEX instance_id)
      in if \<not> is_closed r then Some st
         else deliver_loop (i32 (instance_id + 1)) (deliver_one instance_id (the (lr_final_value r)) st))"

lemma deliver_loop_returns: "deliver_loop i st = Some (deliver_values i st)"
proof (induction i st rule: deliver_values.induct)
  case (1 i st)
  show ?case
  proof (cases "lr_final_value (learner_array st (GET_LEA_INDEX i))")
    case None
    then show ?thesis by (simp add: deliver_loop.simps deliver_values.simps is_closed_def)
  next
    case (Some v)
    then show ?thesis
      using "1.IH" [OF Some] by (simp add: deliver_loop.simps [of i] deliver_values.simps [of i] is_closed_def)
  qed
qed

section \<open>How far it goes\<close>

text \<open>The closed slots in front of an instance, counted from its own.\<close>

definition closed_at :: "learner \<Rightarrow> int \<Rightarrow> bool" where
  "closed_at st i \<longleftrightarrow> is_closed (learner_array st (GET_LEA_INDEX i))"

lemma card_closed_slots: "card (closed_slots st) \<le> 512"
proof -
  have "closed_slots st \<subseteq> {..<512}" by (auto simp: closed_slots_def)
  then show ?thesis using card_mono [of "{..<512}" "closed_slots st"] by simp
qed

lemma GET_LEA_INDEX_i32: "GET_LEA_INDEX (i32 i) = GET_LEA_INDEX i"
  using i32_mod_dvd [of 512 i] by (simp add: GET_LEA_INDEX_mod c_simps)

lemma closed_at_i32 [simp]: "closed_at st (i32 i) = closed_at st i"
  by (simp add: closed_at_def GET_LEA_INDEX_i32)

lemma closed_at_deliver_one:
  "closed_at (deliver_one i v st) j \<longleftrightarrow> closed_at st j \<and> GET_LEA_INDEX j \<noteq> GET_LEA_INDEX i"
  by (auto simp: closed_at_def deliver_one_def is_closed_def Let_def)

lemma i32_add: "i32 (i32 a + b) = i32 (a + b)"
proof -
  have "(i32 a + b) mod 4294967296 = (a + b) mod 4294967296"
    by (metis i32_mod_dvd [OF dvd_refl] mod_add_left_eq)
  then show ?thesis by (metis i32_mod)
qed

lemma i32_next: "i32 (i32 (i + 1) + int j) = i32 (i + int (Suc j))"
  unfolding i32_add by (simp add: ac_simps)

text \<open>\<open>k\<close> rounds: the slots of the instances in front are closed, the next one is open.\<close>

definition rounds :: "int \<Rightarrow> nat \<Rightarrow> int list" where
  "rounds i k = map (\<lambda>j. i32 (i + int j)) [0..<k]"

lemma rounds_Suc: "in_i32 i \<Longrightarrow> rounds i (Suc k) = i # rounds (i32 (i + 1)) k"
  by (simp only: rounds_def i32_next upt_conv_Cons [OF zero_less_Suc] map_Suc_upt [symmetric] list.map map_map comp_def)
    simp

lemma deliver_values_rounds:
  assumes "in_i32 i"
  shows "\<exists>k. k \<le> card (closed_slots st) \<and> (\<forall>j<k. closed_at st (i + int j))
    \<and> \<not> closed_at (deliver_values i st) (i + int k)
    \<and> (\<exists>ds. delivered (deliver_values i st) = delivered st @ ds \<and> map dl_iid ds = rounds i k)"
  using assms
proof (induction i st rule: deliver_values.induct)
  case (1 i st)
  show ?case
  proof (cases "lr_final_value (learner_array st (GET_LEA_INDEX i))")
    case None
    then show ?thesis by (intro exI [of _ 0]) (simp add: deliver_values.simps [of i] closed_at_def is_closed_def rounds_def)
  next
    case (Some v)
    let ?st1 = "deliver_one i v st" and ?i1 = "i32 (i + 1)"
    have step: "deliver_values i st = deliver_values ?i1 ?st1" using Some by (simp add: deliver_values.simps [of i])
    obtain k ds where k: "k \<le> card (closed_slots ?st1)" "\<forall>j<k. closed_at ?st1 (?i1 + int j)"
      "\<not> closed_at (deliver_values ?i1 ?st1) (?i1 + int k)"
      "delivered (deliver_values ?i1 ?st1) = delivered ?st1 @ ds" "map dl_iid ds = rounds ?i1 k"
      using "1.IH" [OF Some] by auto
    have idx: "closed_at s (?i1 + int j) = closed_at s (i + int (Suc j))" for s j
      by (metis closed_at_i32 i32_next)
    have "closed_at st (i + int j)" if "j < Suc k" for j
      using that k(2) idx Some by (cases j) (auto simp: closed_at_deliver_one, simp add: closed_at_def is_closed_def)
    moreover have "Suc k \<le> card (closed_slots st)" using k(1) closed_slots_deliver_one [OF Some] by simp
    moreover have "\<exists>d. delivered ?st1 = delivered st @ [d] \<and> dl_iid d = i" by (simp add: deliver_one_def Let_def)
    ultimately show ?thesis
      using k(3-5) idx rounds_Suc [OF "1.prems"] by (intro exI [of _ "Suc k"]) (auto simp: step)
  qed
qed

text \<open>C18. The delivery loop returns from every state of the learner, also from one in which every slot
  is closed: it delivers \<open>k\<close> instances in a row, at most one per closed slot and never more than the 512
  slots of the array, and stops at the first instance whose slot is open.\<close>

theorem deliver_loop_terminates:
  assumes "in_i32 i"
  shows "\<exists>st' k ds. deliver_loop i st = Some st' \<and> k \<le> card (closed_slots st) \<and> k \<le> nat LEARNER_ARRAY_SIZE
    \<and> delivered st' = delivered st @ ds \<and> map dl_iid ds = map (\<lambda>j. i32 (i + int j)) [0..<k]
    \<and> list_all (\<lambda>j. closed_at st (i + int j)) [0..<k] \<and> \<not> closed_at st' (i + int k)"
  using deliver_values_rounds [OF assms, of st] card_closed_slots [of st]
  unfolding deliver_loop_returns rounds_def list_all_iff by (fastforce simp: c_simps)

text \<open>Every slot closed: the loop goes once around the array, past the largest \<^verbatim>\<open>int\<close>, and ends.\<close>

definition wit_full :: learner where
  "wit_full = learner_start\<lparr>learner_array := (\<lambda>_. static_learner_record\<lparr>lr_final_value := Some []\<rparr>)\<rparr>"

theorem deliver_loop_terminates_witness:
  "\<exists>st'. deliver_loop 2147483647 wit_full = Some st' \<and> length (delivered st') \<le> 512"
proof -
  have "in_i32 2147483647" by (simp add: in_i32_def)
  from deliver_loop_terminates [OF this, of wit_full] obtain st' k ds where
    "deliver_loop 2147483647 wit_full = Some st'" "k \<le> nat LEARNER_ARRAY_SIZE" "delivered st' = ds"
    "map dl_iid ds = map (\<lambda>j. i32 (2147483647 + int j)) [0..<k]"
    by (auto simp: wit_full_def learner_start_def)
  then show ?thesis using length_map [of dl_iid ds] by (auto simp: c_simps)
qed

end
