(* ===== verification/Learner_Votes.thy ===== *)
theory Learner_Votes
  imports Learner_Properties Delivery_Loop
begin

text \<open>
  A round of voting seen by a learner: the acceptors report one ballot, higher than anything they
  reported before for the next instance to deliver, and the last report of the quorum delivers it.
\<close>

text \<open>The acceptors in \<open>S\<close> have reported ballot \<open>c\<close> for \<open>i\<close>, the next instance to deliver.\<close>

definition vote_slot :: "int \<Rightarrow> nat set \<Rightarrow> int \<Rightarrow> learner_record \<Rightarrow> bool" where
  "vote_slot c S i r \<longleftrightarrow> lr_iid r = i \<and> \<not> is_closed r \<and> length (lr_learns r) = 3
     \<and> (\<forall>a<3. case lr_learns r ! a of None \<Rightarrow> a \<notin> S
          | Some l \<Rightarrow> if a \<in> S then lm_ballot l = c else lm_ballot l < c)"

definition voted :: "int \<Rightarrow> nat set \<Rightarrow> int \<Rightarrow> learner \<Rightarrow> bool" where
  "voted c S i st \<longleftrightarrow> highest_delivered st + 1 = i \<and> 0 \<le> i \<and> i \<le> 2147483135 \<and> lea_quorum st = 3 \<and> S \<subseteq> {..<3}
     \<and> (let r = learner_array st (GET_LEA_INDEX i) in vote_slot c S i r \<or> S = {} \<and> lr_iid r \<noteq> i)"

definition vote :: "int \<Rightarrow> int \<Rightarrow> nat \<Rightarrow> learn_msg \<Rightarrow> bool" where
  "vote c i a m \<longleftrightarrow> lm_iid m = i \<and> lm_ballot m = c \<and> lm_acceptor_id m = int a \<and> a < 3"

definition with_learn :: "nat \<Rightarrow> learn_msg \<Rightarrow> learner_record \<Rightarrow> learner_record" where
  "with_learn a m r = r\<lparr>lr_learns := (lr_learns r)[a := Some m]\<rparr>"

lemma vote_slot_clean: "vote_slot c {} i (clean_record i r)"
  by (simp add: vote_slot_def clean_record_def is_closed_def c_simps)

lemma vote_slot_add:
  assumes r: "vote_slot c S i r" and m: "vote c i a m" "a \<notin> S"
  shows "add_learn_to_record r m = (1, with_learn a m r)" and "vote_slot c (insert a S) i (with_learn a m r)"
proof -
  have a: "a < 3" "lm_ballot m = c" "lm_acceptor_id m = int a" using m(1) by (simp_all add: vote_def)
  show "add_learn_to_record r m = (1, with_learn a m r)"
  proof (cases "lr_learns r ! a")
    case None
    then show ?thesis using a by (simp add: add_learn_to_record_def with_learn_def c_simps)
  next
    case (Some l)
    then have "lm_ballot l < c" using r a(1) m(2) by (auto simp: vote_slot_def)
    then show ?thesis using Some a by (simp add: add_learn_to_record_def with_learn_def c_simps)
  qed
  show "vote_slot c (insert a S) i (with_learn a m r)"
    using r a m(2) by (auto simp: vote_slot_def with_learn_def nth_list_update is_closed_def split: option.splits)
qed

lemma vote_slot_count:
  assumes "vote_slot c S i r" and "S \<subseteq> {..<3}"
  shows "same_ballot_count c r = int (card S)"
proof -
  have "{a. a < length (lr_learns r) \<and> (\<exists>l. lr_learns r ! a = Some l \<and> lm_ballot l = c)} = S"
    using assms by (force simp: vote_slot_def split: option.splits if_splits)
  then show ?thesis by (simp add: same_ballot_count_card)
qed

lemma voted_update:
  assumes st: "voted c S i st" and m: "vote c i a m" "a \<notin> S"
  shows "\<exists>r. update_record m st = (1, st\<lparr>learner_array := (learner_array st)(GET_LEA_INDEX i := r)\<rparr>) \<and> vote_slot c (insert a S) i r"
proof -
  let ?r = "learner_array st (GET_LEA_INDEX i)"
  have i: "lm_iid m = i" "\<not> i \<ge> i32 (highest_delivered st + LEARNER_ARRAY_SIZE)" "\<not> i \<le> highest_delivered st"
    using st m(1) by (auto simp: voted_def vote_def c_simps)
  show ?thesis
  proof (cases "vote_slot c S i ?r")
    case True
    then have "lr_iid ?r = i" "\<not> is_closed ?r" by (simp_all add: vote_slot_def)
    then show ?thesis
      using i vote_slot_add [OF True m] by (intro exI [of _ "with_learn a m ?r"]) (simp add: update_record_def Let_def)
  next
    case False
    then have "S = {}" "lr_iid ?r \<noteq> i" using st by (auto simp: voted_def Let_def)
    then show ?thesis
      using i vote_slot_add [OF vote_slot_clean m(1), of ?r]
      by (intro exI [of _ "with_learn a m (clean_record i ?r)"]) (simp add: update_record_def Let_def)
  qed
qed

definition delivery_of_learn :: "learn_msg \<Rightarrow> delivery" where
  "delivery_of_learn m = \<lparr>dl_value = lm_value m, dl_size = lm_value_size m, dl_iid = lm_iid m,
     dl_ballot = lm_ballot m, dl_proposer = lm_proposer_id m\<rparr>"

lemma vote_step:
  assumes st: "voted c S i st" and m: "vote c i a m" "a \<notin> S" and wf: "wf_learn m"
  defines "t \<equiv> learner_handle_learn_msg m st"
  shows "if card S < 2 then voted c (insert a S) i t \<and> delivered t = delivered st
    else \<exists>ds. delivered t = delivered st @ delivery_of_learn m # ds"
proof -
  let ?k = "GET_LEA_INDEX i"
  define st1 where "st1 = (if lm_iid m > highest_seen st then st\<lparr>highest_seen := lm_iid m\<rparr> else st)"
  have st1: "voted c S i st1" "delivered st1 = delivered st" using st by (simp_all add: voted_def st1_def)
  have t: "t = (let (relevant, st2) = update_record m st1
      in if relevant = 0 then st2
         else let (closed, st3) = check_quorum m st2
              in if closed = 0 then st3
                 else if lm_iid m = i32 (highest_delivered st3 + 1) then deliver_values (lm_iid m) st3 else st3)"
    unfolding t_def learner_handle_learn_msg_def st1_def Let_def ..
  obtain r where r: "update_record m st1 = (1, st1\<lparr>learner_array := (learner_array st1)(?k := r)\<rparr>)"
    "vote_slot c (insert a S) i r"
    using voted_update [OF st1(1) m] by blast
  let ?st2 = "st1\<lparr>learner_array := (learner_array st1)(?k := r)\<rparr>"
  have sub: "insert a S \<subseteq> {..<3}" and fin: "finite S" and iid: "lm_iid m = i" and ba: "lm_ballot m = c"
    using st m(1) finite_subset [of S "{..<3}"] by (auto simp: voted_def vote_def)
  have cnt: "same_ballot_count c r = int (card S) + 1"
    using vote_slot_count [OF r(2) sub] m(2) fin by simp
  have st2: "learner_array ?st2 ?k = r" "lea_quorum ?st2 = 3" "highest_delivered ?st2 + 1 = i" "delivered ?st2 = delivered st"
    using st1 by (simp_all add: voted_def)
  show ?thesis
  proof (cases "card S < 2")
    case True
    then have "check_quorum m ?st2 = (0, ?st2)" using st2(1,2) cnt by (simp add: check_quorum_def iid ba Let_def)
    then have "t = ?st2" by (simp add: t r(1) Let_def)
    moreover have "voted c (insert a S) i ?st2" using st1(1) r(2) sub by (simp add: voted_def Let_def)
    ultimately show ?thesis using True st2(4) by simp
  next
    case False
    let ?r' = "r\<lparr>lr_ballot := lm_ballot m, lr_proposer_id := lm_proposer_id m, lr_final_value_size := lm_value_size m,
      lr_final_value := Some (lm_value m)\<rparr>"
    let ?st3 = "?st2\<lparr>learner_array := (learner_array ?st2)(?k := ?r')\<rparr>"
    have "take (nat (lm_value_size m)) (lm_value m) = lm_value m" using wf by (simp add: wf_learn_def)
    then have cq: "check_quorum m ?st2 = (1, ?st3)"
      using False st2(1,2) cnt by (simp add: check_quorum_def iid ba Let_def)
    have rng: "in_i32 i" "in_i32 (i + 1)" using st by (auto simp: voted_def in_i32_def)
    then have "t = deliver_values i ?st3"
      using st2(3) by (simp add: t r(1) cq iid Let_def)
    also have "\<dots> = deliver_values (i32 (i + 1)) (deliver_one i (lm_value m) ?st3)" by (simp add: deliver_values.simps [of i])
    finally have dt: "t = deliver_values (i32 (i + 1)) (deliver_one i (lm_value m) ?st3)" .
    have "delivered (deliver_one i (lm_value m) ?st3) = delivered st @ [delivery_of_learn m]"
      using st2(4) wf by (simp add: deliver_one_def delivery_of_learn_def wf_learn_def iid ba Let_def)
    then show ?thesis
      using False dt deliver_values_rounds [of "i32 (i + 1)" "deliver_one i (lm_value m) ?st3"] by auto
  qed
qed

lemma three_votes:
  assumes st: "voted c {} i st" and as: "distinct [a0, a1, a2]"
    and m: "vote c i a0 m0" "vote c i a1 m1" "vote c i a2 m2" and wf: "wf_learn m0" "wf_learn m1" "wf_learn m2"
  shows "\<exists>ds. delivered (fold learner_handle_learn_msg [m0, m1, m2] st) = delivered st @ delivery_of_learn m2 # ds"
proof -
  let ?s = "learner_handle_learn_msg m0 st"
  let ?t = "learner_handle_learn_msg m1 ?s"
  have 1: "voted c {a0} i ?s" "delivered ?s = delivered st" using vote_step [OF st m(1) _ wf(1)] by simp_all
  have 2: "voted c {a1, a0} i ?t" "delivered ?t = delivered ?s" using vote_step [OF 1(1) m(2) _ wf(2)] as by auto
  have "card {a1, a0} = 2" using as by simp
  then show ?thesis using vote_step [OF 2(1) m(3) _ wf(3)] as 1(2) 2(2) by auto
qed

text \<open>A learner that heard only lower ballots for the next instance is ready for the round.\<close>

lemma voted_start:
  assumes inv: "learner_inv R st" and i: "highest_delivered st + 1 = i" "i \<le> 2147483135"
    and low: "\<forall>l\<in>R. lm_iid l = i \<longrightarrow> lm_ballot l < c"
  shows "voted c {} i st"
proof -
  let ?r = "learner_array st (GET_LEA_INDEX i)"
  have core: "learns_ok R ?r" "\<not> is_closed ?r" "lea_quorum st = 3" "-1 \<le> highest_delivered st"
    using inv i(1) by (auto simp: learner_inv_def core_inv_def slots_ok_def drained_def counters_ok_def)
  have "vote_slot c {} i ?r" if "lr_iid ?r = i"
    using core(1,2) that low by (auto simp: vote_slot_def learns_ok_def c_simps split: option.split)
  then show ?thesis using core(3,4) i by (auto simp: voted_def Let_def)
qed

end
