(* ===== verification/End_To_End.thy ===== *)
theory End_To_End
  imports Collision Learner_Votes
begin

text \<open>
  The messages of a failure-free start, one process at a time: the acceptors' answer to the leader's
  first prepare batch is one datagram of empty promises, the leader answers the third of them with
  one any message for its whole window, and an acceptor that gets both accepts the first accept for
  instance 0.
\<close>

section \<open>The acceptors' answer to a batch\<close>

text \<open>A batch whose promises fit is answered with one datagram.\<close>

lemma add_promise_fits:
  assumes "batch_inv st" and "send_buffer_size st + (sizeof_promise_msg + ar_value_size r) \<le> MAX_UDP_MSG_SIZE"
  shows "acc_sent (snd (add_promise_to_send_buffer env r st)) = acc_sent st
    \<and> batch_promises (snd (add_promise_to_send_buffer env r st)) = batch_promises st @ [promise_of r]"
proof -
  have "0 < send_buffer_size st" using assms(1) sum_promise_size_nonneg [of "batch_promises st"] by (simp add: batch_inv_def)
  then show ?thesis using assms(2) by (simp add: add_promise_to_send_buffer_def Let_def)
qed

definition batch_room :: "'s acceptor \<Rightarrow> promise_msg list \<Rightarrow> bool" where
  "batch_room st ps \<longleftrightarrow> batch_inv st
     \<and> 16 + sum_list (map promise_size (batch_promises st @ ps)) \<le> MAX_UDP_MSG_SIZE"

lemma handle_prepare_fits:
  assumes inv: "acc_inv env st" and env: "env_ok env" and m: "prepare_ok m"
    and room: "batch_room st (prepare_replies [m] (known env st) @ ps)"
  defines "t \<equiv> snd (handle_prepare env m st)"
  shows "acc_sent t = acc_sent st \<and> batch_promises t = batch_promises st @ prepare_replies [m] (known env st)
    \<and> batch_room t ps"
proof -
  have b: "batch_inv st" using room by (simp add: batch_room_def)
  have bt: "batch_inv t" unfolding t_def using handle_prepare_out [OF inv env m b] by simp
  have "acc_sent t = acc_sent st \<and> batch_promises t = batch_promises st @ prepare_replies [m] (known env st)"
    using handle_prepare_step [OF inv env m]
  proof
    assume "ignores env m st (snd (handle_prepare env m st))"
    then show ?thesis by (simp add: ignores_def same_out_def t_def)
  next
    assume "promises env m st (snd (handle_prepare env m st))"
    then obtain r st' where p: "prepare_flat m (known env st) = Some (flatten r)"
        "t = snd (add_promise_to_send_buffer env r st')" "rec_wf r" "same_out st st'"
      unfolding promises_def t_def by blast
    have replies: "prepare_replies [m] (known env st) = [promise_of r]"
      using p(1,3) by (simp add: promise_of_flatten)
    have st': "batch_inv st'" using p(4) b by (simp add: batch_inv_def same_out_def)
    have "send_buffer_size st' + (sizeof_promise_msg + ar_value_size r) \<le> MAX_UDP_MSG_SIZE"
      using room p(4) replies promise_of_size [OF p(3)] sum_promise_size_nonneg [of ps] b
      by (simp add: batch_room_def batch_inv_def same_out_def)
    from add_promise_fits [OF st' this, of env] show ?thesis using p(2,4) replies by (simp add: same_out_def)
  qed
  with bt room show ?thesis by (simp add: batch_room_def add.assoc)
qed

lemma fold_prepare_fits:
  assumes "\<forall>m\<in>set ms. prepare_ok m" and "env_ok env" and "acc_inv env st"
    and "batch_room st (prepare_replies ms (known env st))"
  defines "t \<equiv> fold (\<lambda>m s. snd (handle_prepare env m s)) ms st"
  shows "acc_sent t = acc_sent st \<and> batch_promises t = batch_promises st @ prepare_replies ms (known env st)"
  using assms(1,3,4) unfolding t_def
proof (induction ms arbitrary: st)
  case (Cons m ms)
  let ?u = "snd (handle_prepare env m st)"
  have m: "prepare_ok m" using Cons.prems(1) by simp
  have split: "prepare_replies (m # ms) F = prepare_replies [m] F @ prepare_replies ms (prepare_spec m F)" for F by simp
  note u = handle_prepare_fits [OF Cons.prems(2) assms(2) m Cons.prems(3) [unfolded split]]
  note r = handle_prepare_records [OF Cons.prems(2) assms(2) m]
  show ?case using Cons.IH [of ?u] Cons.prems(1) u r by (simp add: split)
qed simp

lemma handle_prepare_batch_fits:
  assumes ms: "\<forall>m\<in>set ms. prepare_ok m" and env: "env_ok env" and inv: "acc_inv env st"
    and ps: "prepare_replies ms (known env st) = ps" "ps \<noteq> []"
    and size: "16 + sum_list (map promise_size ps) \<le> MAX_UDP_MSG_SIZE"
  shows "acc_sent (snd (handle_prepare_batch env ms st)) = acc_sent st
    @ [(Proposers_Net, int (length (encode_packet (Promise_Batch (acceptor_id st) ps))), Promise_Batch (acceptor_id st) ps)]"
proof -
  let ?st1 = "st\<lparr>send_buffer_size := sizeof_paxos_msg + sizeof_promise_batch_msg,
    batch_promises := [], batch_acceptor_id := acceptor_id st\<rparr>"
  let ?st2 = "fold (\<lambda>m s. snd (handle_prepare env m s)) ms ?st1"
  have st1: "acc_inv env ?st1" "known env ?st1 = known env st" "batch_inv ?st1"
    using inv acc_inv_cong [of ?st1 st env] known_cong [of ?st1 st env] by (simp_all add: batch_inv_def acc_inv_def c_simps)
  have "batch_room ?st1 (prepare_replies ms (known env ?st1))" using st1(2,3) ps size by (simp add: batch_room_def)
  with st1 fold_prepare_fits [OF ms env, of ?st1] fold_prepare_out [OF ms env, of ?st1] ps
  have st2: "acc_sent ?st2 = acc_sent st" "batch_promises ?st2 = ps" "batch_inv ?st2" "acceptor_id ?st2 = acceptor_id st"
    by simp_all
  then show ?thesis
    using ps(2) by (simp add: handle_prepare_batch_def Let_def flush_promises_def flush_send_buffer_def batch_inv_def size_Promise_Batch)
qed

text \<open>An acceptor that has no record of the instances promises each, with no value.\<close>

definition empty_promise :: "int \<Rightarrow> int \<Rightarrow> promise_msg" where
  "empty_promise i b = \<lparr>prm_iid = i, prm_ballot = b, prm_value_ballot = -1, prm_value_size = 0, prm_value = []\<rparr>"

lemma prepare_replies_fresh:
  assumes "distinct (map pm_iid ms)" and "\<forall>m\<in>set ms. F (pm_iid m) = None"
  shows "prepare_replies ms F = map (\<lambda>m. empty_promise (pm_iid m) (pm_ballot m)) ms"
  using assms
proof (induction ms arbitrary: F)
  case (Cons m ms)
  have "prepare_flat m F = Some \<lparr>fl_iid = pm_iid m, fl_ballot = pm_ballot m, fl_value_ballot = -1, fl_value_size = 0, fl_value = []\<rparr>"
    using Cons.prems(2) by (simp add: prepare_flat_def)
  moreover have "\<forall>m'\<in>set ms. prepare_spec m F (pm_iid m') = None"
    using Cons.prems by (simp add: prepare_spec_def image_iff split: option.split) metis
  ultimately show ?case using Cons.IH [of "prepare_spec m F"] Cons.prems(1)
    by (simp add: empty_promise_def promise_of_flat_def)
qed simp

section \<open>The leader's side\<close>

text \<open>The slot of instance \<open>i\<close> after the empty promises of the acceptors in \<open>S\<close>.\<close>

definition no_value :: "proposer_record \<Rightarrow> bool" where
  "no_value r \<longleftrightarrow> length (pr_promises r) = 3 \<and> (\<forall>p\<in>set (pr_promises r). pi_value_ballot p = -1)"

definition asked :: "int \<Rightarrow> nat set \<Rightarrow> int \<Rightarrow> proposer_record \<Rightarrow> bool" where
  "asked b S i r \<longleftrightarrow> pr_iid r = i \<and> pr_ballot r = b \<and> pr_status r = p1_pending \<and> pr_promise_count r = int (card S)
     \<and> no_value r \<and> (\<forall>a<3. pi_iid (pr_promises r ! a) = -1 \<longleftrightarrow> a \<notin> S)"

definition answered :: "int \<Rightarrow> int \<Rightarrow> proposer_record \<Rightarrow> bool" where
  "answered b i r \<longleftrightarrow> pr_iid r = i \<and> pr_ballot r = b \<and> pr_status r = p1_ready \<and> no_value r"

lemma asked_opened:
  assumes "0 \<le> i"
  shows "asked b {} i (opened b i r)"
  by (auto simp: asked_def no_value_def opened_def clear_promises_def no_promise_def three_acceptors less_Suc_eq numeral_3_eq_3)

lemma third_acceptor:
  assumes "S \<subseteq> {..<3}" "a < 3" "a \<notin> (S :: nat set)"
  shows "finite S" and "i32 (int (card S) + 1) = int (card S) + 1"
proof -
  show "finite S" using assms(1) finite_subset by blast
  have "card S < card {..<3 :: nat}" using assms by (intro psubset_card_mono) auto
  then show "i32 (int (card S) + 1) = int (card S) + 1" by simp
qed

lemma empty_promise_step:
  assumes r: "asked b S i (proposer_array st k)" and a: "a < 3" "a \<notin> S" and i: "0 \<le> i" and q: "lead_quorum st = 3"
    and S: "S \<subseteq> {..<3}"
  shows "\<exists>ret st' r'. handle_promise (empty_promise i b) (int a) k st = Some (ret, st') \<and> lead_quorum st' = 3
    \<and> lead_sent st' = lead_sent st \<and> proposer_array st' = (proposer_array st)(k := r')
    \<and> (if card S < 2 then asked b (insert a S) i r' else answered b i r')"
proof -
  let ?r = "proposer_array st k"
  let ?r1 = "with_promise a (empty_promise i b) ?r"
  note c3 = third_acceptor [OF S a]
  have len: "length (pr_promises ?r) = 3" using r by (simp add: asked_def no_value_def)
  have c: "counts ?r (int a) (empty_promise i b)" using r a by (simp add: counts_def asked_def empty_promise_def)
  have "no_value ?r1"
    using r a(1) unfolding asked_def no_value_def
    by (auto simp: with_promise_def store_promise_def empty_promise_def Let_def dest!: set_update_subset_insert [THEN subsetD])
  then have r1: "asked b (insert a S) i ?r1" "answered b i (?r1\<lparr>pr_status := p1_ready\<rparr>)"
    using r a i c3 len
    by (auto simp: asked_def answered_def with_promise_def no_value_def nth_list_update empty_promise_def)
  show ?thesis
  proof (cases "card S < 2")
    case True
    then have "handle_promise (empty_promise i b) (int a) k st = Some (0, set_record k ?r1 st)"
      using handle_promise_cases [of "int a" st k "empty_promise i b"] c a(1) len q r c3(2) by (simp add: asked_def)
    then show ?thesis using True r1(1) q by (auto simp: set_record_def)
  next
    case False
    then have "handle_promise (empty_promise i b) (int a) k st
        = Some (1, promote_ready ?r1 (set_record k (?r1\<lparr>pr_status := p1_ready\<rparr>) st))"
      using handle_promise_cases [of "int a" st k "empty_promise i b"] c a(1) len q r c3(2) by (simp add: asked_def)
    then show ?thesis using False r1(2) q
      by (auto simp: set_record_def promote_ready_def widen_check_def Let_def)
  qed
qed

text \<open>A batch of empty promises, for instances that have a slot each.\<close>

definition slots_are :: "(int \<Rightarrow> proposer_record \<Rightarrow> bool) \<Rightarrow> int list \<Rightarrow> leader \<Rightarrow> bool" where
  "slots_are P js st \<longleftrightarrow> (\<forall>i\<in>set js. P i (proposer_array st (GET_PRO_INDEX i)))"

definition empty_promises :: "int list \<Rightarrow> int \<Rightarrow> promise_msg list" where
  "empty_promises js b = map (\<lambda>i. empty_promise i b) js"

lemma empty_promises_step:
  assumes "slots_are (asked b S) js st" and a: "a < 3" "a \<notin> S" "S \<subseteq> {..<3}" and q: "lead_quorum st = 3"
    and inj: "inj_on GET_PRO_INDEX (set js)" "distinct js" and i: "\<forall>i\<in>set js. 0 \<le> i"
  defines "Q \<equiv> if card S < 2 then asked b (insert a S) else answered b"
  shows "\<exists>st'. ofold (\<lambda>m st. map_option snd (handle_promise m (int a) (GET_PRO_INDEX (prm_iid m)) st)) (empty_promises js b) st = Some st'
    \<and> lead_quorum st' = 3 \<and> lead_sent st' = lead_sent st \<and> slots_are Q js st'
    \<and> (\<forall>k. k \<notin> GET_PRO_INDEX ` set js \<longrightarrow> proposer_array st' k = proposer_array st k)"
  using assms(1) q inj i
proof (induction js arbitrary: st)
  case Nil
  then show ?case by (simp add: slots_are_def empty_promises_def)
next
  case (Cons i js)
  let ?k = "GET_PRO_INDEX i"
  have r: "asked b S i (proposer_array st ?k)" "0 \<le> i" using Cons.prems(1,5) by (simp_all add: slots_are_def)
  obtain ret st1 r' where st1: "handle_promise (empty_promise i b) (int a) ?k st = Some (ret, st1)" "lead_quorum st1 = 3"
    "lead_sent st1 = lead_sent st" "proposer_array st1 = (proposer_array st)(?k := r')" "Q i r'"
    using empty_promise_step [OF r(1) a(1,2) r(2) Cons.prems(2) a(3)] unfolding Q_def by (auto split: if_splits)
  have others: "\<forall>j\<in>set js. GET_PRO_INDEX j \<noteq> ?k" using Cons.prems(3,4) by (auto simp: inj_on_def)
  then have "slots_are (asked b S) js st1" using Cons.prems(1) st1(4) by (simp add: slots_are_def)
  from Cons.IH [OF this st1(2)] Cons.prems(3-5) obtain st' where st': "ofold (\<lambda>m st. map_option snd
      (handle_promise m (int a) (GET_PRO_INDEX (prm_iid m)) st)) (empty_promises js b) st1 = Some st'"
    "lead_quorum st' = 3" "lead_sent st' = lead_sent st1" "slots_are Q js st'"
    "\<forall>k. k \<notin> GET_PRO_INDEX ` set js \<longrightarrow> proposer_array st' k = proposer_array st1 k"
    by (auto simp: inj_on_def)
  have "?k \<notin> GET_PRO_INDEX ` set js" using others by force
  then have "proposer_array st' ?k = r'" using st'(5) st1(4) by simp
  then show ?case using st' st1 by (auto simp: slots_are_def empty_promises_def empty_promise_def)
qed

text \<open>The window of the start: 51 instances with a slot each.\<close>

definition start_window :: "int list" where "start_window = [0..50]"

lemma set_start_window [simp]: "set start_window = {0..50}"
  by (simp add: start_window_def del: upto_rec_numeral)

lemma start_window_ends: "start_window \<noteq> []" "hd start_window = 0" "last start_window = 50" "distinct start_window"
proof -
  have eq: "start_window = 0 # [1..49] @ [50]"
    using upto_rec1 [of 0 50] upto_rec2 [of 1 50] by (simp add: start_window_def del: upto_rec_numeral)
  show "start_window \<noteq> []" "hd start_window = 0" unfolding eq by simp_all
  show "last start_window = 50" unfolding eq by (simp del: upto_rec_numeral)
  show "distinct start_window" by (simp add: start_window_def del: upto_rec_numeral)
qed

lemma start_window_inj: "inj_on GET_PRO_INDEX (set start_window)"
  by (auto simp: inj_on_def GET_PRO_INDEX_mod c_simps)

lemma no_value_phase2: "no_value r \<Longrightarrow> phase2_value r = None"
  by (simp add: phase2_value_None no_value_def reports_def)

lemma phase2_sends_asked:
  assumes "slots_are (asked b S) js st"
  shows "phase2_sends (proposer_array st) js = []"
proof -
  have "\<forall>i\<in>set js. \<not> ready_at (proposer_array st) i" using assms by (auto simp: slots_are_def asked_def ready_at_def)
  then show ?thesis by (simp add: phase2_sends_def accepts_for_def valued_def unvalued_def filter_empty_conv)
qed

lemma fold_max_same: "\<forall>x\<in>set xs. x = b \<Longrightarrow> xs \<noteq> [] \<Longrightarrow> c \<le> b \<Longrightarrow> fold max xs c = (b :: int)"
proof (induction xs arbitrary: c)
  case (Cons x xs)
  then show ?case by (cases xs) (simp_all add: max_def)
qed simp

lemma phase2_sends_answered:
  assumes "slots_are (answered b) js st" and "js \<noteq> []" and "0 \<le> b"
  shows "phase2_sends (proposer_array st) js = [any_datagram b js]"
proof -
  have r: "\<forall>i\<in>set js. ready_at (proposer_array st) i \<and> phase2_value (proposer_array st (GET_PRO_INDEX i)) = None
      \<and> pr_ballot (proposer_array st (GET_PRO_INDEX i)) = b"
    using assms(1) by (auto simp: slots_are_def answered_def ready_at_def intro: no_value_phase2)
  then have u: "unvalued (proposer_array st) js = js" "valued (proposer_array st) js = []"
    by (simp_all add: unvalued_def valued_def filter_empty_conv)
  have "fold max (ballots_of (proposer_array st) js) (-1) = b"
    using r assms(2,3) by (intro fold_max_same) (auto simp: ballots_of_def u)
  then show ?thesis using u assms(2) by (simp add: phase2_sends_def accepts_for_def)
qed

text \<open>The leader's slots when it has started, and its answers to the three batches.\<close>

lemma leader_init_slots:
  assumes "in_bounds pid 0"
  shows "slots_are (asked (20 + pid) {}) start_window (snd (leader_init pid leader_static))"
proof -
  let ?i = "leader_init_state pid leader_static"
  have i: "lead_proposer_id ?i = pid" "proposer_array ?i = (\<lambda>_. static_proposer_record)" "highest_ready (p1info ?i) = -1"
    by (simp_all add: leader_init_state_def init_prepare_batch_def set_phase2_check_timeout_def leader_static_def)
  have small: "small_ready ?i" by (simp add: small_ready_def i)
  have win: "window ?i = start_window" by (simp add: window_def i start_window_def del: upto_rec_numeral)
  have "find (\<lambda>i. GET_PRO_INDEX i = GET_PRO_INDEX j \<and> opens i static_proposer_record) start_window = Some j"
    if j: "j \<in> set start_window" for j
  proof (rule find_unique)
    show "\<forall>i\<in>set start_window. GET_PRO_INDEX i = GET_PRO_INDEX j \<and> opens i static_proposer_record \<longrightarrow> i = j"
      using start_window_inj j unfolding inj_on_def by blast
    show "GET_PRO_INDEX j = GET_PRO_INDEX j \<and> opens j static_proposer_record"
      by (simp add: opens_def static_proposer_record_def)
  qed (rule j)
  then have "proposer_array (snd (leader_init pid leader_static)) (GET_PRO_INDEX j) = opened (20 + pid) j static_proposer_record"
    if "j \<in> set start_window" for j
    using that
    by (simp add: leader_init_def set_phase1_check_timeout_def execute_phase1_frame [OF small]
        opened_state_frame win i FIRST_BALLOT_value [OF i(1) assms(1)] loop_array_def)
  then show ?thesis unfolding slots_are_def using asked_opened by auto
qed

lemma promise_batch_step:
  assumes "slots_are (asked b S) start_window st" and a: "a < 3" "a \<notin> S" "S \<subseteq> {..<3}" and q: "lead_quorum st = 3" and b: "0 \<le> b"
  shows "\<exists>st'. leader_step (Promises (int a) (empty_promises start_window b)) st = Some st' \<and> lead_quorum st' = 3
    \<and> (if card S < 2 then slots_are (asked b (insert a S)) start_window st' \<and> lead_sent st' = lead_sent st
       else lead_sent st' = lead_sent st @ [any_datagram b start_window])"
proof -
  let ?ps = "empty_promises start_window b"
  have ends: "?ps \<noteq> []" "prm_iid (hd ?ps) = 0" "prm_iid (last ?ps) = 50"
    using start_window_ends by (simp_all add: empty_promises_def hd_map last_map empty_promise_def)
  obtain st1 where st1: "ofold (\<lambda>m st. map_option snd (handle_promise m (int a) (GET_PRO_INDEX (prm_iid m)) st)) ?ps st = Some st1"
    "lead_quorum st1 = 3" "lead_sent st1 = lead_sent st"
    "slots_are (if card S < 2 then asked b (insert a S) else answered b) start_window st1"
    using empty_promises_step [OF assms(1) a q start_window_inj start_window_ends(4)] by auto
  let ?st' = "execute_phase2 0 50 st1"
  have step: "leader_step (Promises (int a) ?ps) st = Some ?st'" using ends st1(1) by (simp add: leader_handle_promise_msg_def)
  have sent: "lead_sent ?st' = lead_sent st @ phase2_sends (proposer_array st1) start_window"
    using execute_phase2_sends [of 50 0 st1] st1(3) by (simp add: start_window_def del: upto_rec_numeral)
  show ?thesis
  proof (cases "card S < 2")
    case True
    then have asked: "slots_are (asked b (insert a S)) start_window st1" using st1(4) by simp
    have "finish (proposer_array st1 (GET_PRO_INDEX i)) = proposer_array st1 (GET_PRO_INDEX i)" if "i \<in> set start_window" for i
      using asked that by (simp add: slots_are_def asked_def finish_def)
    then have "slots_are (asked b (insert a S)) start_window ?st'"
      using asked by (simp add: slots_are_def execute_phase2_array)
    then show ?thesis using step sent True st1(2) phase2_sends_asked [OF asked] by (simp add: frame)
  next
    case False
    then have "slots_are (answered b) start_window st1" using st1(4) by simp
    from phase2_sends_answered [OF this start_window_ends(1) b] show ?thesis using step sent False st1(2) by (simp add: frame)
  qed
qed

lemma three_promise_batches:
  assumes lid: "in_bounds lid 0" and as: "distinct [a0, a1, a2]" and lt: "a0 < 3" "a1 < 3" "a2 < 3"
  defines "l0 \<equiv> snd (leader_init lid leader_static)" and "ps \<equiv> empty_promises start_window (20 + lid)"
  shows "\<exists>l3. ofold leader_step [Promises (int a0) ps, Promises (int a1) ps, Promises (int a2) ps] l0 = Some l3
    \<and> lead_sent l3 = lead_sent l0 @ [any_datagram (20 + lid) start_window]"
proof -
  have b: "0 \<le> 20 + lid" using lid by (simp add: in_bounds_def)
  have l0: "slots_are (asked (20 + lid) {}) start_window l0" "lead_quorum l0 = 3"
    using leader_init_slots [OF lid] leader_init_slot0(2) [OF lid] by (simp_all add: l0_def)
  obtain l1 where l1: "leader_step (Promises (int a0) ps) l0 = Some l1" "lead_quorum l1 = 3"
    "slots_are (asked (20 + lid) {a0}) start_window l1" "lead_sent l1 = lead_sent l0"
    using promise_batch_step [OF l0(1) lt(1) _ _ l0(2) b] by (auto simp: ps_def)
  obtain l2 where l2: "leader_step (Promises (int a1) ps) l1 = Some l2" "lead_quorum l2 = 3"
    "slots_are (asked (20 + lid) {a1, a0}) start_window l2" "lead_sent l2 = lead_sent l1"
    using promise_batch_step [OF l1(3) lt(2) _ _ l1(2) b] as lt by (auto simp: ps_def)
  obtain l3 where l3: "leader_step (Promises (int a2) ps) l2 = Some l3"
    "lead_sent l3 = lead_sent l2 @ [any_datagram (20 + lid) start_window]"
    using promise_batch_step [OF l2(3) lt(3) _ _ l2(2) b] as lt by (auto simp: ps_def)
  show ?thesis using l1 l2 l3 by simp
qed

section \<open>One instance among the others\<close>

text \<open>What is done for other instances of the first round leaves the slot of \<open>i\<close> alone.\<close>

definition kept :: "int \<Rightarrow> acceptor_record \<Rightarrow> learn_msg list \<Rightarrow> int set \<Rightarrow> int \<Rightarrow> 's acceptor \<Rightarrow> bool" where
  "kept i r L op a st \<longleftrightarrow> at_slot i r L a st \<and> (\<exists>M. fast_inv op M a st)"

lemma at_slot_other:
  assumes "at_slot i r L a st" and "first_round i" "first_round j" "j \<noteq> i"
    and "acceptor_array t = (acceptor_array st)(nat j := q)" "sent_learns t = sent_learns st" "acceptor_id t = acceptor_id st"
  shows "at_slot i r L a t"
  using assms by (auto simp: at_slot_def first_round_def)

lemma kept_prepare_other:
  assumes st: "kept i r L op a st" and i: "first_round i" and m: "first_round (pm_iid m)" "pm_iid m \<noteq> i" "pm_iid m \<notin> op"
  shows "kept i r L op a (snd (handle_prepare env m st))"
proof -
  obtain M where inv: "fast_inv op M a st" and at: "at_slot i r L a st" using st by (auto simp: kept_def)
  have "at_slot i r L a (snd (handle_prepare env m st))"
    using prepare_fast [OF m(1) fast_invD(3) [OF inv m(1)], of env] at_slot_other [OF at i m(1,2)] by blast
  then show ?thesis using prepare_step_fast [OF inv m(1,3)] by (auto simp: kept_def)
qed

lemma kept_anyval_other:
  assumes st: "kept i r L op a st" and i: "first_round i" and j: "first_round j" "j \<noteq> i" "j \<notin> op"
  shows "\<exists>ret t. handle_anyval env b j st = Some (ret, t) \<and> kept i r L (insert j op) a t"
proof -
  obtain M where inv: "fast_inv op M a st" and at: "at_slot i r L a st" using st by (auto simp: kept_def)
  obtain ret t where t: "handle_anyval env b j st = Some (ret, t)" "fast_inv (insert j op) M a t"
    by (rule anyval_step_fast [OF inv j(1,3)])
  have "sent_learns t = sent_learns st \<and> acceptor_id t = acceptor_id st \<and> (\<exists>q. acceptor_array t = (acceptor_array st)(nat j := q))"
    using anyval_fast [OF j(1) fast_invD(3) [OF inv j(1)], of env b] t(1) fun_upd_triv by fastforce
  then have "at_slot i r L a t" using at_slot_other [OF at i j(1,2)] by blast
  with t show ?thesis by (auto simp: kept_def)
qed

lemma kept_prepares:
  assumes "kept i r L op a st" and "first_round i" and "\<forall>m\<in>set ms. first_round (pm_iid m) \<and> pm_iid m \<noteq> i \<and> pm_iid m \<notin> op"
  shows "kept i r L op a (fold (\<lambda>m s. snd (handle_prepare env m s)) ms st)"
  using assms by (induction ms arbitrary: st) (simp_all add: kept_prepare_other)

lemma kept_anyvals:
  assumes "kept i r L op a st" and "first_round i" and "distinct js" and "\<forall>j\<in>set js. first_round j \<and> j \<noteq> i \<and> j \<notin> op"
  shows "\<exists>t. ofold (\<lambda>j s. map_option snd (handle_anyval env b j s)) js st = Some t \<and> kept i r L (set js \<union> op) a t"
  using assms
proof (induction js arbitrary: st op)
  case (Cons j js)
  obtain ret t where t: "handle_anyval env b j st = Some (ret, t)" "kept i r L (insert j op) a t"
    using kept_anyval_other [OF Cons.prems(1,2), of j env b] Cons.prems(4) by auto
  then show ?case using Cons.IH [OF t(2)] Cons.prems by auto
qed simp

text \<open>The acceptor through the leader's first two messages and the first accept.\<close>

definition start_prepares :: "int \<Rightarrow> prepare_msg list" where
  "start_prepares b = prepares (map (\<lambda>i. (i, b)) start_window)"

lemma start_window_Cons: "start_window = 0 # [1..50]"
  using upto_rec1 [of 0 50] by (simp add: start_window_def del: upto_rec_numeral)

lemma start_prepares_Cons: "start_prepares b = \<lparr>pm_iid = 0, pm_ballot = b\<rparr> # prepares (map (\<lambda>i. (i, b)) [1..50])"
  by (simp add: start_prepares_def start_window_Cons prepares_def del: upto_rec_numeral)

lemma first_round_window: "0 \<le> i \<Longrightarrow> i \<le> 50 \<Longrightarrow> first_round i"
  by (simp add: first_round_def c_simps)

lemma start_prepared:
  "\<exists>t. acceptor_run env [Prepare_Batch (start_prepares b)] (acceptor_init a db0) = Some t
    \<and> kept 0 (prepared 0 b static_record) [] {} a t"
proof -
  let ?st = "acceptor_init a db0"
  let ?st1 = "?st\<lparr>send_buffer_size := sizeof_paxos_msg + sizeof_promise_batch_msg, batch_promises := [],
    batch_acceptor_id := acceptor_id ?st\<rparr>"
  let ?m = "\<lparr>pm_iid = 0, pm_ballot = b\<rparr>" and ?ms = "prepares (map (\<lambda>i. (i, b)) [1..50])"
  let ?st2 = "fold (\<lambda>m s. snd (handle_prepare env m s)) ?ms (snd (handle_prepare env ?m ?st1))"
  have at: "at_slot 0 static_record [] a ?st1" using at_slot_init [of 0 a db0] by (simp add: at_slot_def sent_learns_def)
  have inv: "fast_inv {} {} a ?st1" using fast_inv_init [of a db0] by (simp add: fast_inv_cong [of ?st1 ?st] sent_learns_def)
  have "at_slot 0 (prepared 0 b static_record) [] a (snd (handle_prepare env ?m ?st1))"
    by (rule at_slot_prepare_one [OF at]) (simp_all add: first_round_window static_record_def)
  moreover have "fast_inv {} {} a (snd (handle_prepare env ?m ?st1))"
    using prepare_step_fast [OF inv, of ?m] by (simp add: first_round_window)
  ultimately have "kept 0 (prepared 0 b static_record) [] {} a (snd (handle_prepare env ?m ?st1))" by (auto simp: kept_def)
  then have k: "kept 0 (prepared 0 b static_record) [] {} a ?st2"
    by (rule kept_prepares) (auto simp: first_round_window prepares_def simp del: upto_rec_numeral)
  let ?t = "snd (handle_prepare_batch env (start_prepares b) ?st)"
  have "kept 0 (prepared 0 b static_record) [] {} a ?t"
    using k by (simp add: handle_prepare_batch_def start_prepares_Cons Let_def kept_def frame
      at_slot_cong [of "flush_promises env ?st2" ?st2] fast_inv_cong [of "flush_promises env ?st2" ?st2] del: upto_rec_numeral)
  then show ?thesis by (simp add: acceptor_run_def)
qed

lemma start_opened:
  assumes "kept 0 (prepared 0 b static_record) [] {} a st"
  shows "\<exists>t. acceptor_run env [Anyval b start_window] st = Some t
    \<and> kept 0 (anyval_record (prepared 0 b static_record) 0 b) [] {0..50} a t"
proof -
  let ?r = "prepared 0 b static_record"
  have f0: "first_round 0" by (simp add: first_round_window)
  have p: "ar_iid ?r = 0 \<and> ar_ballot ?r \<le> b" by (simp add: prepared_def static_record_def)
  obtain M where inv: "fast_inv {} M a st" and at: "at_slot 0 ?r [] a st" using assms by (auto simp: kept_def)
  obtain ret t1 where t1: "handle_anyval env b 0 st = Some (ret, t1)" "fast_inv (insert 0 {}) M a t1"
    by (rule anyval_step_fast [OF inv f0]) simp
  have "\<exists>t. acceptor_run env [Anyval b [0]] st = Some t \<and> at_slot 0 (anyval_record ?r 0 b) [] a t"
    using at_slot_any [OF at f0] p by blast
  then have "at_slot 0 (anyval_record ?r 0 b) [] a t1"
    using t1(1) by (simp add: acceptor_run_def handle_batch_anyval_def)
  then have "kept 0 (anyval_record ?r 0 b) [] {0} a t1" using t1(2) by (auto simp: kept_def)
  from kept_anyvals [OF this f0, of "[1..50]" env b] obtain t where
    t: "ofold (\<lambda>j s. map_option snd (handle_anyval env b j s)) [1..50] t1 = Some t"
    "kept 0 (anyval_record ?r 0 b) [] ({1..50} \<union> {0}) a t"
    by (auto simp: first_round_window simp del: upto_rec_numeral)
  moreover have "{1..50} \<union> {0} = {0..50 :: int}" by auto
  ultimately show ?thesis
    using t1(1) by (simp add: acceptor_run_def handle_batch_anyval_def start_window_Cons del: upto_rec_numeral)
qed

lemma start_accepts:
  assumes "kept 0 (anyval_record (prepared 0 b static_record) 0 b) [] op a st" and m: "accept_msg_ok m" "acm_iid m = 0"
  shows "\<exists>t. acceptor_run env [Accept m] st = Some t \<and> sent_learns t = [learn_of_accept a m]"
proof -
  have f0: "first_round 0" by (simp add: first_round_window)
  have r: "ar_iid (anyval_record (prepared 0 b static_record) 0 b) = 0" "ar_any_enabled (anyval_record (prepared 0 b static_record) 0 b) \<noteq> 0"
    by (simp_all add: anyval_record_def)
  have at: "at_slot 0 (anyval_record (prepared 0 b static_record) 0 b) [] a st" using assms(1) by (simp add: kept_def)
  from at_slot_accept [OF at f0 m(2) r m(1), of env] show ?thesis by (auto simp: at_slot_def)
qed

text \<open>The whole of it, with the datagram of promises that answers the first message.\<close>

definition first_promises :: "int \<Rightarrow> int \<Rightarrow> datagram" where
  "first_promises a b = (let p = Promise_Batch a (empty_promises start_window b)
     in (Proposers_Net, int (length (encode_packet p)), p))"

lemma acceptor_from_start:
  assumes env: "env_ok env" "empty_db env db0" and a: "in_i32 a" and b: "0 \<le> b" "in_i32 b"
    and m: "accept_msg_ok m" "acm_iid m = 0"
  shows "\<exists>s t. acceptor_run env [Prepare_Batch (start_prepares b)] (acceptor_init a db0) = Some s \<and> acc_sent s = [first_promises a b]
    \<and> acceptor_run env [Anyval b start_window, Accept m] s = Some t \<and> sent_learns t = [learn_of_accept a m]"
proof -
  let ?st = "acceptor_init a db0" and ?ms = "start_prepares b"
  obtain s where s: "acceptor_run env [Prepare_Batch ?ms] ?st = Some s" "kept 0 (prepared 0 b static_record) [] {} a s"
    using start_prepared [of env b a db0] by auto
  obtain t1 where t1: "acceptor_run env [Anyval b start_window] s = Some t1"
    "kept 0 (anyval_record (prepared 0 b static_record) 0 b) [] {0..50} a t1"
    using start_opened [OF s(2)] by blast
  obtain t where t: "acceptor_run env [Accept m] t1 = Some t" "sent_learns t = [learn_of_accept a m]"
    using start_accepts [OF t1(2) m] by blast
  have ok: "\<forall>m\<in>set ?ms. prepare_ok m"
    using b by (auto simp: start_prepares_def prepares_def prepare_ok_def valid_iid_def)
  have inv: "acc_inv env ?st" by (rule acc_inv_init [OF env(2) a])
  have none: "\<forall>m\<in>set ?ms. known env ?st (pm_iid m) = None"
    using env(2) by (simp add: known_def empty_db_def acceptor_init_def)
  have iids: "map pm_iid ?ms = start_window" by (simp add: start_prepares_def prepares_def comp_def)
  then have "distinct (map pm_iid ?ms)" using start_window_ends(4) by simp
  from prepare_replies_fresh [OF this none]
  have ps: "prepare_replies ?ms (known env ?st) = empty_promises start_window b"
    by (simp add: start_prepares_def prepares_def empty_promises_def comp_def)
  have "map promise_size (empty_promises start_window b) = map (\<lambda>_. 16) start_window"
    by (simp add: empty_promises_def empty_promise_def promise_size_def c_simps)
  then have size: "16 + sum_list (map promise_size (empty_promises start_window b)) \<le> MAX_UDP_MSG_SIZE"
    by (simp add: sum_list_triv start_window_def c_simps del: upto_rec_numeral)
  have ne: "empty_promises start_window b \<noteq> []" using start_window_ends(1) by (simp add: empty_promises_def)
  have "s = snd (handle_prepare_batch env ?ms ?st)" using s(1) by (simp add: acceptor_run_def)
  then have "acc_sent s = [first_promises a b]"
    using handle_prepare_batch_fits [OF ok env(1) inv ps ne size]
    by (simp add: first_promises_def Let_def acceptor_init_def)
  then show ?thesis using s(1) t acceptor_run_append [OF t1(1), of "[Accept m]"] by auto
qed

section \<open>The learner's side\<close>

lemma vote_of_accept: "a < 3 \<Longrightarrow> vote (acm_ballot m) (acm_iid m) a (learn_of_accept (int a) m)"
  by (simp add: vote_def learn_of_accept_def)

lemma wf_learn_of_accept: "wf_accept m \<Longrightarrow> a < 3 \<Longrightarrow> wf_learn (learn_of_accept (int a) m)"
  by (simp add: wf_accept_def wf_learn_def learn_of_accept_def in_i32_def)

lemma delivery_of_learn_accept: "delivery_of_learn (learn_of_accept a m) = delivery_of m"
  by (simp add: delivery_of_learn_def delivery_of_def learn_of_accept_def)

text \<open>All that a learner can deliver after messages for instance 0 is that instance.\<close>

lemma only_instance_0:
  assumes ok: "\<forall>m\<in>set ms. learn_ok m" and "\<forall>m\<in>set ms. lm_iid m = 0" and d: "delivered (learner_run ms) = d # ds"
  shows "delivered (learner_run ms) = [d]"
proof -
  have log: "map dl_iid (d # ds) = [0..highest_delivered (learner_run ms)]" "\<forall>d\<in>set (d # ds). supported (set ms) d"
    using learner_run_ok [OF ok] d by (simp_all add: learner_inv_def core_inv_def log_ok_def)
  have "set (map dl_iid (d # ds)) \<subseteq> {0}" using log(2) assms(2) by (auto simp: supported_def)
  moreover have "distinct (map dl_iid (d # ds))" unfolding log(1) by simp
  ultimately have "length (map dl_iid (d # ds)) \<le> card {0 :: int}"
    by (metis card_mono distinct_card finite.emptyI finite.insertI)
  then show ?thesis using d by simp
qed

lemma three_learns_any_order:
  assumes as: "distinct [a0, a1, a2]" and lt: "a0 < 3" "a1 < 3" "a2 < 3" and m: "acm_iid m = 0" "accept_msg_ok m"
  shows "delivered (learner_run (map (\<lambda>a. learn_of_accept (int a) m) [a0, a1, a2])) = [delivery_of m]"
proof -
  let ?ms = "map (\<lambda>a. learn_of_accept (int a) m) [a0, a1, a2]"
  have wf: "wf_accept m" using m(2) by (simp add: accept_msg_ok_def)
  have ok: "\<forall>l\<in>set ?ms. learn_ok l"
    using lt m by (auto intro!: learn_of_accept_ok simp: first_round_def acceptor_ids_def c_simps)
  have "voted (acm_ballot m) {} 0 learner_start"
    by (simp add: voted_def vote_slot_def learner_start_def static_learner_record_def is_closed_def c_simps quorum_of_def)
  note votes = this vote_of_accept [of _ m, unfolded m(1)] wf_learn_of_accept [OF wf]
  from three_votes [OF votes(1) as votes(2) [OF lt(1)] votes(2) [OF lt(2)] votes(2) [OF lt(3)]
      votes(3) [OF lt(1)] votes(3) [OF lt(2)] votes(3) [OF lt(3)]]
  have "\<exists>ds. delivered (learner_run ?ms) = delivered learner_start @ delivery_of m # ds"
    unfolding learner_run_def delivery_of_learn_accept list.map .
  then have "\<exists>ds. delivered (learner_run ?ms) = delivery_of m # ds" by (simp add: learner_start_def)
  moreover have "\<forall>l\<in>set ?ms. lm_iid l = 0" using m(1) by (simp add: learn_of_accept_def)
  ultimately show ?thesis using only_instance_0 [OF ok] by blast
qed

end
