(* ===== verification/Recovery.thy ===== *)
theory Recovery
  imports End_To_End
begin

text \<open>
  The recovery of an instance without progress: the leader's phase 2 check prepares it at its next
  ballot, the acceptors promise and report what they accepted, and the third promise makes the
  leader propose the value of the highest ballot reported, which every acceptor then accepts.
\<close>

section \<open>The acceptors\<close>

text \<open>The answer of an acceptor whose record of instance \<open>i\<close>, if any, is \<open>F\<close>.\<close>

definition recovery_promise :: "int \<Rightarrow> int \<Rightarrow> flat_record option \<Rightarrow> promise_msg" where
  "recovery_promise i c F = (case F of None \<Rightarrow> empty_promise i c | Some f \<Rightarrow> promise_of_flat (f\<lparr>fl_ballot := c\<rparr>))"

definition promise_batch :: "int \<Rightarrow> promise_msg list \<Rightarrow> datagram" where
  "promise_batch a ps = (Proposers_Net, int (length (encode_packet (Promise_Batch a ps))), Promise_Batch a ps)"

definition below :: "'s acc_env \<Rightarrow> 's acceptor \<Rightarrow> int \<Rightarrow> int \<Rightarrow> bool" where
  "below env st i c \<longleftrightarrow> (case known env st i of None \<Rightarrow> True | Some f \<Rightarrow> fl_ballot f < c)"

lemma recovery_promise_fields:
  assumes "acc_inv env st"
  shows "prm_iid (recovery_promise i c (known env st i)) = i" "prm_ballot (recovery_promise i c (known env st i)) = c"
    "prm_value_size (recovery_promise i c (known env st i)) = int (length (prm_value (recovery_promise i c (known env st i))))"
    "length (prm_value (recovery_promise i c (known env st i))) \<le> 8960"
  using known_wf [OF assms, of i]
  by (auto simp: recovery_promise_def empty_promise_def promise_of_flat_def flat_wf_def value_wf_def c_simps
      split: option.splits)

lemma recovery_prepare:
  assumes inv: "acc_inv env st" and env: "env_ok env" and i: "valid_iid i" and c: "0 \<le> c" "in_i32 c" and low: "below env st i c"
  shows "\<exists>t f. acceptor_run env [Prepare_Batch [\<lparr>pm_iid = i, pm_ballot = c\<rparr>]] st = Some t \<and> acc_inv env t
    \<and> acceptor_id t = acceptor_id st \<and> known env t i = Some f \<and> fl_ballot f = c
    \<and> acc_sent t = acc_sent st @ [promise_batch (acceptor_id st) [recovery_promise i c (known env st i)]]"
proof -
  let ?m = "\<lparr>pm_iid = i, pm_ballot = c\<rparr>" and ?p = "recovery_promise i c (known env st i)"
  let ?t = "snd (handle_prepare_batch env [?m] st)"
  have ok: "\<forall>m\<in>set [?m]. prepare_ok m" using i c by (simp add: prepare_ok_def)
  have flat: "\<exists>f. prepare_flat ?m (known env st) = Some f \<and> promise_of_flat f = ?p \<and> fl_ballot f = c"
    using low by (auto simp: prepare_flat_def recovery_promise_def below_def empty_promise_def promise_of_flat_def split: option.split)
  then have ps: "prepare_replies [?m] (known env st) = [?p]" by auto
  have "16 + sum_list (map promise_size [?p]) \<le> MAX_UDP_MSG_SIZE"
    using recovery_promise_fields(4) [OF inv, of i c] by (simp add: promise_size_def c_simps)
  note sent = handle_prepare_batch_fits [OF ok env inv ps _ this, simplified]
  obtain f where f: "prepare_flat ?m (known env st) = Some f" "fl_ballot f = c" using flat by blast
  have "known env ?t i = Some f" using handle_prepare_batch_out [OF ok env inv] f by (simp add: prepare_spec_def)
  then show ?thesis
    using handle_prepare_batch_out [OF ok env inv] sent f(2)
    by (intro exI [of _ ?t] exI [of _ f]) (simp add: acceptor_run_def promise_batch_def)
qed

lemma recovery_accept:
  assumes "acc_inv env st" and "env_ok env" and m: "accept_msg_ok m" "min_ballot \<le> acm_ballot m"
    and f: "known env st (acm_iid m) = Some f" "fl_ballot f \<le> acm_ballot m"
  shows "\<exists>t. acceptor_run env [Accept m] st = Some t
    \<and> acc_sent t = acc_sent st @ [learn_datagram (learn_of_accept (acceptor_id st) m)]"
proof -
  have "accept_ok (sees_any env st (acm_iid m)) m (known env st)" using f m(2) by (simp add: accept_ok_def)
  with handle_accept_out [OF assms(1-3)] show ?thesis by (simp add: accepts_def acceptor_run_def)
qed

section \<open>The leader\<close>

text \<open>The slot of instance \<open>i\<close> after the promises \<open>P a\<close> of the acceptors \<open>a\<close> in \<open>S\<close>.\<close>

definition recovering :: "int \<Rightarrow> nat set \<Rightarrow> (nat \<Rightarrow> promise_msg) \<Rightarrow> int \<Rightarrow> proposer_record \<Rightarrow> bool" where
  "recovering c S P i r \<longleftrightarrow> pr_iid r = i \<and> pr_ballot r = c \<and> pr_status r = p1_pending \<and> pr_promise_count r = int (card S)
     \<and> length (pr_promises r) = 3
     \<and> (\<forall>a<3. pr_promises r ! a = (if a \<in> S then store_promise (P a) no_promise else no_promise))"

definition recovered :: "int \<Rightarrow> (nat \<Rightarrow> promise_msg) \<Rightarrow> int \<Rightarrow> proposer_record \<Rightarrow> bool" where
  "recovered c P i r \<longleftrightarrow> pr_iid r = i \<and> pr_ballot r = c \<and> pr_status r = p1_ready
     \<and> length (pr_promises r) = 3 \<and> (\<forall>a<3. pr_promises r ! a = store_promise (P a) no_promise)"

lemma recovering_start: "pr_iid r = i \<Longrightarrow> recovering c {} P i (clear_promises (r\<lparr>pr_ballot := c, pr_status := p1_pending\<rparr>))"
  by (simp add: recovering_def clear_promises_def three_acceptors)

lemma recovering_with_promise:
  assumes r: "recovering c S P i r" and a: "a < 3" "a \<notin> S" and S: "S \<subseteq> {0, 1, 2}"
  shows "recovering c (insert a S) P i (with_promise a (P a) r)"
    and "card S = 2 \<Longrightarrow> recovered c P i ((with_promise a (P a) r)\<lparr>pr_status := p1_ready\<rparr>)"
proof -
  have "S \<subseteq> {..<3}" using S by auto
  note c3 = third_acceptor [OF this a]
  then have "finite S" by simp
  then show *: "recovering c (insert a S) P i (with_promise a (P a) r)"
    using r a c3(2) by (auto simp: recovering_def with_promise_def nth_list_update)
  assume "card S = 2"
  then have "card (insert a S) = 3" using \<open>finite S\<close> a(2) by simp
  moreover have "insert a S \<subseteq> {0, 1, 2}" using S a(1) by auto
  ultimately have "insert a S = {0, 1, 2}" by (intro card_subset_eq) simp_all
  then show "recovered c P i ((with_promise a (P a) r)\<lparr>pr_status := p1_ready\<rparr>)"
    using * by (auto simp: recovering_def recovered_def numeral_3_eq_3 less_Suc_eq)
qed

lemma phase2_sends_one:
  assumes "recovered c P i (A (GET_PRO_INDEX i))" and "0 \<le> c"
  shows "phase2_sends A [i] = (case phase2_value (A (GET_PRO_INDEX i)) of
    None \<Rightarrow> [any_datagram c [i]] | Some pi \<Rightarrow> [accept_datagram (A (GET_PRO_INDEX i)) pi])"
  using assms
  by (auto simp: phase2_sends_def accepts_for_def valued_def unvalued_def ready_at_def recovered_def ballots_of_def
      split: option.split)

lemma phase2_sends_waiting:
  "pr_status (A (GET_PRO_INDEX i)) = p1_pending \<Longrightarrow> phase2_sends A [i] = []"
  by (simp add: phase2_sends_def accepts_for_def valued_def unvalued_def ready_at_def)

lemma recovery_promise_step:
  assumes r: "recovering c S P i (proposer_array st (GET_PRO_INDEX i))" and a: "a < 3" "a \<notin> S" and S: "S \<subseteq> {0, 1, 2}"
    and P: "prm_iid (P a) = i" "prm_ballot (P a) = c" and q: "lead_quorum st = 3" and c: "0 \<le> c"
  shows "\<exists>st'. leader_step (Promises (int a) [P a]) st = Some st' \<and> lead_quorum st' = 3
    \<and> (if card S < 2 then recovering c (insert a S) P i (proposer_array st' (GET_PRO_INDEX i)) \<and> lead_sent st' = lead_sent st
       else \<exists>r'. recovered c P i r' \<and> lead_sent st' = lead_sent st
          @ (case phase2_value r' of None \<Rightarrow> [any_datagram c [i]] | Some pi \<Rightarrow> [accept_datagram r' pi]))"
proof -
  let ?k = "GET_PRO_INDEX i"
  let ?r = "proposer_array st ?k"
  let ?r1 = "with_promise a (P a) ?r"
  have len: "length (pr_promises ?r) = 3" and cnt: "pr_promise_count ?r = int (card S)" using r by (simp_all add: recovering_def)
  have "counts ?r (int a) (P a)" using r a P by (simp add: counts_def recovering_def no_promise_def)
  have "S \<subseteq> {..<3}" using S by auto
  note cases = handle_promise_cases [of "int a" st ?k "P a", unfolded len cnt q nat_int third_acceptor(2) [OF this a]]
  have step: "leader_step (Promises (int a) [P a]) st
      = map_option (\<lambda>(ret, st1). execute_phase2 i i st1) (handle_promise (P a) (int a) ?k st)"
    by (simp add: leader_handle_promise_msg_def P(1) split: option.split prod.split)
  have sent: "lead_sent (execute_phase2 i i s) = lead_sent s @ phase2_sends (proposer_array s) [i]" for s
    using execute_phase2_sends [of i i s] by (simp add: upto.simps)
  note r1 = recovering_with_promise [OF r a S]
  show ?thesis
  proof (cases "card S < 2")
    case True
    let ?s = "set_record ?k ?r1 st"
    have "handle_promise (P a) (int a) ?k st = Some (0, ?s)"
      using cases \<open>counts ?r (int a) (P a)\<close> a(1) True by simp
    then have st': "leader_step (Promises (int a) [P a]) st = Some (execute_phase2 i i ?s)" using step by simp
    have arr: "proposer_array ?s ?k = ?r1" "lead_sent ?s = lead_sent st" "lead_quorum ?s = 3" using q by (simp_all add: set_record_def)
    then have "proposer_array (execute_phase2 i i ?s) ?k = ?r1"
      using r1(1) by (simp add: execute_phase2_array finish_def recovering_def)
    then show ?thesis
      using True st' arr r1(1) sent [of ?s] phase2_sends_waiting [of "proposer_array ?s" i] by (simp add: frame recovering_def)
  next
    case False
    let ?r2 = "?r1\<lparr>pr_status := p1_ready\<rparr>"
    let ?s = "promote_ready ?r1 (set_record ?k ?r2 st)"
    have "a \<in> {0, 1, 2}" using a(1) by auto
    then have "S \<subset> {0, 1, 2}" using S a(2) by blast
    then have "card S < card {0, 1, 2 :: nat}" by (intro psubset_card_mono) simp_all
    then have "card S = 2" using False by simp
    have "handle_promise (P a) (int a) ?k st = Some (1, ?s)"
      using cases \<open>counts ?r (int a) (P a)\<close> a(1) False by simp
    then have st': "leader_step (Promises (int a) [P a]) st = Some (execute_phase2 i i ?s)" using step by simp
    have arr: "proposer_array ?s ?k = ?r2" "lead_sent ?s = lead_sent st" "lead_quorum ?s = 3"
      using q by (simp_all add: set_record_def promote_ready_def widen_check_def Let_def)
    then have r2: "recovered c P i (proposer_array ?s ?k)" using r1(2) [OF \<open>card S = 2\<close>] by simp
    note phase2_sends_one [of c P i "proposer_array ?s", OF r2 c]
    then have "lead_sent (execute_phase2 i i ?s) = lead_sent st
        @ (case phase2_value (proposer_array ?s ?k) of None \<Rightarrow> [any_datagram c [i]]
            | Some pi \<Rightarrow> [accept_datagram (proposer_array ?s ?k) pi])"
      using sent [of ?s] arr(2) by simp
    moreover have "lead_quorum (execute_phase2 i i ?s) = 3" using arr(3) by (simp only: frame)
    ultimately have "leader_step (Promises (int a) [P a]) st = Some (execute_phase2 i i ?s) \<and> lead_quorum (execute_phase2 i i ?s) = 3
        \<and> (\<exists>r'. recovered c P i r' \<and> lead_sent (execute_phase2 i i ?s) = lead_sent st
          @ (case phase2_value r' of None \<Rightarrow> [any_datagram c [i]] | Some pi \<Rightarrow> [accept_datagram r' pi]))"
      using st' r2 by blast
    then show ?thesis unfolding if_not_P [OF False] by blast
  qed
qed

lemma recovery_promises:
  assumes r: "recovering c {} P i (proposer_array st (GET_PRO_INDEX i))" and q: "lead_quorum st = 3" and c: "0 \<le> c"
    and as: "distinct [a0, a1, a2]" and lt: "a0 < 3" "a1 < 3" "a2 < 3"
    and P: "\<And>a. a < 3 \<Longrightarrow> prm_iid (P a) = i" "\<And>a. a < 3 \<Longrightarrow> prm_ballot (P a) = c"
  shows "\<exists>st' r'. ofold leader_step (map (\<lambda>a. Promises (int a) [P a]) [a0, a1, a2]) st = Some st' \<and> recovered c P i r'
    \<and> lead_sent st' = lead_sent st
        @ (case phase2_value r' of None \<Rightarrow> [any_datagram c [i]] | Some pi \<Rightarrow> [accept_datagram r' pi])"
proof -
  have mem: "a0 \<in> {0, 1, 2}" "a1 \<in> {0, 1, 2}" "a2 \<in> {0, 1, 2}" using lt by auto
  obtain l1 where l1: "leader_step (Promises (int a0) [P a0]) st = Some l1" "lead_quorum l1 = 3"
    "recovering c {a0} P i (proposer_array l1 (GET_PRO_INDEX i))" "lead_sent l1 = lead_sent st"
    using recovery_promise_step [OF r lt(1) _ _ P(1,2) [OF lt(1)] q c] by auto
  obtain l2 where l2: "leader_step (Promises (int a1) [P a1]) l1 = Some l2" "lead_quorum l2 = 3"
    "recovering c {a1, a0} P i (proposer_array l2 (GET_PRO_INDEX i))" "lead_sent l2 = lead_sent l1"
    using recovery_promise_step [OF l1(3) lt(2) _ _ P(1,2) [OF lt(2)] l1(2) c] as mem by auto
  have "card {a1, a0} = 2" using as by simp
  then obtain l3 r' where l3: "leader_step (Promises (int a2) [P a2]) l2 = Some l3" "recovered c P i r'"
    "lead_sent l3 = lead_sent l2 @ (case phase2_value r' of None \<Rightarrow> [any_datagram c [i]] | Some pi \<Rightarrow> [accept_datagram r' pi])"
    using recovery_promise_step [OF l2(3) lt(3) _ _ P(1,2) [OF lt(3)] l2(2) c] as mem by auto
  show ?thesis using l1 l2 l3 by auto
qed

text \<open>The accept of the leader: the value of the highest ballot among the promises.\<close>

definition recovery_accept_msg :: "int \<Rightarrow> int \<Rightarrow> promise_msg \<Rightarrow> accept_msg" where
  "recovery_accept_msg i c p = \<lparr>acm_iid = i, acm_ballot = c, acm_value_size = prm_value_size p,
     acm_proposer_id = VALUE_OWNER (prm_value_ballot p), acm_value = prm_value p\<rparr>"

lemma recovered_value:
  assumes r: "recovered c P i r" and P: "\<And>a. a < 3 \<Longrightarrow> prm_iid (P a) = i" "\<And>a. a < 3 \<Longrightarrow> prm_value_size (P a) = int (length (prm_value (P a)))"
    and i: "0 \<le> i" and some: "b < 3" "-1 < prm_value_ballot (P b)"
  shows "\<exists>pi a. phase2_value r = Some pi \<and> a < 3 \<and> -1 < prm_value_ballot (P a)
    \<and> (\<forall>a'<3. prm_value_ballot (P a') \<le> prm_value_ballot (P a))
    \<and> accept_datagram r pi = (Acceptors_Net, int (length (encode_packet (Accept (recovery_accept_msg i c (P a))))),
        Accept (recovery_accept_msg i c (P a)))"
proof -
  let ?q = "\<lambda>a. store_promise (P a) no_promise"
  have q: "pi_iid (?q a) = i" "pi_value_ballot (?q a) = prm_value_ballot (P a)" if "a < 3" for a
    using P(1) [OF that] by (simp_all add: store_promise_def Let_def)
  then have rep: "reports (?q a) \<longleftrightarrow> -1 < prm_value_ballot (P a)" if "a < 3" for a using i that by (simp add: reports_def)
  have ps: "set (pr_promises r) = ?q ` {..<3}"
    using r unfolding recovered_def set_conv_nth by (auto simp: image_iff) (metis lessThan_iff)+
  then have "phase2_value r \<noteq> None" using some rep [OF some(1)] by (auto simp: phase2_value_None)
  then obtain pi where pi: "phase2_value r = Some pi" by blast
  note v = phase2_value_Some [OF pi]
  then obtain a where a: "a < 3" "pi = ?q a" using ps by auto
  have "-1 < prm_value_ballot (P a)" using v rep [OF a(1)] a(2) by simp
  moreover have "prm_value_ballot (P a') \<le> prm_value_ballot (P a)" if "a' < 3" for a'
  proof (cases "-1 < prm_value_ballot (P a')")
    case True
    then have "?q a' \<in> set (pr_promises r)" "reports (?q a')" using that ps rep [OF that] by auto
    then have "pi_value_ballot (?q a') \<le> pi_value_ballot pi" using v by blast
    then show ?thesis using a q(2) that by simp
  qed (use calculation in simp)
  moreover have "accept_datagram r pi = (Acceptors_Net, int (length (encode_packet (Accept (recovery_accept_msg i c (P a))))),
      Accept (recovery_accept_msg i c (P a)))"
    unfolding size_Accept
    using r calculation(1) P(2) [OF a(1)]
    by (simp add: a(2) accept_datagram_def accept_of_def recovery_accept_msg_def recovered_def store_promise_def Let_def c_simps)
  ultimately show ?thesis using pi a(1) by blast
qed

section \<open>The round\<close>

text \<open>The message proposes a value of the highest ballot recorded by the acceptors.\<close>

definition highest_value :: "'s acc_env \<Rightarrow> (int \<Rightarrow> 's acceptor) \<Rightarrow> accept_msg \<Rightarrow> bool" where
  "highest_value env A m \<longleftrightarrow> (\<exists>a\<in>acceptor_ids. \<exists>f. known env (A a) (acm_iid m) = Some f \<and> 0 \<le> fl_value_ballot f
     \<and> acm_value m = fl_value f \<and> acm_proposer_id m = VALUE_OWNER (fl_value_ballot f)
     \<and> (\<forall>a'\<in>acceptor_ids. case known env (A a') (acm_iid m) of None \<Rightarrow> True
          | Some f' \<Rightarrow> fl_value_ballot f' \<le> fl_value_ballot f))"

definition acceptors_below :: "'s acc_env \<Rightarrow> (int \<Rightarrow> 's acceptor) \<Rightarrow> int \<Rightarrow> int \<Rightarrow> bool" where
  "acceptors_below env A i c \<longleftrightarrow> (\<forall>a\<in>acceptor_ids. acc_inv env (A a) \<and> acceptor_id (A a) = a \<and> below env (A a) i c)"

lemma acceptor_ids_nat: "a < 3 \<Longrightarrow> int a \<in> acceptor_ids"
  by (simp add: acceptor_ids_def c_simps)

lemma acceptor_ids_cases: "a \<in> acceptor_ids \<Longrightarrow> \<exists>n<3. a = int n"
  by (intro exI [of _ "nat a"]) (auto simp: acceptor_ids_def c_simps)

lemma recovery_value_ballot:
  "prm_value_ballot (recovery_promise i c F) = (case F of None \<Rightarrow> -1 | Some f \<Rightarrow> fl_value_ballot f)"
  "prm_value (recovery_promise i c F) = (case F of None \<Rightarrow> [] | Some f \<Rightarrow> fl_value f)"
  by (simp_all add: recovery_promise_def empty_promise_def promise_of_flat_def split: option.split)

lemma recovery_accept_ok:
  assumes "acc_inv env st" and "valid_iid i" and "in_i32 c"
  shows "accept_msg_ok (recovery_accept_msg i c (recovery_promise i c (known env st i)))"
  using recovery_promise_fields(3,4) [OF assms(1), of i c] assms(2,3) VALUE_OWNER_range in_i32_valid [OF assms(2)]
  by (simp add: accept_msg_ok_def wf_accept_def recovery_accept_msg_def in_i32_def c_simps)

lemma recovery_highest:
  assumes a: "a < 3" "-1 < prm_value_ballot (P a)" "\<forall>a'<3. prm_value_ballot (P a') \<le> prm_value_ballot (P a)"
    and P: "\<And>a. P a = recovery_promise i c (known env (A (int a)) i)"
  shows "highest_value env A (recovery_accept_msg i c (P a))"
proof -
  obtain f where f: "known env (A (int a)) i = Some f" using a(2) by (auto simp: P recovery_value_ballot split: option.splits)
  have "case known env (A a') i of None \<Rightarrow> True | Some f' \<Rightarrow> fl_value_ballot f' \<le> fl_value_ballot f" if "a' \<in> acceptor_ids" for a'
    using acceptor_ids_cases [OF that] a(3) f by (auto simp: P recovery_value_ballot split: option.split)
  then show ?thesis
    using acceptor_ids_nat [OF a(1)] a(2) f
    by (auto simp: highest_value_def recovery_accept_msg_def P recovery_value_ballot intro!: bexI [of _ "int a"])
qed

text \<open>The learner, which heard only lower ballots of the instance.\<close>

lemma recovery_learned:
  assumes ok: "\<forall>l\<in>set ms. learn_ok l" and low: "\<forall>l\<in>set ms. lm_iid l = acm_iid m \<longrightarrow> lm_ballot l < acm_ballot m"
    and i: "highest_delivered (learner_run ms) + 1 = acm_iid m" "acm_iid m \<le> 2147483135"
    and as: "distinct [a0, a1, a2]" and lt: "a0 < 3" "a1 < 3" "a2 < 3" and m: "accept_msg_ok m"
  shows "\<exists>ds. delivered (learner_run (ms @ map (\<lambda>a. learn_of_accept (int a) m) [a0, a1, a2]))
    = delivered (learner_run ms) @ delivery_of m # ds"
proof -
  have "voted (acm_ballot m) {} (acm_iid m) (learner_run ms)"
    using learner_run_ok [OF ok] i low by (intro voted_start)
  note votes = this vote_of_accept [of _ m] wf_learn_of_accept [of m]
  have "wf_accept m" using m by (simp add: accept_msg_ok_def)
  note wf = votes(3) [OF this]
  from three_votes [OF votes(1) as votes(2) [OF lt(1)] votes(2) [OF lt(2)] votes(2) [OF lt(3)] wf [OF lt(1)] wf [OF lt(2)] wf [OF lt(3)]]
  show ?thesis unfolding learner_run_def delivery_of_learn_accept fold_append comp_def list.map .
qed

lemma recovery_leader:
  assumes inv: "leader_inv lid n L" and b: "in_bounds lid (Suc n)"
    and stuck: "lead_current_iid L = i" "p2_current_iid L = i" "pr_iid (proposer_array L (GET_PRO_INDEX i)) = i"
    and c: "c = BALLOT_NEXT (pr_ballot (proposer_array L (GET_PRO_INDEX i)))"
  shows "\<exists>L1. phase2_check_cb L = Some L1 \<and> lead_sent L1 = lead_sent L @ [prep_datagram [\<lparr>pm_iid = i, pm_ballot = c\<rparr>]]
    \<and> recovering c {} P i (proposer_array L1 (GET_PRO_INDEX i)) \<and> lead_quorum L1 = 3
    \<and> valid_iid i \<and> 0 \<le> i \<and> i \<le> 2147483135 \<and> in_i32 c \<and> min_ballot \<le> c"
proof -
  let ?k = "GET_PRO_INDEX i"
  let ?r = "proposer_array L ?k"
  let ?r1 = "clear_promises (?r\<lparr>pr_ballot := c, pr_status := p1_pending\<rparr>)"
  obtain L1 where L1: "phase2_check_cb L = Some L1" "leader_inv lid (Suc n) L1"
    "lead_sent L1 = lead_sent L @ [prep_datagram [\<lparr>pm_iid = i, pm_ballot = c\<rparr>]]"
    "proposer_array L1 = (proposer_array L)(?k := ?r1)"
    using phase2_check_restarts [OF inv b stuck(2,1,3)] unfolding c by blast
  have "slot_ok lid (Suc n) ?k (proposer_array L1 ?k)" using L1(2) by (simp add: leader_inv_def leader_core_def slots_inv_def)
  then have "slot_ok lid (Suc n) ?k ?r1" by (simp add: L1(4))
  then have s: "0 \<le> i" "i \<le> 51 * int (Suc n) + 50" "owned lid (Suc n) c"
    using stuck(3) by (simp_all add: slot_ok_def clear_promises_def)
  have "i \<le> 2147483135" using s(2) b by (simp add: in_bounds_def)
  moreover have "in_i32 c" "min_ballot \<le> c"
    using owned_range [OF s(3) b] by (simp_all add: in_i32_def min_ballot_def c_simps)
  moreover have "lead_quorum L1 = 3" using L1(2) by (simp add: leader_inv_def leader_core_def)
  moreover have "recovering c {} P i (proposer_array L1 ?k)" using recovering_start [OF stuck(3)] by (simp add: L1(4))
  ultimately show ?thesis using L1(1,3) s(1) by (auto simp: valid_iid_def)
qed

text \<open>C3. Recovery of an instance without progress: from any reachable state of the leader in which
  the instance the learner waits for was also the next one at the previous tick, and whatever the
  acceptors have recorded for it below the leader's next ballot, one round decides it. The tick sends
  one prepare, every acceptor answers it with the one promise its record calls for, the third promise
  in any order makes the leader send one accept with a value of the highest ballot recorded (so that a
  value all acceptors hold is proposed again), every acceptor accepts and reports it, and a learner that heard only lower ballots delivers it next.\<close>

theorem recovery_completes:
  assumes env: "env_ok env"
    and L: "leader_reach lid n L" "in_bounds lid (Suc n)"
    and stuck: "lead_current_iid L = i" "p2_current_iid L = i" "pr_iid (proposer_array L (GET_PRO_INDEX i)) = i"
    and c: "c = BALLOT_NEXT (pr_ballot (proposer_array L (GET_PRO_INDEX i)))"
    and A: "acceptors_below env A i c"
    and some: "b \<in> acceptor_ids" "known env (A b) i = Some f" "0 \<le> fl_value_ballot f"
    and ms: "\<forall>l\<in>set ms. learn_ok l" "\<forall>l\<in>set ms. lm_iid l = i \<longrightarrow> lm_ballot l < c" "highest_delivered (learner_run ms) + 1 = i"
    and order: "distinct [a0, a1, a2]" "a0 < 3" "a1 < 3" "a2 < 3"
  defines "P \<equiv> \<lambda>a :: nat. recovery_promise i c (known env (A (int a)) i)"
  shows "\<exists>L1 L2 m. phase2_check_cb L = Some L1
    \<and> lead_sent L1 = lead_sent L @ [prep_datagram [\<lparr>pm_iid = i, pm_ballot = c\<rparr>]]
    \<and> ofold leader_step (map (\<lambda>a. Promises (int a) [P a]) [a0, a1, a2]) L1 = Some L2
    \<and> lead_sent L2 = lead_sent L1 @ [(Acceptors_Net, int (length (encode_packet (Accept m))), Accept m)]
    \<and> acm_iid m = i \<and> acm_ballot m = c \<and> highest_value env A m
    \<and> (\<forall>a\<in>acceptor_ids. \<exists>s t. acceptor_run env [Prepare_Batch [\<lparr>pm_iid = i, pm_ballot = c\<rparr>]] (A a) = Some s
        \<and> acc_sent s = acc_sent (A a) @ [promise_batch a [P (nat a)]]
        \<and> acceptor_run env [Accept m] s = Some t \<and> acc_sent t = acc_sent s @ [learn_datagram (learn_of_accept a m)])
    \<and> (\<exists>ds. delivered (learner_run (ms @ map (\<lambda>a. learn_of_accept (int a) m) [a0, a1, a2]))
        = delivered (learner_run ms) @ delivery_of m # ds)"
proof -
  have "in_bounds lid n" using L(2) by (simp add: in_bounds_def)
  from recovery_leader [OF leader_reach_inv [OF L(1) this] L(2) stuck c, of P] obtain L1 where
    L1: "phase2_check_cb L = Some L1" "lead_sent L1 = lead_sent L @ [prep_datagram [\<lparr>pm_iid = i, pm_ballot = c\<rparr>]]"
      "recovering c {} P i (proposer_array L1 (GET_PRO_INDEX i))" "lead_quorum L1 = 3"
    and rng: "valid_iid i" "0 \<le> i" "i \<le> 2147483135" "in_i32 c" "min_ballot \<le> c" by blast
  have c0: "0 \<le> c" using rng(5) by (simp add: min_ballot_def c_simps)
  have inv: "acc_inv env (A a)" "acceptor_id (A a) = a" "below env (A a) i c" if "a \<in> acceptor_ids" for a
    using A that by (simp_all add: acceptors_below_def)
  have P: "prm_iid (P a) = i" "prm_ballot (P a) = c" "prm_value_size (P a) = int (length (prm_value (P a)))" if "a < 3" for a
    using recovery_promise_fields [OF inv(1) [OF acceptor_ids_nat [OF that]], of i c] by (simp_all add: P_def)
  obtain L2 r' where L2: "ofold leader_step (map (\<lambda>a. Promises (int a) [P a]) [a0, a1, a2]) L1 = Some L2" "recovered c P i r'"
    "lead_sent L2 = lead_sent L1 @ (case phase2_value r' of None \<Rightarrow> [any_datagram c [i]] | Some pi \<Rightarrow> [accept_datagram r' pi])"
    using recovery_promises [OF L1(3,4) c0 order P(1,2)] by blast
  obtain b' where b': "b' < 3" "b = int b'" using acceptor_ids_cases [OF some(1)] by blast
  have "-1 < prm_value_ballot (P b')" using some(2,3) by (simp add: P_def b'(2) recovery_value_ballot)
  from recovered_value [OF L2(2) P(1,3) rng(2) b'(1) this] obtain pi a where
    v: "phase2_value r' = Some pi" "a < 3" "-1 < prm_value_ballot (P a)" "\<forall>a'<3. prm_value_ballot (P a') \<le> prm_value_ballot (P a)"
      "accept_datagram r' pi = (Acceptors_Net, int (length (encode_packet (Accept (recovery_accept_msg i c (P a))))),
        Accept (recovery_accept_msg i c (P a)))" by blast
  let ?m = "recovery_accept_msg i c (P a)"
  have m: "acm_iid ?m = i" "acm_ballot ?m = c" by (simp_all add: recovery_accept_msg_def)
  have ok: "accept_msg_ok ?m"
    using recovery_accept_ok [OF inv(1) [OF acceptor_ids_nat [OF v(2)]] rng(1,4)] by (simp add: P_def)
  have hi: "highest_value env A ?m" by (rule recovery_highest [OF v(2-4)]) (simp add: P_def)
  have acc: "\<exists>s t. acceptor_run env [Prepare_Batch [\<lparr>pm_iid = i, pm_ballot = c\<rparr>]] (A a) = Some s
      \<and> acc_sent s = acc_sent (A a) @ [promise_batch a [P (nat a)]]
      \<and> acceptor_run env [Accept ?m] s = Some t \<and> acc_sent t = acc_sent s @ [learn_datagram (learn_of_accept a ?m)]"
    if a: "a \<in> acceptor_ids" for a
  proof -
    have "int (nat a) = a" using acceptor_ids_cases [OF a] by auto
    then have eq: "P (nat a) = recovery_promise i c (known env (A a) i)" by (simp add: P_def)
    obtain s f' where s: "acceptor_run env [Prepare_Batch [\<lparr>pm_iid = i, pm_ballot = c\<rparr>]] (A a) = Some s" "acc_inv env s"
      "acceptor_id s = a" "known env s i = Some f'" "fl_ballot f' = c"
      "acc_sent s = acc_sent (A a) @ [promise_batch a [P (nat a)]]"
      using recovery_prepare [OF inv(1) [OF a] env rng(1) c0 rng(4) inv(3) [OF a]]
      unfolding inv(2) [OF a] eq [symmetric] by blast
    from recovery_accept [OF s(2) env ok, unfolded m, OF rng(5) s(4)] s(3,5) show ?thesis using s(1,6) by auto
  qed
  have "\<exists>ds. delivered (learner_run (ms @ map (\<lambda>a. learn_of_accept (int a) ?m) [a0, a1, a2]))
      = delivered (learner_run ms) @ delivery_of ?m # ds"
    by (rule recovery_learned [OF ms(1) _ _ _ order ok]) (use ms(2,3) rng(3) m in simp_all)
  then show ?thesis using L1(1,2) L2(1,3) v(1,5) m hi acc by (intro exI [of _ L1] exI [of _ L2] exI [of _ ?m]) simp
qed

text \<open>Acceptors 0 and 1 accepted one value, acceptor 2 another at a higher ballot; its value wins.\<close>

definition wit_low :: "int \<Rightarrow> accept_msg" where
  "wit_low a = \<lparr>acm_iid = 0, acm_ballot = 20 + a, acm_value_size = 1, acm_proposer_id = 0, acm_value = [word_of_int a]\<rparr>"

definition wit_acceptors :: "int \<Rightarrow> (32 word \<Rightarrow> flat_record option) acceptor" where
  "wit_acceptors a = snd (handle_accept wit_env (wit_low a) (acceptor_init a (\<lambda>_. None)))"

lemma wit_acceptors_out:
  assumes "a \<in> acceptor_ids"
  shows "acc_inv wit_env (wit_acceptors a) \<and> acceptor_id (wit_acceptors a) = a
    \<and> known wit_env (wit_acceptors a) 0 = Some (accept_flat (wit_low a))"
proof -
  let ?st = "acceptor_init a (\<lambda>_. None) :: (32 word \<Rightarrow> flat_record option) acceptor"
  have a: "0 \<le> a" "a < 3" using assms by (simp_all add: acceptor_ids_def c_simps)
  have m: "accept_msg_ok (wit_low a)" "acm_iid (wit_low a) = 0"
    using a by (simp_all add: wit_low_def accept_msg_ok_def valid_iid_def wf_accept_def in_i32_def c_simps)
  have inv: "acc_inv wit_env ?st" using a by (intro acc_inv_init [OF wit_empty]) (simp add: in_i32_def)
  have "known wit_env ?st 0 = None"
    using wit_empty by (simp add: known_def empty_db_def acceptor_init_def)
  then have "accept_ok (sees_any wit_env ?st (acm_iid (wit_low a))) (wit_low a) (known wit_env ?st)"
    using a m(2) by (simp add: accept_ok_def wit_low_def min_ballot_def c_simps)
  with handle_accept_out [OF inv wit_env_ok m(1)] show ?thesis
    by (simp add: wit_acceptors_def accepts_def m(2) acceptor_init_def)
qed

theorem recovery_completes_witness:
  "\<exists>m. highest_value wit_env wit_acceptors m \<and> acm_iid m = 0 \<and> acm_ballot m = 31
    \<and> delivery_of m \<in> set (delivered (learner_run (map (\<lambda>a. learn_of_accept (int a) m) [1, 2, 0])))"
proof -
  let ?L = "snd (leader_init 1 leader_static)"
  have b: "in_bounds 1 0" "in_bounds 1 (Suc 0)" by (simp_all add: in_bounds_def c_simps)
  note slot0 = leader_init_slot0 [OF b(1)]
  have k: "GET_PRO_INDEX 0 = 0" by (simp add: GET_PRO_INDEX_mod)
  have iid: "pr_iid (proposer_array ?L (GET_PRO_INDEX 0)) = 0"
    and c: "31 = BALLOT_NEXT (pr_ballot (proposer_array ?L (GET_PRO_INDEX 0)))"
    unfolding k slot0(1) by (simp_all add: opened_def clear_promises_def BALLOT_NEXT_def c_simps)
  have A: "acceptors_below wit_env wit_acceptors 0 31"
    using wit_acceptors_out
    by (auto simp: acceptors_below_def below_def accept_flat_def wit_low_def acceptor_ids_def c_simps)
  have two: "2 \<in> acceptor_ids" "known wit_env (wit_acceptors 2) 0 = Some (accept_flat (wit_low 2))" "0 \<le> fl_value_ballot (accept_flat (wit_low 2))"
    using wit_acceptors_out [of 2] by (simp_all add: acceptor_ids_def accept_flat_def wit_low_def c_simps)
  have none: "\<forall>l\<in>set []. learn_ok l" "\<forall>l\<in>set []. lm_iid l = 0 \<longrightarrow> lm_ballot l < 31" "highest_delivered (learner_run []) + 1 = 0"
    by (simp_all add: learner_run_def learner_start_def)
  have order: "distinct [1, 2, 0 :: nat]" "1 < (3::nat)" "2 < (3::nat)" "0 < (3::nat)" by simp_all
  from recovery_completes [OF wit_env_ok leader_reach.init b(2) slot0(3,4) iid c A two none order]
  obtain m ds where "acm_iid m = 0" "acm_ballot m = 31" "highest_value wit_env wit_acceptors m"
    "delivered (learner_run (map (\<lambda>a. learn_of_accept (int a) m) [1, 2, 0])) = delivered (learner_run []) @ delivery_of m # ds"
    by auto
  then show ?thesis by (intro exI [of _ m]) simp
qed

end
