(* ===== verification/Proposer_Values.thy ===== *)
theory Proposer_Values
  imports Proposer_Properties
begin

text \<open>
  One value per instance: a proposer with no callback inside a submission never
  sends two different accepts for one instance. Its ballot has its id in it, so that a ballot of an
  instance stands for one accept in the whole system.
\<close>

section \<open>Runs without the race\<close>

text \<open>
  The runs in which no callback runs between the critical section of a submission and its send; a
  submission is two steps of \<open>proposer_step\<close>. \<open>V\<close> holds the values submitted.
\<close>

inductive calm_reach :: "int \<Rightarrow> nat \<Rightarrow> byte list set \<Rightarrow> client_pc \<times> proposer \<Rightarrow> bool" for pid where
  start: "proposer_init 0 sock pid lead proposer_static = (0, st) \<Longrightarrow> calm_reach pid 0 {} (Outside, st)"
| submit: "calm_reach pid n V (Outside, st) \<Longrightarrow> \<not> submit_too_big v \<Longrightarrow>
    calm_reach pid (Suc (Suc n)) (insert v V) (Blocked v, submit_send v (submit_lock st))"
| wake: "calm_reach pid n V (Blocked v, st) \<Longrightarrow> \<not> client_waiting st \<Longrightarrow> calm_reach pid (Suc n) V (Outside, st)"
| deliver: "calm_reach pid n V (pc, st) \<Longrightarrow> proposer_deliver_callback d st = Some st' \<Longrightarrow>
    calm_reach pid (Suc n) V (pc, st')"
| timer: "calm_reach pid n V (pc, st) \<Longrightarrow> k < length (prop_timers st) \<Longrightarrow>
    calm_reach pid (Suc n) V (pc, proposer_check_timeout k st)"

lemma calm_reach_steps: "calm_reach pid n V s \<Longrightarrow> proposer_reach pid n s"
proof (induction rule: calm_reach.induct)
  case (submit n V st v)
  from proposer_reach.step [OF submit.IH proposer_step.lock [OF submit.hyps(2)]]
  have "proposer_reach pid (Suc n) (Filling v 0, submit_lock st)" .
  from reach_submit_send [OF this] show ?case .
qed (blast intro: proposer_reach.intros proposer_step.intros)+

section \<open>What was sent\<close>

text \<open>The accepts that an acceptor can read off the wire.\<close>

definition sent_accepts :: "proposer \<Rightarrow> accept_msg set" where
  "sent_accepts st = {m. wf_packet (Accept m) \<and> encode_packet (Accept m) \<in> set (prop_wire st)}"

lemma encode_accept_inj: "encode_packet (Accept m) = encode_packet (Accept m') \<Longrightarrow> wf_packet (Accept m) \<Longrightarrow> wf_packet (Accept m') \<Longrightarrow> m = m'"
  using rd_packet_encode [of "Accept m" "[]"] rd_packet_encode [of "Accept m'" "[]"] by simp

lemma sent_accepts_snoc:
  "prop_wire t = prop_wire st @ [encode_packet (Accept m)] \<Longrightarrow> wf_packet (Accept m) \<Longrightarrow>
   sent_accepts t = insert m (sent_accepts st)"
  by (auto simp: sent_accepts_def dest: encode_accept_inj)

text \<open>A buffer whose send is the accept in it.\<close>

definition ready_to_send :: "int \<Rightarrow> proposer \<Rightarrow> bool" where
  "ready_to_send pid st \<longleftrightarrow> 0 \<le> pid \<and> pid < MAX_PROPOSERS \<and> own_accept pid (amsg st) \<and> in_i32 (acm_iid (amsg st))
     \<and> buf_type st = PAXOS_ACCEPT \<and> buf_size st = 16 + acm_value_size (amsg st)
     \<and> prop_msg_size st = 24 + acm_value_size (amsg st) \<and> area_ok st"

lemma ready_send:
  assumes "ready_to_send pid st"
  shows "prop_wire (send_proposer_buffer st) = prop_wire st @ [encode_packet (Accept (amsg st))]"
    and "wf_packet (Accept (amsg st))"
proof -
  have b: "buffer_ok pid st" and g: "good_id pid 0"
    using assms by (auto simp: ready_to_send_def buffer_ok_def good_id_def own_accept_def c_simps)
  have pos: "prop_msg_size st \<noteq> 0" "buf_size st + 8 = prop_msg_size st"
    using assms by (auto simp: ready_to_send_def own_accept_def)
  show "prop_wire (send_proposer_buffer st) = prop_wire st @ [encode_packet (Accept (amsg st))]"
    using buffer_encoded(1) [OF b pos] by (simp add: send_proposer_buffer_def)
  have "wf_accept (amsg st)" using assms by (intro own_accept_wf [of pid]) (simp_all add: ready_to_send_def)
  then show "wf_packet (Accept (amsg st))"
    using assms by (simp add: wf_packet_def size_Accept ready_to_send_def own_accept_def c_simps)
qed

lemma ready_cong:
  "ready_to_send pid st \<Longrightarrow> amsg t = (amsg st)\<lparr>acm_iid := i\<rparr> \<Longrightarrow> in_i32 i \<Longrightarrow> buf_type t = buf_type st \<Longrightarrow>
   buf_size t = buf_size st \<Longrightarrow> prop_msg_size t = prop_msg_size st \<Longrightarrow> value_rest t = value_rest st \<Longrightarrow> ready_to_send pid t"
  by (simp add: ready_to_send_def own_accept_def area_ok_def)

lemma settled_ready:
  assumes inv: "identity_inv pid (pc, st)" and g: "good_id pid n" and "settled st" "prop_msg_size st \<noteq> 0"
  shows "ready_to_send pid st"
proof -
  have "buffer_ok pid st" using inv by (simp add: identity_inv_def)
  then have "own_accept pid (amsg st)" "in_i32 (acm_iid (amsg st))" "buf_type st = PAXOS_ACCEPT" "area_ok st"
    using assms(4) unfolding buffer_ok_def by blast+
  then show ?thesis using assms(3,4) g by (simp add: ready_to_send_def settled_def good_id_def)
qed

lemma filled_ready:
  assumes inv: "identity_inv pid (pc, st)" and g: "good_id pid n" and v: "\<not> submit_too_big v"
  shows "ready_to_send pid (filled v st)"
proof -
  have id: "prop_proposer_id st = pid" "fixed_ballot st = MAX_PROPOSERS + pid" "area_ok st" "in_i32 (acm_iid (amsg st))"
    using inv by (simp_all add: identity_inv_def buffer_ok_def)
  then have "area_ok (filled v st)" using fits_area [OF v] by (simp add: area_ok_def filled_def)
  moreover have "own_accept pid (amsg (filled v st))"
    using id v by (simp add: own_accept_def filled_def submit_too_big_def)
  ultimately show ?thesis using id g by (simp add: ready_to_send_def good_id_def) (simp add: filled_def)
qed

text \<open>
  While the client waits, the buffer holds the only accept for the instance to be delivered next;
  everything else was sent for earlier instances.
\<close>

definition values_inv :: "int \<Rightarrow> byte list set \<Rightarrow> proposer \<Rightarrow> bool" where
  "values_inv pid V st \<longleftrightarrow> (\<forall>m\<in>sent_accepts st. \<forall>m'\<in>sent_accepts st. acm_iid m = acm_iid m' \<longrightarrow> m = m')
     \<and> (if client_waiting st
        then acm_iid (amsg st) = prop_current_iid st \<and> ready_to_send pid st \<and> acm_value (amsg st) \<in> V
          \<and> (\<forall>m\<in>sent_accepts st. acm_iid m < prop_current_iid st \<or> m = amsg st)
        else \<forall>m\<in>sent_accepts st. acm_iid m < prop_current_iid st)
     \<and> (\<forall>m\<in>sent_accepts st. acm_value m \<in> V)"

lemma values_cong:
  assumes "client_waiting t = client_waiting st" "prop_current_iid t = prop_current_iid st" "amsg t = amsg st"
    "prop_wire t = prop_wire st" "ready_to_send pid t = ready_to_send pid st"
  shows "values_inv pid V t = values_inv pid V st"
  using assms by (simp add: values_inv_def sent_accepts_def)

lemma values_quiet:
  assumes inv: "values_inv pid V st" and w: "\<not> client_waiting t"
    and t: "prop_current_iid t = prop_current_iid st + 1" "prop_wire t = prop_wire st"
  shows "values_inv pid V t"
proof -
  have "sent_accepts t = sent_accepts st" using t(2) by (simp add: sent_accepts_def)
  moreover have "\<forall>m\<in>sent_accepts st. acm_iid m \<le> prop_current_iid st"
    using inv unfolding values_inv_def by (cases "client_waiting st") auto
  ultimately show ?thesis using inv w t(1) unfolding values_inv_def by auto
qed

lemma values_send:
  assumes inv: "values_inv pid V st" and V: "V \<subseteq> V'" and m: "acm_iid m = prop_current_iid t" "acm_value m \<in> V'"
    and old: "\<forall>m'\<in>sent_accepts st. acm_iid m' < prop_current_iid t \<or> m' = m"
    and t: "client_waiting t" "amsg t = m" "ready_to_send pid t" "prop_wire t = prop_wire st @ [encode_packet (Accept m)]"
      "wf_packet (Accept m)"
  shows "values_inv pid V' t"
proof -
  have s: "sent_accepts t = insert m (sent_accepts st)" by (rule sent_accepts_snoc [OF t(4,5)])
  have one: "\<forall>a\<in>sent_accepts st. \<forall>b\<in>sent_accepts st. acm_iid a = acm_iid b \<longrightarrow> a = b"
    and vals: "\<forall>a\<in>sent_accepts st. acm_value a \<in> V"
    using inv by (simp_all add: values_inv_def)
  have "\<forall>a\<in>sent_accepts t. \<forall>b\<in>sent_accepts t. acm_iid a = acm_iid b \<longrightarrow> a = b"
    unfolding s using one old m(1) by fastforce
  moreover have "\<forall>a\<in>sent_accepts t. acm_value a \<in> V'" unfolding s using vals V m(2) by blast
  moreover have "\<forall>a\<in>sent_accepts t. acm_iid a < prop_current_iid t \<or> a = m" unfolding s using old by blast
  ultimately show ?thesis using t m unfolding values_inv_def by simp
qed

lemma submit_sends:
  assumes id: "identity_inv pid (Outside, st)" "good_id pid n" and v: "\<not> submit_too_big v"
  defines "m \<equiv> amsg (filled v (submit_lock st))" and "t \<equiv> submit_send v (submit_lock st)"
  shows "prop_wire t = prop_wire st @ [encode_packet (Accept m)]" and "wf_packet (Accept m)"
    and "ready_to_send pid t" and "client_waiting t" "amsg t = m" "prop_current_iid t = prop_current_iid st"
proof -
  let ?s = "filled v (submit_lock st)"
  note lock = identity_lock [OF id(1) v]
  have r: "ready_to_send pid ?s" by (rule filled_ready [OF lock id(2) v])
  have "area_ok (submit_lock st)" using lock by (simp add: identity_inv_def buffer_ok_def)
  note t = submit_send_eq [OF this v]
  have s: "prop_wire ?s = prop_wire st" "client_waiting ?s" "prop_current_iid ?s = prop_current_iid st"
    by (simp_all add: filled_def submit_lock_def)
  show "client_waiting t" "amsg t = m" "prop_current_iid t = prop_current_iid st"
    using s by (simp_all add: t_def m_def t set_proposer_check_timeout_def send_proposer_buffer_def)
  show "prop_wire t = prop_wire st @ [encode_packet (Accept m)]"
    using ready_send(1) [OF r] s by (simp add: t_def m_def t set_proposer_check_timeout_def)
  show "wf_packet (Accept m)" unfolding m_def by (rule ready_send(2) [OF r])
  show "ready_to_send pid t"
    using r by (simp add: t_def t set_proposer_check_timeout_def send_proposer_buffer_def ready_to_send_def area_ok_def)
qed

lemma values_submit:
  assumes inv: "values_inv pid V st" and id: "identity_inv pid (Outside, st)" "good_id pid n" and v: "\<not> submit_too_big v"
  shows "values_inv pid (insert v V) (submit_send v (submit_lock st))"
proof (rule values_send [OF inv])
  let ?m = "amsg (filled v (submit_lock st))" and ?t = "submit_send v (submit_lock st)"
  note t = submit_sends [OF id v]
  show "acm_iid ?m = prop_current_iid ?t" by (simp add: t(6)) (simp add: filled_def submit_lock_def)
  have "\<not> client_waiting st" using id(1) by (simp add: identity_inv_def client_ok_def)
  then show "\<forall>m'\<in>sent_accepts st. acm_iid m' < prop_current_iid ?t \<or> m' = ?m"
    using inv t(6) by (simp add: values_inv_def)
  show "client_waiting ?t" "amsg ?t = ?m" "ready_to_send pid ?t"
    "prop_wire ?t = prop_wire st @ [encode_packet (Accept ?m)]" "wf_packet (Accept ?m)"
    by (rule t)+
qed (auto simp: filled_def)

lemma values_timer:
  assumes inv: "values_inv pid V st"
  shows "values_inv pid V (proposer_check_timeout k st)"
proof (cases "timer_current st (prop_timers st ! k)")
  case True
  let ?t = "proposer_check_timeout k st" and ?s = "st\<lparr>last_accept_hash := i32 (last_accept_hash st + 1)\<rparr>"
  have w: "client_waiting st" using True by (simp add: timer_current_def)
  then have st: "ready_to_send pid st" "acm_iid (amsg st) = prop_current_iid st" "acm_value (amsg st) \<in> V"
      "\<forall>m\<in>sent_accepts st. acm_iid m < prop_current_iid st \<or> m = amsg st"
    using inv by (simp_all add: values_inv_def)
  have r: "ready_to_send pid ?s" using st(1) by (simp add: ready_to_send_def area_ok_def)
  have t: "client_waiting ?t" "prop_current_iid ?t = prop_current_iid st" "amsg ?t = amsg st"
    "ready_to_send pid ?t = ready_to_send pid st" "prop_wire ?t = prop_wire (send_proposer_buffer ?s)"
    using True w
    by (simp_all add: proposer_check_timeout_def send_proposer_buffer_def ready_to_send_def area_ok_def Let_def)
  then show ?thesis
    using st ready_send [OF r] by (intro values_send [OF inv, of V "amsg st"]) simp_all
next
  case False
  let ?t = "proposer_check_timeout k st"
  have "values_inv pid V ?t = values_inv pid V st"
    using False by (intro values_cong) (simp_all add: proposer_check_timeout_def ready_to_send_def area_ok_def Let_def)
  then show ?thesis using inv by simp
qed

lemma values_deliver:
  assumes inv: "values_inv pid V st" and d: "proposer_deliver_callback d st = Some st'"
    and cur: "0 \<le> prop_current_iid st" "prop_current_iid st < 2147483647"
  shows "values_inv pid V st'"
proof -
  have i: "i32 (prop_current_iid st + 1) = prop_current_iid st + 1" using cur by simp
  consider "\<not> client_waiting st" "st' = after_lock d st"
    | "client_waiting st" "st' = (after_client d st)\<lparr>client_waiting := False\<rparr>"
    | "client_waiting st" "st' = send_for_next_instance (dl_iid d) (after_client d st)"
    using d by (auto simp: deliver_cases split: if_splits)
  then show ?thesis
  proof cases
    case 1
    then show ?thesis using i by (intro values_quiet [OF inv]) (simp_all add: frame)
  next
    case 2
    then show ?thesis using i by (intro values_quiet [OF inv]) (simp_all add: frame)
  next
    case 3
    let ?m = "(amsg st)\<lparr>acm_iid := prop_current_iid st + 1\<rparr>"
    let ?s = "(after_client d st)\<lparr>last_accept_iid := dl_iid d, last_accept_hash := i32 (last_accept_hash st + 1), amsg := ?m\<rparr>"
    have st: "ready_to_send pid st" "acm_value (amsg st) \<in> V" "acm_iid (amsg st) = prop_current_iid st"
        "\<forall>m\<in>sent_accepts st. acm_iid m < prop_current_iid st \<or> m = amsg st"
      using inv 3(1) by (simp_all add: values_inv_def)
    have r: "ready_to_send pid ?s"
      using cur by (intro ready_cong [OF st(1), of _ "prop_current_iid st + 1"]) (simp_all add: frame in_i32_def)
    have t: "client_waiting st'" "prop_current_iid st' = prop_current_iid st + 1" "amsg st' = ?m"
      "ready_to_send pid st' = ready_to_send pid ?s" "prop_wire st' = prop_wire (send_proposer_buffer ?s)"
      using 3 i
      by (simp_all add: send_for_next_instance_def set_proposer_check_timeout_def send_proposer_buffer_def
          proposer_send_buffer_def ready_to_send_def area_ok_def frame Let_def)
    show ?thesis
    proof (rule values_send [OF inv subset_refl, of ?m])
      show "\<forall>m'\<in>sent_accepts st. acm_iid m' < prop_current_iid st' \<or> m' = ?m" using st(3,4) t(2) by auto
      show "prop_wire st' = prop_wire st @ [encode_packet (Accept ?m)]" using ready_send(1) [OF r] t(5) by (simp add: frame)
      show "wf_packet (Accept ?m)" using ready_send(2) [OF r] by simp
    qed (use st r t in simp_all)
  qed
qed

lemma proposer_start_quiet:
  assumes "proposer_init 0 sock pid lead proposer_static = (0, st)"
  shows "\<not> client_waiting st" and "prop_wire st = []"
  using assms by (auto simp: proposer_init_def proposer_static_def Let_def split: if_splits prod.splits)

lemma calm_reach_values:
  assumes "calm_reach pid n V (pc, st)" and "good_id pid n"
  shows "values_inv pid V st"
  using assms
proof (induction n V "(pc, st)" arbitrary: pc st rule: calm_reach.induct)
  case (start sock lead st)
  then show ?case by (simp add: proposer_start_quiet values_inv_def sent_accepts_def)
next
  case (submit n V st v)
  then have g: "good_id pid n" by (simp add: good_id_def)
  then have "identity_inv pid (Outside, st)"
    using proposer_reach_inv [OF calm_reach_steps [OF submit.hyps(1)]] by simp
  then show ?case using submit.hyps(2,3) g values_submit by blast
next
  case (wake n V v st)
  then show ?case by (simp add: good_id_def)
next
  case (deliver n V pc st d st')
  then have g: "good_id pid n" by (simp add: good_id_def)
  then have "timers_inv n st" using proposer_reach_inv [OF calm_reach_steps [OF deliver.hyps(1)]] by simp
  then have "0 \<le> prop_current_iid st" "prop_current_iid st < 2147483647"
    using g by (simp_all add: timers_inv_def counters_inv_def good_id_def)
  then show ?case using values_deliver deliver.hyps g by blast
next
  case (timer n V pc st k)
  then have "good_id pid n" by (simp add: good_id_def)
  then show ?case using values_timer timer.hyps by blast
qed

end
