(* ===== verification/System_Agreement.thy ===== *)
theory System_Agreement
  imports Fast_Path Proposer_Values Learner_Votes
begin

text \<open>
  The whole system on the fast path: proposers, acceptors and learners run their own code, the network
  loses, repeats and reorders the accepts and the learns. What the agreement of \<open>Fast_Path\<close> asks of
  the proposers is proved of their code, as long as no callback runs inside a submission; when a delivery
  does, the agreement fails.
\<close>

definition proposer_ids :: "int set" where
  "proposer_ids = {0..<MAX_PROPOSERS}"

section \<open>The accepts of the proposers\<close>

text \<open>
  What the leader and the learners may send to an acceptor; \<open>op\<close> holds the opened instances. An instance
  is prepared only before it is opened, and opened once.
\<close>

fun prepared_then_opened :: "int list \<Rightarrow> packet list \<Rightarrow> bool" where
  "prepared_then_opened op [] = True"
| "prepared_then_opened op (Prepare_Batch ms # ps) =
     (list_all (\<lambda>m. first_round (pm_iid m) \<and> pm_iid m \<notin> set op) ms \<and> prepared_then_opened op ps)"
| "prepared_then_opened op (Anyval b ids # ps) =
     (distinct ids \<and> list_all (\<lambda>i. first_round i \<and> i \<notin> set op) ids \<and> prepared_then_opened (ids @ op) ps)"
| "prepared_then_opened op (Accept m # ps) = (first_round (acm_iid m) \<and> prepared_then_opened op ps)"
| "prepared_then_opened op (Lsync ids # ps) = (list_all first_round ids \<and> prepared_then_opened op ps)"
| "prepared_then_opened op (p # ps) = prepared_then_opened op ps"

lemma prepared_then_opened_fast:
  assumes "prepared_then_opened op ps" and "\<forall>m\<in>accepts_in ps. first_round (acm_iid m) \<longrightarrow> accept_msg_ok m \<and> acm_ballot m < min_ballot"
  shows "fast_trace op ps"
  using assms by (induction op ps rule: prepared_then_opened.induct) (simp_all add: accepts_in_def)

text \<open>The proposers of a run, by id, and everything they sent.\<close>

definition calm_proposers :: "(int \<Rightarrow> byte list set) \<Rightarrow> (int \<Rightarrow> proposer) \<Rightarrow> bool" where
  "calm_proposers V P \<longleftrightarrow> (\<forall>pid\<in>proposer_ids. \<exists>n pc. good_id pid n \<and> calm_reach pid n (V pid) (pc, P pid))"

definition sent_by :: "(int \<Rightarrow> proposer) \<Rightarrow> accept_msg set" where
  "sent_by P = (\<Union>pid\<in>proposer_ids. sent_accepts (P pid))"

lemma wire_own:
  assumes "proposer_reach pid n (pc, st)" and "good_id pid n"
    and w: "encode_packet (Accept m) \<in> set (prop_wire st)" "wf_packet (Accept m)"
  shows "own_accept pid m"
proof -
  let ?w = "encode_packet (Accept m)"
  have "list_all2 (proposer_datagram pid) (prop_sent st) (prop_wire st)"
    using proposer_reach_inv [OF assms(1,2)] by (simp add: identity_inv_def)
  then obtain d where "proposer_datagram pid d ?w" using w(1) by (metis in_set_conv_nth list_all2_nthD2)
  moreover have "size_matches ?w (int (length ?w))" using size_matches_encode [OF w(2), of "[]"] by simp
  moreover have "?w \<noteq> []" by (simp add: encode_packet_def le32_def)
  ultimately obtain m' where m': "own_accept pid m'" "?w = encode_packet (Accept m')" "wf_packet (Accept m')"
    by (auto simp: proposer_datagram_def datagram_ok_def)
  then show ?thesis using encode_accept_inj [OF m'(2) w(2) m'(3)] by simp
qed

lemma calm_sent:
  assumes "calm_proposers V P" and "m \<in> sent_accepts (P pid)" and "pid \<in> proposer_ids"
  shows "own_accept pid m" and "acm_value m \<in> V pid"
    and "m' \<in> sent_accepts (P pid) \<Longrightarrow> acm_iid m' = acm_iid m \<Longrightarrow> m' = m"
proof -
  obtain n pc where r: "good_id pid n" "calm_reach pid n (V pid) (pc, P pid)"
    using assms(1,3) by (auto simp: calm_proposers_def)
  have v: "values_inv pid (V pid) (P pid)" by (rule calm_reach_values [OF r(2,1)])
  have w: "encode_packet (Accept m) \<in> set (prop_wire (P pid))" "wf_packet (Accept m)"
    using assms(2) by (auto simp: sent_accepts_def)
  have "proposer_reach pid n (pc, P pid)" by (rule calm_reach_steps [OF r(2)])
  from wire_own [OF this r(1) w] show "own_accept pid m" .
  show "acm_value m \<in> V pid" using v assms(2) by (simp add: values_inv_def)
  show "m' = m" if "m' \<in> sent_accepts (P pid)" "acm_iid m' = acm_iid m"
    using v assms(2) that by (simp add: values_inv_def)
qed

lemma calm_one_per_ballot:
  assumes "calm_proposers V P"
  shows "one_per_ballot (sent_by P)"
  unfolding one_per_ballot_def
proof (intro ballI impI)
  fix m m' assume "m \<in> sent_by P" "m' \<in> sent_by P" and eq: "acm_iid m = acm_iid m' \<and> acm_ballot m = acm_ballot m'"
  then obtain p q where p: "p \<in> proposer_ids" "m \<in> sent_accepts (P p)" and q: "q \<in> proposer_ids" "m' \<in> sent_accepts (P q)"
    by (auto simp: sent_by_def)
  have "p = q" using calm_sent(1) [OF assms p(2,1)] calm_sent(1) [OF assms q(2,1)] eq by (simp add: own_accept_def)
  then show "m = m'" using calm_sent(3) [OF assms q(2,1), of m] p eq by simp
qed

lemma own_accept_fast:
  assumes "own_accept pid m" and "pid \<in> proposer_ids" and "first_round (acm_iid m)"
  shows "accept_msg_ok m \<and> acm_ballot m < min_ballot"
proof -
  have "wf_accept m"
    using assms by (intro own_accept_wf [of pid]) (simp_all add: proposer_ids_def first_round_def in_i32_def c_simps)
  then show ?thesis
    using assms by (simp add: accept_msg_ok_def own_accept_def proposer_ids_def first_round_def valid_iid_def
        min_ballot_def c_simps)
qed

section \<open>Agreement of the system\<close>

text \<open>C2. Agreement and validity on the fast path of the instances below \<^verbatim>\<open>ACCEPTOR_ARRAY_SIZE\<close>: the proposers
  are in states their code reaches from the return of \<^verbatim>\<open>proposer_init\<close> when no delivery and no timer runs inside a
  submission; each acceptor, fresh from its start, hears any of the accepts they put on the wire, repeated, reordered or not
  at all, mixed with prepares, any messages and sync requests, all for these instances, where an any message opens only instances
  that were not opened before, and no prepare is for an instance already opened; two learners hear any part of
  what the acceptors report, in any order and with any repetitions. Then no acceptor crashes, one learner's deliveries are a prefix of the other's, and
  every delivered value was submitted to the proposer that the delivery names and sent by it for that
  instance. None of the conditions on any messages, prepares and submissions can be dropped: theorems of
  this development show that each of a repeated any message, a prepare of an opened instance followed by
  sync replies, and a delivery inside a submission makes two learners deliver different values.\<close>

theorem system_agreement:
  assumes P: "calm_proposers V P"
    and T: "\<forall>a\<in>acceptor_ids. prepared_then_opened [] (T a) \<and> accepts_in (T a) \<subseteq> sent_by P"
    and ms: "set ms \<subseteq> reported env db0 T" "set ms' \<subseteq> reported env db0 T"
  shows "(\<forall>a\<in>acceptor_ids. acceptor_run env (T a) (acceptor_init a db0) \<noteq> None)
    \<and> (prefix (delivered (learner_run ms)) (delivered (learner_run ms'))
       \<or> prefix (delivered (learner_run ms')) (delivered (learner_run ms)))
    \<and> (\<forall>d\<in>set (delivered (learner_run ms)). \<exists>m\<in>sent_accepts (P (dl_proposer d)).
         delivery_of m = d \<and> dl_proposer d \<in> proposer_ids \<and> dl_value d \<in> V (dl_proposer d))"
proof -
  have fast: "\<forall>a\<in>acceptor_ids. fast_trace [] (T a)"
  proof
    fix a assume a: "a \<in> acceptor_ids"
    show "fast_trace [] (T a)"
    proof (rule prepared_then_opened_fast)
      show "prepared_then_opened [] (T a)" using T a by simp
      show "\<forall>m\<in>accepts_in (T a). first_round (acm_iid m) \<longrightarrow> accept_msg_ok m \<and> acm_ballot m < min_ballot"
      proof (intro ballI impI)
        fix m assume "m \<in> accepts_in (T a)" and f: "first_round (acm_iid m)"
        then obtain pid where "pid \<in> proposer_ids" "m \<in> sent_accepts (P pid)" using T a by (auto simp: sent_by_def)
        then show "accept_msg_ok m \<and> acm_ballot m < min_ballot" using own_accept_fast calm_sent(1) [OF P] f by blast
      qed
    qed
  qed
  have sub: "proposed T \<subseteq> sent_by P" using T by (auto simp: proposed_def)
  then have one: "one_per_ballot (proposed T)" using calm_one_per_ballot [OF P] unfolding one_per_ballot_def by blast
  have valid: "\<exists>m\<in>sent_accepts (P (dl_proposer d)). delivery_of m = d \<and> dl_proposer d \<in> proposer_ids \<and> dl_value d \<in> V (dl_proposer d)"
    if m: "m \<in> proposed T" "delivery_of m = d" for m d
  proof -
    obtain pid where pid: "pid \<in> proposer_ids" "m \<in> sent_accepts (P pid)" using sub m(1) by (auto simp: sent_by_def)
    then show ?thesis
      using calm_sent(1,2) [OF P pid(2,1)] m(2) by (auto simp: own_accept_def delivery_of_def)
  qed
  then show ?thesis using fast_path_agreement [OF fast one ms] by blast
qed

text \<open>Every proposer submits one value of its own for instance 0.\<close>

definition wit_P :: "int \<Rightarrow> proposer" where
  "wit_P pid = submit_send [word_of_int (64 + pid)] (submit_lock (snd (proposer_init 0 3 pid False proposer_static)))"

definition wit_V :: "int \<Rightarrow> byte list set" where
  "wit_V pid = {[word_of_int (64 + pid)]}"

lemma wit_P_calm: "calm_proposers wit_V wit_P"
  unfolding calm_proposers_def
proof
  fix pid assume "pid \<in> proposer_ids"
  then have good: "good_id pid 2" by (simp add: proposer_ids_def good_id_def)
  have "proposer_init 0 3 pid False proposer_static = (0, snd (proposer_init 0 3 pid False proposer_static))"
    by (simp add: proposer_init_def Let_def)
  note start = calm_reach.start [OF this]
  have "\<not> submit_too_big [word_of_int (64 + pid)]" by (simp add: submit_too_big_def c_simps)
  note sub = calm_reach.submit [OF start this]
  show "\<exists>n pc. good_id pid n \<and> calm_reach pid n (wit_V pid) (pc, wit_P pid)"
    using sub good unfolding wit_P_def wit_V_def by (auto simp: numeral_2_eq_2)
qed

lemma wit_P_sent: "wit_A \<in> sent_by wit_P" "wit_B \<in> sent_by wit_P"
proof -
  have one: "\<lparr>acm_iid = 0, acm_ballot = 10 + pid, acm_value_size = 1, acm_proposer_id = pid,
      acm_value = [word_of_int (64 + pid)]\<rparr> \<in> sent_accepts (wit_P pid)" if pid: "pid \<in> proposer_ids" for pid
  proof -
    let ?st = "snd (proposer_init 0 3 pid False proposer_static)"
    have "proposer_init 0 3 pid False proposer_static = (0, ?st)" by (simp add: proposer_init_def Let_def)
    then have "identity_inv pid (Outside, ?st)" using proposer_start_inv pid by (simp add: proposer_ids_def)
    moreover have "good_id pid 0" using pid by (simp add: proposer_ids_def good_id_def)
    moreover have "\<not> submit_too_big [word_of_int (64 + pid)]" by (simp add: submit_too_big_def c_simps)
    ultimately have "amsg (filled [word_of_int (64 + pid)] (submit_lock ?st)) \<in> sent_accepts (wit_P pid)"
      using submit_sends(1,2) by (simp add: sent_accepts_def wit_P_def)
    then show ?thesis
      using pid by (simp add: filled_def submit_lock_def proposer_init_def proposer_static_def static_accept_def
          proposer_ids_def c_simps Let_def)
  qed
  from one [of 1] one [of 2] show "wit_A \<in> sent_by wit_P" "wit_B \<in> sent_by wit_P"
    by (auto simp: sent_by_def wit_A_def wit_B_def proposer_ids_def c_simps)
qed

theorem system_agreement_witness:
  "delivered (learner_run (map (\<lambda>a. learn_of_accept a wit_A) [0, 1, 2])) = [delivery_of wit_A]
   \<and> delivery_of wit_A \<in> delivery_of ` sent_accepts (wit_P 1) \<and> dl_value (delivery_of wit_A) \<in> wit_V 1
   \<and> acceptor_run wit_env (wit_T 2) (acceptor_init 2 (\<lambda>_. None)) \<noteq> None"
proof -
  let ?ms = "map (\<lambda>a. learn_of_accept a wit_A) [0, 1, 2]"
  have T: "\<forall>a\<in>acceptor_ids. prepared_then_opened [] (wit_T a) \<and> accepts_in (wit_T a) \<subseteq> sent_by wit_P"
    using wit_P_sent by (auto simp: wit_T_def first_round_def c_simps accepts_in_def wit_A_def wit_B_def)
  have ms: "set ?ms \<subseteq> reported wit_env (\<lambda>_. None) wit_T"
    using wit_T_reports by (simp add: acceptor_ids_def c_simps)
  have d: "delivered (learner_run ?ms) = [delivery_of wit_A]"
    using wit_AB_ok(1) by (intro three_learns_deliver) (simp_all add: accept_msg_ok_def, simp add: wit_A_def)
  have "2 \<in> acceptor_ids" "dl_proposer (delivery_of wit_A) = 1"
    by (simp_all add: acceptor_ids_def c_simps delivery_of_def wit_A_def)
  then show ?thesis
    using system_agreement [OF wit_P_calm T ms ms] d by (auto intro: rev_image_eqI)
qed

end
