(* ===== verification/Submission_Race.thy ===== *)
theory Submission_Race
  imports System_Agreement End_To_End
begin

text \<open>
  The submission race, from the client's thread to the learners: a delivery between the critical
  section of \<^verbatim>\<open>proposer_submit_value\<close> and its send makes the proposer send two values at one ballot of
  one instance, and the learners, which compare ballots only, deliver different ones.
\<close>

lemma anyval_accept_reported:
  assumes m: "accept_msg_ok m" and i: "first_round (acm_iid m)" and b: "0 \<le> b"
    and a: "a \<in> acceptor_ids" and T: "T a = [Anyval b [acm_iid m], Accept m]"
  shows "learn_of_accept a m \<in> reported env db0 T"
proof -
  let ?r = "anyval_record static_record (acm_iid m) b"
  have "\<exists>t. acceptor_run env ([Anyval b [acm_iid m]] @ [Accept m]) (acceptor_init a db0) = Some t
    \<and> at_slot (acm_iid m) (accepted_record (clear_any ?r) m) ([] @ [learn_of_accept a m]) a t"
    using i b
    by (intro run_step [OF at_slot_any [OF at_slot_init i]] at_slot_accept [OF _ i refl _ _ m])
      (auto simp: static_record_def anyval_record_def first_round_def)
  then show ?thesis using a T by (auto simp: reported_def at_slot_def intro!: bexI [of _ a])
qed

text \<open>The three steps of the race, as the proposer's state sees them.\<close>

definition raced :: "byte list \<Rightarrow> delivery \<Rightarrow> proposer \<Rightarrow> proposer" where
  "raced v d st = submit_send v (send_for_next_instance (dl_iid d) (after_client d (submit_lock st)))"

lemma raced_reach:
  assumes "proposer_reach pid n (Outside, st)" and "good_id pid n" and "\<not> submit_too_big v"
    and "dl_iid d = prop_current_iid st" and "dl_proposer d \<noteq> pid"
  shows "proposer_reach pid (Suc (Suc (Suc n))) (Blocked v, raced v d st)"
proof -
  have "prop_proposer_id st = pid" using proposer_reach_inv [OF assms(1,2)] by (simp add: identity_inv_def)
  then have "proposer_deliver_callback d (submit_lock st) = Some (send_for_next_instance (dl_iid d) (after_client d (submit_lock st)))"
    using assms(4,5) by (simp add: deliver_cases submit_lock_def)
  note d = proposer_step.deliver [OF this]
  from proposer_reach.step [OF assms(1) proposer_step.lock [OF assms(3)]]
  have "proposer_reach pid (Suc n) (Filling v 0, submit_lock st)" .
  from reach_submit_send [OF proposer_reach.step [OF this d]]
  show ?thesis by (simp add: raced_def)
qed

text \<open>Both sends are whole accepts on the wire.\<close>

lemma raced_sent:
  assumes P: "proposer_reach pid n (Outside, st)" "good_id pid n" "prop_msg_size st \<noteq> 0"
    and v: "\<not> submit_too_big v" and i: "i32 (prop_current_iid st + 1) = i"
    and d: "dl_iid d = prop_current_iid st" "dl_proposer d \<noteq> pid"
  shows "(amsg st)\<lparr>acm_iid := i\<rparr> \<in> sent_accepts (raced v d st)"
    and "\<lparr>acm_iid = i, acm_ballot = fixed_ballot st, acm_value_size = int (length v),
      acm_proposer_id = prop_proposer_id st, acm_value = v\<rparr> \<in> sent_accepts (raced v d st)"
proof -
  let ?m = "(amsg st)\<lparr>acm_iid := i\<rparr>"
  let ?q = "(after_client d (submit_lock st))\<lparr>last_accept_iid := dl_iid d, last_accept_hash := i32 2, amsg := ?m\<rparr>"
  let ?s = "send_for_next_instance (dl_iid d) (after_client d (submit_lock st))"
  have id: "identity_inv pid (Outside, st)" using proposer_reach_inv [OF P(1,2)] by simp
  then have "settled st" by (simp add: identity_inv_def client_ok_def)
  from settled_ready [OF id P(2) this P(3)] have st: "ready_to_send pid st" .
  have ii: "in_i32 i" using in_i32_i32 [of "prop_current_iid st + 1"] unfolding i .
  have r: "ready_to_send pid ?q" by (rule ready_cong [OF st _ ii]) (simp_all add: frame submit_lock_def)
  have s: "?s = set_proposer_check_timeout i (i32 2) (send_proposer_buffer ?q)"
    using i by (simp add: send_for_next_instance_def send_proposer_buffer_def proposer_send_buffer_def frame submit_lock_def Let_def)
  have wire: "prop_wire ?s = prop_wire st @ [encode_packet (Accept ?m)]"
  proof -
    have "prop_wire ?s = prop_wire (send_proposer_buffer ?q)" unfolding s by (simp add: set_proposer_check_timeout_def)
    then show ?thesis using ready_send(1) [OF r] by (simp add: frame submit_lock_def)
  qed
  have "proposer_deliver_callback d (submit_lock st) = Some ?s"
    using id d by (simp add: deliver_cases submit_lock_def identity_inv_def)
  note id' = identity_deliver [OF identity_lock [OF id v] P(2) this]
  then have area: "area_ok ?s" by (simp add: identity_inv_def buffer_ok_def)
  have r': "ready_to_send pid (filled v ?s)" by (rule filled_ready [OF id' P(2) v])
  have raced: "raced v d st = set_proposer_check_timeout i 1 (send_proposer_buffer (filled v ?s))"
  proof -
    have "acm_iid (amsg ?s) = i" unfolding s by (simp add: set_proposer_check_timeout_def send_proposer_buffer_def)
    then show ?thesis using submit_send_eq [OF area v] by (simp add: raced_def)
  qed
  have "prop_wire (raced v d st) = prop_wire ?s @ [encode_packet (Accept (amsg (filled v ?s)))]"
    using ready_send(1) [OF r'] by (simp add: raced set_proposer_check_timeout_def) (simp add: filled_def)
  with wire have w: "{encode_packet (Accept ?m), encode_packet (Accept (amsg (filled v ?s)))} \<subseteq> set (prop_wire (raced v d st))"
    by simp
  then show "?m \<in> sent_accepts (raced v d st)" using ready_send(2) [OF r] by (simp add: sent_accepts_def)
  have "amsg (filled v ?s) = \<lparr>acm_iid = i, acm_ballot = fixed_ballot st, acm_value_size = int (length v),
      acm_proposer_id = prop_proposer_id st, acm_value = v\<rparr>"
    unfolding s by (simp add: filled_def set_proposer_check_timeout_def send_proposer_buffer_def frame submit_lock_def)
  then show "\<lparr>acm_iid = i, acm_ballot = fixed_ballot st, acm_value_size = int (length v),
      acm_proposer_id = prop_proposer_id st, acm_value = v\<rparr> \<in> sent_accepts (raced v d st)"
    using w ready_send(2) [OF r'] by (simp add: sent_accepts_def)
qed

lemma raced_accepts:
  assumes P: "proposer_reach pid n (Outside, st)" "good_id pid n" "prop_msg_size st \<noteq> 0"
    and v: "\<not> submit_too_big v" and i: "first_round (prop_current_iid st + 1)"
    and d: "dl_iid d = prop_current_iid st" "dl_proposer d \<noteq> pid"
  obtains m m' where "{m, m'} \<subseteq> sent_accepts (raced v d st)" "accept_msg_ok m" "accept_msg_ok m'"
    "acm_iid m = prop_current_iid st + 1" "acm_iid m' = prop_current_iid st + 1"
    "acm_ballot m = MAX_PROPOSERS + pid" "acm_ballot m' = MAX_PROPOSERS + pid"
    "acm_value m = acm_value (amsg st)" "acm_value m' = v"
proof -
  let ?i = "prop_current_iid st + 1"
  have id: "own_accept pid (amsg st)" "fixed_ballot st = MAX_PROPOSERS + pid" "prop_proposer_id st = pid"
    using proposer_reach_inv [OF P(1,2)] P(3) by (auto simp: identity_inv_def buffer_ok_def)
  define m where "m = (amsg st)\<lparr>acm_iid := ?i\<rparr>"
  define m' where "m' = \<lparr>acm_iid = ?i, acm_ballot = fixed_ballot st, acm_value_size = int (length v),
    acm_proposer_id = prop_proposer_id st, acm_value = v\<rparr>"
  have pid: "pid \<in> proposer_ids" using P(2) by (simp add: good_id_def proposer_ids_def)
  have own: "own_accept pid m" "own_accept pid m'"
    using id v by (simp_all add: own_accept_def m_def m'_def submit_too_big_def)
  have "i32 (prop_current_iid st + 1) = ?i" using i by (simp add: first_round_def c_simps)
  from raced_sent [OF P v this d] have "{m, m'} \<subseteq> sent_accepts (raced v d st)" by (simp add: m_def m'_def)
  moreover have "accept_msg_ok m" "accept_msg_ok m'"
    using own own_accept_fast [OF _ pid] i by (auto simp: m_def m'_def)
  moreover have "acm_ballot m = MAX_PROPOSERS + pid" "acm_ballot m' = MAX_PROPOSERS + pid" using own by (simp_all add: own_accept_def)
  moreover have "acm_iid m = ?i" "acm_iid m' = ?i" "acm_value m = acm_value (amsg st)" "acm_value m' = v"
    by (simp_all add: m_def m'_def)
  ultimately show thesis by (intro that)
qed

text \<open>Two of the acceptors hear the first of the accepts, the third the second one.\<close>

definition split_trace :: "int \<Rightarrow> accept_msg \<Rightarrow> accept_msg \<Rightarrow> int \<Rightarrow> packet list" where
  "split_trace b m m' a = (let m'' = (if a = 2 then m' else m) in [Anyval b [acm_iid m''], Accept m''])"

lemma split_votes:
  assumes ls: "\<forall>l\<in>set ls. learn_ok l \<and> lm_iid l \<noteq> i" "highest_delivered (learner_run ls) + 1 = i"
    and m: "accept_msg_ok m" "accept_msg_ok m'" "acm_iid m = i" "acm_iid m' = i" "acm_ballot m' = acm_ballot m" "first_round i"
  shows "\<exists>ds. delivered (learner_run (ls @ [learn_of_accept 0 m, learn_of_accept 1 m, learn_of_accept 2 m']))
      = delivered (learner_run ls) @ delivery_of m' # ds"
    and "\<exists>ds. delivered (learner_run (ls @ [learn_of_accept 2 m', learn_of_accept 1 m, learn_of_accept 0 m]))
      = delivered (learner_run ls) @ delivery_of m # ds"
proof -
  have "learner_inv (set ls) (learner_run ls)" using ls(1) by (intro learner_run_ok) simp
  then have st: "voted (acm_ballot m) {} i (learner_run ls)"
    using ls m(6) by (intro voted_start [of "set ls"]) (auto simp: first_round_def c_simps)
  have v: "vote (acm_ballot m) i 0 (learn_of_accept 0 m)" "vote (acm_ballot m) i 1 (learn_of_accept 1 m)"
      "vote (acm_ballot m) i 2 (learn_of_accept 2 m')"
    using vote_of_accept [of 0 m] vote_of_accept [of 1 m] vote_of_accept [of 2 m'] m(3-5) by simp_all
  have wf: "wf_accept m" "wf_accept m'" using m by (simp_all add: accept_msg_ok_def)
  then have w: "wf_learn (learn_of_accept 0 m)" "wf_learn (learn_of_accept 1 m)" "wf_learn (learn_of_accept 2 m')"
    using wf_learn_of_accept [of m 0] wf_learn_of_accept [of m 1] wf_learn_of_accept [of m' 2] by simp_all
  show "\<exists>ds. delivered (learner_run (ls @ [learn_of_accept 0 m, learn_of_accept 1 m, learn_of_accept 2 m']))
      = delivered (learner_run ls) @ delivery_of m' # ds"
    using three_votes [OF st _ v w] by (simp add: learner_run_def delivery_of_learn_accept)
  show "\<exists>ds. delivered (learner_run (ls @ [learn_of_accept 2 m', learn_of_accept 1 m, learn_of_accept 0 m]))
      = delivered (learner_run ls) @ delivery_of m # ds"
    using three_votes [OF st _ v(3,2,1) w(3,2,1)] by (simp add: learner_run_def delivery_of_learn_accept)
qed

text \<open>C39. A delivery between the critical section and the send of a submission loses agreement: from any
  state in which the client is idle and has sent a value before, the race makes the proposer send its
  previous value and the new one at the same ballot of the next instance; acceptors that are opened once
  accept one or the other, and a learner that has delivered everything before the instance delivers the
  one or the other, by the order in which it hears the three reports.\<close>

theorem submission_race_breaks_agreement:
  fixes ls :: "learn_msg list" and d :: delivery and b :: int
  assumes P: "proposer_reach pid n (Outside, st)" "good_id pid n" "prop_msg_size st \<noteq> 0"
    and v: "\<not> submit_too_big v"
    and d: "dl_iid d = prop_current_iid st" "dl_proposer d \<noteq> pid" and b: "0 \<le> b"
    and i: "first_round i" "i = prop_current_iid st + 1"
    and ls: "\<forall>l\<in>set ls. learn_ok l \<and> lm_iid l \<noteq> i" "highest_delivered (learner_run ls) + 1 = i"
  shows "\<exists>st' T ms ms' e e' ds ds'. proposer_reach pid (n + 3) (Blocked v, st')
    \<and> (\<forall>a\<in>acceptor_ids. prepared_then_opened [] (T a) \<and> accepts_in (T a) \<subseteq> sent_accepts st')
    \<and> set ms \<subseteq> reported env db0 T \<and> set ms' = set ms
    \<and> delivered (learner_run (ls @ ms)) = delivered (learner_run ls) @ e # ds
    \<and> delivered (learner_run (ls @ ms')) = delivered (learner_run ls) @ e' # ds'
    \<and> dl_iid e = i \<and> dl_iid e' = i \<and> dl_value e = v \<and> dl_value e' = acm_value (amsg st)"
proof -
  obtain m m' where m: "{m, m'} \<subseteq> sent_accepts (raced v d st)" "accept_msg_ok m" "accept_msg_ok m'"
    "acm_iid m = i" "acm_iid m' = i" "acm_ballot m = MAX_PROPOSERS + pid" "acm_ballot m' = MAX_PROPOSERS + pid"
    "acm_value m = acm_value (amsg st)" "acm_value m' = v"
    using raced_accepts [OF P v _ d] i by metis
  let ?T = "split_trace b m m'"
  let ?ms = "[learn_of_accept 0 m, learn_of_accept 1 m, learn_of_accept 2 m']"
  let ?ms' = "[learn_of_accept 2 m', learn_of_accept 1 m, learn_of_accept 0 m]"
  have "prepared_then_opened [] (?T a)" "accepts_in (?T a) \<subseteq> sent_accepts (raced v d st)" for a
    using m i(1) by (auto simp: split_trace_def accepts_in_def Let_def)
  moreover have "set ?ms \<subseteq> reported env db0 ?T"
    using m(2-5) i(1) b anyval_accept_reported [of m b 0 ?T env db0] anyval_accept_reported [of m b 1 ?T env db0]
      anyval_accept_reported [of m' b 2 ?T env db0]
    by (simp add: split_trace_def acceptor_ids_def c_simps)
  moreover have "set ?ms' = set ?ms" by auto
  moreover have "proposer_reach pid (n + 3) (Blocked v, raced v d st)"
    using raced_reach [OF P(1,2) v d] by (simp add: numeral_3_eq_3)
  moreover obtain ds ds' where "delivered (learner_run (ls @ ?ms)) = delivered (learner_run ls) @ delivery_of m' # ds"
      "delivered (learner_run (ls @ ?ms')) = delivered (learner_run ls) @ delivery_of m # ds'"
    using split_votes [OF ls m(2-5) _ i(1)] m(6,7) by auto
  moreover have "dl_iid (delivery_of m') = i" "dl_iid (delivery_of m) = i" "dl_value (delivery_of m') = v"
      "dl_value (delivery_of m) = acm_value (amsg st)"
    using m by (simp_all add: delivery_of_def)
  ultimately show ?thesis by (metis (no_types))
qed

text \<open>Proposer 1 was served instance 0, then races at instance 1; the learner has delivered both.\<close>

definition wit_two :: "learn_msg list" where
  "wit_two = wit_learns @ map (\<lambda>l. l\<lparr>lm_iid := 1\<rparr>) wit_learns"

lemma wit_two_run: "highest_delivered (learner_run wit_two) = 1"
  by (simp add: learner_run_def wit_two_def wit_learns_def wit_learn_def learner_start_def static_learner_record_def
      learner_eval quorum_of_def numeral_3_eq_3)

theorem submission_race_breaks_agreement_witness:
  "\<exists>ms ms' e e' ds ds'. set ms' = set ms
    \<and> delivered (learner_run (wit_two @ ms)) = delivered (learner_run wit_two) @ e # ds
    \<and> delivered (learner_run (wit_two @ ms')) = delivered (learner_run wit_two) @ e' # ds'
    \<and> dl_iid e = 2 \<and> dl_iid e' = 2 \<and> dl_value e = [67] \<and> dl_value e' = [65]"
proof -
  have v: "\<not> submit_too_big [67]" by (simp add: submit_too_big_def c_simps)
  have ls: "\<forall>l\<in>set wit_two. learn_ok l \<and> lm_iid l \<noteq> 2"
    by (simp add: wit_two_def wit_learns_def wit_learn_def learn_ok_def wf_learn_def in_i32_def c_simps)
  have i: "first_round 2" by (simp add: first_round_def c_simps)
  have st: "proposer_reach 1 4 (Outside, wit_served)" "good_id 1 4" "prop_msg_size wit_served \<noteq> 0"
    by (simp_all add: wit_served_reach good_id_1 wit_served_fields)
  have d: "dl_iid (wit_other\<lparr>dl_iid := 1\<rparr>) = prop_current_iid wit_served" "dl_proposer (wit_other\<lparr>dl_iid := 1\<rparr>) \<noteq> 1"
    "(0::int) \<le> 21" "2 = prop_current_iid wit_served + 1" "highest_delivered (learner_run wit_two) + 1 = 2"
    by (simp_all add: wit_served_fields wit_two_run wit_other_def)
  show ?thesis
    using submission_race_breaks_agreement [OF st v d(1-3) i d(4) ls d(5), of wit_env "\<lambda>_. None"]
    unfolding wit_served_fields by blast
qed

end
