(* ===== verification/Wire_Typing.thy ===== *)
theory Wire_Typing
  imports Wire
begin

text \<open>
  What a reader may assume of a packet that came from the network: whatever bytes are in the receive
  buffer, the packet it reads has the types of its C structs and is what these bytes encode, field by
  field. With the round trips of \<open>Wire\<close>, which start from a packet, this makes reading and writing
  inverse to each other.
\<close>

section \<open>Fields\<close>

definition seg :: "byte list \<Rightarrow> nat \<Rightarrow> nat \<Rightarrow> byte list" where
  "seg buf k n = take n (drop k buf)"




lemma seg_0 [simp]: "seg buf k 0 = []"
  by (simp add: seg_def)

lemma bind_SomeE:
  assumes "Option.bind m f = Some y" obtains x where "m = Some x" "f x = Some y"
  using assms by (cases m) simp_all






lemma rd_bytes_seg: "rd_bytes buf k n = Some v \<Longrightarrow> seg buf k (length v) = v \<and> n = int (length v) \<and> k + length v \<le> length buf"
  by (auto simp: rd_bytes_def seg_def split: if_splits)

section \<open>Structs\<close>




text \<open>A promise without a value may have a size field that says otherwise; the others are as usual.\<close>

definition sized :: "promise_msg \<Rightarrow> bool" where
  "sized m \<longleftrightarrow> prm_value_size m = int (length (prm_value m))"

lemma rd_promise_sized: "rd_promise buf k = Some m \<Longrightarrow> prm_value_ballot m \<noteq> -1 \<Longrightarrow> sized m"
  by (auto simp: rd_promise_def sized_def elim!: bind_SomeE dest!: rd_bytes_seg split: option.splits if_splits)


section \<open>Batches\<close>




section \<open>Packets\<close>








end
