(* ===== verification/Udp.thy ===== *)
theory Udp
  imports Wire
begin

text \<open>
  \<^verbatim>\<open>common/paxos_udp.c\<close>: the creation of the receiving and the sending sockets. The system calls
  are a datatype, with the arguments the code passes; the kernel that answers them is a parameter, a
  function from the call and the kernel's state to the \<^verbatim>\<open>int\<close> it returns and its new state. Every
  call is recorded, so that a theorem can say which calls were made. \<^verbatim>\<open>inet_addr\<close> and \<^verbatim>\<open>htons\<close>
  are those of the C library on a little-endian machine.
\<close>

section \<open>Addresses\<close>

text \<open>Byte order: a number in network order has its bytes in memory from the highest down.\<close>

definition htons :: "16 word \<Rightarrow> 16 word" where
  "htons w = or (push_bit 8 w) (drop_bit 8 w)"

definition htonl :: "32 word \<Rightarrow> 32 word" where
  "htonl w = or (or (push_bit 24 w) (push_bit 8 (and w 0xFF00))) (or (and (drop_bit 8 w) 0xFF00) (drop_bit 24 w))"

text \<open>The numbers of an address: decimal, octal after a leading 0, hexadecimal after 0x.\<close>

definition digit_of :: "char \<Rightarrow> nat" where
  "digit_of c = (let n = of_char c :: nat in
     if 48 \<le> n \<and> n \<le> 57 then n - 48
     else if 65 \<le> n \<and> n \<le> 70 then n - 55
     else if 97 \<le> n \<and> n \<le> 102 then n - 87
     else 99)"

fun read_digits :: "nat \<Rightarrow> string \<Rightarrow> nat \<Rightarrow> nat option" where
  "read_digits base [] n = Some n"
| "read_digits base (c # cs) n =
     (if digit_of c < base then read_digits base cs (n * base + digit_of c) else None)"

definition inet_number :: "string \<Rightarrow> nat option" where
  "inet_number s =
     (if s = [] \<or> 10 \<le> digit_of (hd s) then None
      else if take 2 s \<in> {''0x'', ''0X''} then (if length s = 2 then None else read_digits 16 (drop 2 s) 0)
      else if hd s = CHR ''0'' then read_digits 8 s 0
      else read_digits 10 s 0)"

fun split_dots :: "string \<Rightarrow> string list" where
  "split_dots [] = [[]]"
| "split_dots (c # cs) =
     (case split_dots cs of
        [] \<Rightarrow> [[c]]
      | p # ps \<Rightarrow> if c = CHR ''.'' then [] # p # ps else (c # p) # ps)"

text \<open>One to four numbers; the last fills the bytes the others leave.\<close>

fun inet_value :: "nat list \<Rightarrow> nat option" where
  "inet_value [a] = (if a < 2 ^ 32 then Some a else None)"
| "inet_value [a, b] = (if a < 256 \<and> b < 2 ^ 24 then Some (a * 2 ^ 24 + b) else None)"
| "inet_value [a, b, c] =
     (if a < 256 \<and> b < 256 \<and> c < 2 ^ 16 then Some (a * 2 ^ 24 + b * 2 ^ 16 + c) else None)"
| "inet_value [a, b, c, d] =
     (if a < 256 \<and> b < 256 \<and> c < 256 \<and> d < 256
      then Some (a * 2 ^ 24 + b * 2 ^ 16 + c * 2 ^ 8 + d) else None)"
| "inet_value _ = None"

definition INADDR_NONE :: "32 word" where "INADDR_NONE = 0xFFFFFFFF"
definition INADDR_ANY :: "32 word" where "INADDR_ANY = 0"

definition inet_addr :: "string \<Rightarrow> 32 word" where
  "inet_addr s =
     (let ns = map inet_number (split_dots s)
      in if None \<in> set ns then INADDR_NONE
         else (case inet_value (map the ns) of None \<Rightarrow> INADDR_NONE | Some v \<Rightarrow> htonl (of_nat v)))"

record sockaddr_in =
  sin_family :: int
  sin_port :: "16 word"
  sin_addr :: "32 word"

definition AF_INET :: int where "AF_INET = 2"

definition static_sockaddr :: sockaddr_in where
  "static_sockaddr = \<lparr>sin_family = 0, sin_port = 0, sin_addr = 0\<rparr>"

section \<open>System calls\<close>

datatype sys_call =
    Sys_socket
  | Sys_reuseaddr int int
  | Sys_add_membership int "32 word" "32 word"
  | Sys_bind int sockaddr_in
  | Sys_getfl int
  | Sys_setfl int int
  | Sys_close int

record 'k kernel =
  k_answer :: "sys_call \<Rightarrow> 'k \<Rightarrow> int \<times> 'k"
  O_NONBLOCK :: int

record 'k process =
  p_kernel :: 'k
  p_calls :: "(sys_call \<times> int) list"

definition sys :: "'k kernel \<Rightarrow> sys_call \<Rightarrow> 'k process \<Rightarrow> int \<times> 'k process" where
  "sys K c p = (let (r, k) = k_answer K c (p_kernel p) in (r, \<lparr>p_kernel = k, p_calls = p_calls p @ [(c, r)]\<rparr>))"

section \<open>The two constructors\<close>

text \<open>The last two calls of both functions: read the flags, write them with \<^verbatim>\<open>O_NONBLOCK\<close> added.\<close>

definition set_nonblocking :: "'k kernel \<Rightarrow> int \<Rightarrow> 'k process \<Rightarrow> bool \<times> 'k process" where
  "set_nonblocking K sock p =
     (let (flag, p1) = sys K (Sys_getfl sock) p
      in if flag < 0 then (False, p1)
         else (let (r, p2) = sys K (Sys_setfl sock (or flag (O_NONBLOCK K))) p1 in (\<not> r < 0, p2)))"

definition create_udp_socket ::
    "'k kernel \<Rightarrow> string \<times> int \<Rightarrow> sockaddr_in \<Rightarrow> 'k process \<Rightarrow> int \<times> sockaddr_in \<times> 'k process" where
  "create_udp_socket K grp addr p0 =
     (let (sock, p1) = sys K Sys_socket p0
      in if sock < 0 then (-1, addr, p1)
         else
           (let (r, p2) = sys K (Sys_reuseaddr sock 1) p1
            in if r \<noteq> 0 then (-1, addr, p2)
               else
                 (let (activate, p3) = sys K (Sys_add_membership sock (inet_addr (fst grp)) (htonl INADDR_ANY)) p2
                  in if activate \<noteq> 0 then (-1, addr, p3)
                     else
                       (let addr1 = addr\<lparr>sin_addr := inet_addr (fst grp)\<rparr>
                        in if sin_addr addr1 = INADDR_NONE then (-1, addr1, p3)
                           else
                             (let addr2 = addr1\<lparr>sin_family := AF_INET, sin_port := htons (word_of_int (snd grp))\<rparr>;
                                  (b, p4) = sys K (Sys_bind sock addr2) p3
                              in if b \<noteq> 0 then (-1, addr2, p4)
                                 else
                                   (let (ok, p5) = set_nonblocking K sock p4
                                    in (if ok then sock else -1, addr2, p5)))))))"

definition create_udp_sender ::
    "'k kernel \<Rightarrow> string \<times> int \<Rightarrow> sockaddr_in \<Rightarrow> 'k process \<Rightarrow> int \<times> sockaddr_in \<times> 'k process" where
  "create_udp_sender K grp addr p0 =
     (let (sock, p1) = sys K Sys_socket p0
      in if sock < 0 then (-1, addr, p1)
         else
           (let addr1 = static_sockaddr\<lparr>sin_addr := inet_addr (fst grp)\<rparr>
            in if sin_addr addr1 = INADDR_NONE then (-1, addr1, p1)
               else
                 (let addr2 = addr1\<lparr>sin_family := AF_INET, sin_port := htons (word_of_int (snd grp))\<rparr>;
                      (ok, p2) = set_nonblocking K sock p1
                  in (if ok then sock else -1, addr2, p2))))"

section \<open>The groups of the configuration\<close>

definition PAXOS_LEARNERS_NET :: "string \<times> int" where "PAXOS_LEARNERS_NET = (''239.0.0.1'', 6001)"
definition PAXOS_ACCEPTORS_NET :: "string \<times> int" where "PAXOS_ACCEPTORS_NET = (''239.0.0.1'', 6002)"
definition PAXOS_PROPOSERS_NET :: "string \<times> int" where "PAXOS_PROPOSERS_NET = (''239.0.0.1'', 6003)"

lemma inet_addr_group: "inet_addr ''239.0.0.1'' = 0x010000EF"
proof -
  have "map inet_number (split_dots ''239.0.0.1'') = [Some 239, Some 0, Some 0, Some 1]"
    by (simp add: inet_number_def digit_of_def Let_def)
  then show ?thesis by (simp add: inet_addr_def htonl_def)
qed

lemma group_addresses [simp]:
  "inet_addr (fst PAXOS_LEARNERS_NET) = 0x010000EF"
  "inet_addr (fst PAXOS_ACCEPTORS_NET) = 0x010000EF"
  "inet_addr (fst PAXOS_PROPOSERS_NET) = 0x010000EF"
  by (simp_all add: PAXOS_LEARNERS_NET_def PAXOS_ACCEPTORS_NET_def PAXOS_PROPOSERS_NET_def inet_addr_group)

section \<open>What the constructors do\<close>

text \<open>The calls of a successful run, in order, and the address left in the caller's structure.\<close>

definition group_addr :: "string \<times> int \<Rightarrow> sockaddr_in" where
  "group_addr grp = \<lparr>sin_family = AF_INET, sin_port = htons (word_of_int (snd grp)), sin_addr = inet_addr (fst grp)\<rparr>"

definition socket_plan :: "'k kernel \<Rightarrow> string \<times> int \<Rightarrow> int \<Rightarrow> int \<Rightarrow> sys_call list" where
  "socket_plan K grp sock flag = [Sys_socket, Sys_reuseaddr sock 1,
     Sys_add_membership sock (inet_addr (fst grp)) 0, Sys_bind sock (group_addr grp),
     Sys_getfl sock, Sys_setfl sock (or flag (O_NONBLOCK K))]"

definition sender_plan :: "'k kernel \<Rightarrow> int \<Rightarrow> int \<Rightarrow> sys_call list" where
  "sender_plan K sock flag = [Sys_socket, Sys_getfl sock, Sys_setfl sock (or flag (O_NONBLOCK K))]"

text \<open>Which answers the code takes for success.\<close>

fun answer_ok :: "sys_call \<times> int \<Rightarrow> bool" where
  "answer_ok (Sys_reuseaddr _ _, r) \<longleftrightarrow> r = 0"
| "answer_ok (Sys_add_membership _ _ _, r) \<longleftrightarrow> r = 0"
| "answer_ok (Sys_bind _ _, r) \<longleftrightarrow> r = 0"
| "answer_ok (_, r) \<longleftrightarrow> 0 \<le> r"

lemma htonl_any [simp]: "htonl INADDR_ANY = 0"
  by (simp add: htonl_def INADDR_ANY_def)

lemma sys_logs: "sys K c p = (r, q) \<Longrightarrow> p_calls q = p_calls p @ [(c, r)]"
  by (auto simp: sys_def split: prod.splits)

lemma create_udp_socket_log:
  assumes "create_udp_socket K grp addr p = (ret, addr', q)"
  defines "new \<equiv> drop (length (p_calls p)) (p_calls q)"
  shows "p_calls q = p_calls p @ new \<and> new \<noteq> [] \<and> list_all answer_ok (butlast new)
    \<and> map fst new = take (length new) (socket_plan K grp (snd (new ! 0)) (snd (new ! 4)))
    \<and> (if list_all answer_ok new \<and> inet_addr (fst grp) \<noteq> INADDR_NONE
       then ret = snd (new ! 0) \<and> length new = 6 \<and> addr' = group_addr grp
       else ret = -1)"
proof -
  obtain sock p1 where c1: "sys K Sys_socket p = (sock, p1)" by fastforce
  obtain r2 p2 where c2: "sys K (Sys_reuseaddr sock 1) p1 = (r2, p2)" by fastforce
  obtain r3 p3 where c3: "sys K (Sys_add_membership sock (inet_addr (fst grp)) 0) p2 = (r3, p3)" by fastforce
  obtain r4 p4 where c4: "sys K (Sys_bind sock (group_addr grp)) p3 = (r4, p4)" by fastforce
  obtain r5 p5 where c5: "sys K (Sys_getfl sock) p4 = (r5, p5)" by fastforce
  obtain r6 p6 where c6: "sys K (Sys_setfl sock (or r5 (O_NONBLOCK K))) p5 = (r6, p6)" by fastforce
  have addr: "addr\<lparr>sin_addr := inet_addr (fst grp), sin_family := AF_INET,
      sin_port := htons (word_of_int (snd grp))\<rparr> = group_addr grp"
    by (simp add: group_addr_def)
  show ?thesis
    using assms(1) sys_logs [OF c1] sys_logs [OF c2] sys_logs [OF c3] sys_logs [OF c4] sys_logs [OF c5] sys_logs [OF c6]
    unfolding new_def
    by (auto simp: create_udp_socket_def set_nonblocking_def Let_def addr c1 c2 c3 c4 c5 c6 socket_plan_def
        split: if_splits)
qed

text \<open>C28. Creating a receiving socket, for every kernel: the calls made are a first part of the fixed
  sequence socket, reuse, group membership, bind, read flags, write flags with \<^verbatim>\<open>O_NONBLOCK\<close> added,
  each on the descriptor of the first; it goes on exactly as long as the answers are good. Only when
  all six are good and the group address is valid does the function return the descriptor, with the
  caller's address set to the group; in every other case it returns -1, and as no call closes the
  descriptor, it stays open.\<close>

theorem create_udp_socket_correct:
  assumes "create_udp_socket K grp addr p = (ret, addr', q)"
  defines "new \<equiv> drop (length (p_calls p)) (p_calls q)"
  shows "p_calls q = p_calls p @ new \<and> new \<noteq> [] \<and> list_all answer_ok (butlast new)
    \<and> map fst new = take (length new) (socket_plan K grp (snd (new ! 0)) (snd (new ! 4)))
    \<and> (if list_all answer_ok new \<and> inet_addr (fst grp) \<noteq> INADDR_NONE
       then ret = snd (new ! 0) \<and> length new = 6 \<and> addr' = group_addr grp
       else ret = -1)"
  using create_udp_socket_log [OF assms(1)] unfolding new_def .

text \<open>A kernel that grants everything: descriptor 3, and 0 for every other call.\<close>

definition good_kernel :: "unit kernel" where
  "good_kernel = \<lparr>k_answer = (\<lambda>c k. (case c of Sys_socket \<Rightarrow> 3 | _ \<Rightarrow> 0, k)), O_NONBLOCK = 2048\<rparr>"

definition new_process :: "unit process" where
  "new_process = \<lparr>p_kernel = (), p_calls = []\<rparr>"

lemma sys_good: "sys good_kernel c p = (case c of Sys_socket \<Rightarrow> 3 | _ \<Rightarrow> 0, p\<lparr>p_calls := p_calls p @ [(c, case c of Sys_socket \<Rightarrow> 3 | _ \<Rightarrow> 0)]\<rparr>)"
  by (simp add: sys_def good_kernel_def)

lemma nonblock_good [simp]: "O_NONBLOCK good_kernel = 2048"
  by (simp add: good_kernel_def)

lemma good_socket: "create_udp_socket good_kernel PAXOS_LEARNERS_NET static_sockaddr new_process =
  (3, group_addr PAXOS_LEARNERS_NET, \<lparr>p_kernel = (), p_calls =
    [(Sys_socket, 3), (Sys_reuseaddr 3 1, 0), (Sys_add_membership 3 0x010000EF 0, 0),
     (Sys_bind 3 (group_addr PAXOS_LEARNERS_NET), 0), (Sys_getfl 3, 0), (Sys_setfl 3 2048, 0)]\<rparr>)"
  by (simp add: create_udp_socket_def set_nonblocking_def sys_good Let_def INADDR_NONE_def new_process_def
      group_addr_def static_sockaddr_def)

theorem create_udp_socket_correct_witness:
  "p_calls (snd (snd (create_udp_socket good_kernel PAXOS_LEARNERS_NET static_sockaddr new_process)))
     = zip (socket_plan good_kernel PAXOS_LEARNERS_NET 3 0) [3, 0, 0, 0, 0, 0]"
  using create_udp_socket_correct [OF good_socket] unfolding good_socket
  by (simp add: socket_plan_def INADDR_NONE_def new_process_def)

lemma create_udp_sender_correct:
  assumes "create_udp_sender K grp addr p = (ret, addr', q)"
  defines "new \<equiv> drop (length (p_calls p)) (p_calls q)"
  shows "p_calls q = p_calls p @ new \<and> new \<noteq> [] \<and> list_all answer_ok (butlast new)
    \<and> map fst new = take (length new) (sender_plan K (snd (new ! 0)) (snd (new ! 1)))
    \<and> (if list_all answer_ok new \<and> inet_addr (fst grp) \<noteq> INADDR_NONE
       then ret = snd (new ! 0) \<and> length new = 3 \<and> addr' = group_addr grp
       else ret = -1)"
proof -
  obtain sock p1 where c1: "sys K Sys_socket p = (sock, p1)" by fastforce
  obtain r5 p5 where c5: "sys K (Sys_getfl sock) p1 = (r5, p5)" by fastforce
  obtain r6 p6 where c6: "sys K (Sys_setfl sock (or r5 (O_NONBLOCK K))) p5 = (r6, p6)" by fastforce
  show ?thesis
    using assms(1) sys_logs [OF c1] sys_logs [OF c5] sys_logs [OF c6]
    unfolding new_def
    by (auto simp: create_udp_sender_def set_nonblocking_def Let_def c1 c5 c6 sender_plan_def
        group_addr_def static_sockaddr_def split: if_splits)
qed

end
