(* ===== verification/Learner_Start.thy ===== *)
theory Learner_Start
  imports Learner Leader Udp
begin

text \<open>
  The start of the learner: \<^verbatim>\<open>libevent_start\<close> and \<^verbatim>\<open>learner_init\<close> of \<^verbatim>\<open>learner.c\<close> with the sockets they
  create, and the handshake of \<^verbatim>\<open>learner_init_threaded\<close>, in which the caller waits on a condition
  variable until the learner's thread has set \<^verbatim>\<open>learner_ready\<close>. The handshake is a step relation over
  the program counters of the two threads, one step per call on the mutex, the condition or the flag;
  a waiting thread may wake up without a signal, as POSIX allows.
\<close>

section \<open>Sockets and timers of the learner\<close>

record learner_addresses =
  lear_net_addr :: sockaddr_in
  lear_acceptor_net_addr :: sockaddr_in

definition lsync_interval :: timeval where
  "lsync_interval = interval_of LEARNER_LSYNC_INTERVAL"

text \<open>\<^verbatim>\<open>libevent_start\<close>: \<open>eb\<close> says whether \<^verbatim>\<open>event_init\<close> gave an event base.\<close>

definition learner_libevent_start :: "'k kernel \<Rightarrow> bool \<Rightarrow> 'k process \<Rightarrow> int \<times> sockaddr_in \<times> 'k process" where
  "learner_libevent_start K eb p =
     (if \<not> eb then (-1, static_sockaddr, p)
      else (let (sock, addr, p1) = create_udp_socket K PAXOS_LEARNERS_NET static_sockaddr p
            in (if sock < 0 then -1 else 0, addr, p1)))"

definition learner_boot ::
    "'k kernel \<Rightarrow> bool \<Rightarrow> bool \<Rightarrow> 'k process \<Rightarrow> (int + learner \<times> learner_addresses) \<times> 'k process" where
  "learner_boot K callback_given eb p =
     (if \<not> callback_given then (Inl (-1), p)
      else
        (let (send_sock, aaddr, p1) = create_udp_sender K PAXOS_ACCEPTORS_NET static_sockaddr p
         in if send_sock < 0 then (Inl (-1), p1)
            else (let (ret, laddr, p2) = learner_libevent_start K eb p1
                  in if ret < 0 then (Inl (-1), p2)
                     else (Inr (learner_start, \<lparr>lear_net_addr = laddr, lear_acceptor_net_addr = aaddr\<rparr>), p2))))"

definition boot_succeeds :: "(int + 'a) \<times> 'b \<Rightarrow> bool" where
  "boot_succeeds r = (case fst r of Inl _ \<Rightarrow> False | Inr _ \<Rightarrow> True)"

section \<open>The handshake\<close>

datatype starter_pc = S_Create | S_Lock | S_Test | S_Wait | S_Relock | S_Unlock | S_Returned int

datatype learner_pc = L_None | L_Init | L_Lock | L_Set | L_Signal | L_Unlock | L_Loop | L_Exit int

datatype lock_holder = Nobody | Starter | Learner_Thread

record ready_state =
  starter :: starter_pc
  lthread :: learner_pc
  learner_ready :: bool
  ready_lock :: lock_holder

definition ready_start :: ready_state where
  "ready_start = \<lparr>starter = S_Create, lthread = L_None, learner_ready = False, ready_lock = Nobody\<rparr>"

definition signal_ready :: "ready_state \<Rightarrow> ready_state" where
  "signal_ready s = (if starter s = S_Wait then s\<lparr>starter := S_Relock\<rparr> else s)"

text \<open>\<open>ok\<close> says whether \<^verbatim>\<open>learner_init\<close> reaches the event loop.\<close>

inductive ready_step :: "bool \<Rightarrow> ready_state \<Rightarrow> ready_state \<Rightarrow> bool" for ok :: bool where
  create: "starter s = S_Create \<Longrightarrow> ready_step ok s (s\<lparr>starter := S_Lock, lthread := L_Init\<rparr>)"
| create_fails: "starter s = S_Create \<Longrightarrow> ready_step ok s (s\<lparr>starter := S_Returned (-1)\<rparr>)"
| s_lock: "starter s \<in> {S_Lock, S_Relock} \<Longrightarrow> ready_lock s = Nobody \<Longrightarrow>
    ready_step ok s (s\<lparr>starter := S_Test, ready_lock := Starter\<rparr>)"
| s_ready: "starter s = S_Test \<Longrightarrow> learner_ready s \<Longrightarrow> ready_step ok s (s\<lparr>starter := S_Unlock\<rparr>)"
| s_wait: "starter s = S_Test \<Longrightarrow> \<not> learner_ready s \<Longrightarrow>
    ready_step ok s (s\<lparr>starter := S_Wait, ready_lock := Nobody\<rparr>)"
| s_spurious: "starter s = S_Wait \<Longrightarrow> ready_step ok s (s\<lparr>starter := S_Relock\<rparr>)"
| s_unlock: "starter s = S_Unlock \<Longrightarrow> ready_step ok s (s\<lparr>starter := S_Returned 0, ready_lock := Nobody\<rparr>)"
| l_fails: "lthread s = L_Init \<Longrightarrow> \<not> ok \<Longrightarrow> ready_step ok s (s\<lparr>lthread := L_Exit (-1)\<rparr>)"
| l_started: "lthread s = L_Init \<Longrightarrow> ok \<Longrightarrow> ready_step ok s (s\<lparr>lthread := L_Lock\<rparr>)"
| l_lock: "lthread s = L_Lock \<Longrightarrow> ready_lock s = Nobody \<Longrightarrow>
    ready_step ok s (s\<lparr>lthread := L_Set, ready_lock := Learner_Thread\<rparr>)"
| l_set: "lthread s = L_Set \<Longrightarrow> ready_step ok s (s\<lparr>lthread := L_Signal, learner_ready := True\<rparr>)"
| l_signal: "lthread s = L_Signal \<Longrightarrow> ready_step ok s (signal_ready s\<lparr>lthread := L_Unlock\<rparr>)"
| l_unlock: "lthread s = L_Unlock \<Longrightarrow> ready_step ok s (s\<lparr>lthread := L_Loop, ready_lock := Nobody\<rparr>)"
| l_ends: "lthread s = L_Loop \<Longrightarrow> ready_step ok s (s\<lparr>lthread := L_Exit (-1)\<rparr>)"

inductive ready_reach :: "bool \<Rightarrow> ready_state \<Rightarrow> bool" for ok :: bool where
  start: "ready_reach ok ready_start"
| step: "ready_reach ok s \<Longrightarrow> ready_step ok s t \<Longrightarrow> ready_reach ok t"

text \<open>
  Who holds the lock is where the program counters say; the flag is set exactly once the learner's
  thread passed \<open>L_Set\<close>; and a starter that waits has not been overtaken by the signal.
\<close>

fun passed_set :: "bool \<Rightarrow> learner_pc \<Rightarrow> bool" where
  "passed_set ok L_Signal = True"
| "passed_set ok L_Unlock = True"
| "passed_set ok L_Loop = True"
| "passed_set ok (L_Exit r) = ok"
| "passed_set ok _ = False"

definition ready_inv :: "bool \<Rightarrow> ready_state \<Rightarrow> bool" where
  "ready_inv ok s \<longleftrightarrow>
     (ready_lock s = Starter \<longleftrightarrow> starter s \<in> {S_Test, S_Unlock})
   \<and> (ready_lock s = Learner_Thread \<longleftrightarrow> lthread s \<in> {L_Set, L_Signal, L_Unlock})
   \<and> (learner_ready s \<longleftrightarrow> passed_set ok (lthread s))
   \<and> (\<not> ok \<longrightarrow> lthread s \<in> {L_None, L_Init, L_Exit (-1)})
   \<and> (starter s = S_Wait \<and> learner_ready s \<longrightarrow> lthread s = L_Signal)
   \<and> (starter s \<in> {S_Unlock, S_Returned 0} \<longrightarrow> learner_ready s)
   \<and> (starter s \<in> {S_Create, S_Returned (-1)} \<longleftrightarrow> lthread s = L_None)
   \<and> (\<forall>r. starter s = S_Returned r \<longrightarrow> r \<in> {0, -1})"

lemma ready_step_inv:
  assumes "ready_step ok s t" and "ready_inv ok s"
  shows "ready_inv ok t"
  using assms
  by cases (auto simp: ready_inv_def signal_ready_def)

lemma ready_reach_inv: "ready_reach ok s \<Longrightarrow> ready_inv ok s"
proof (induction rule: ready_reach.induct)
  case start
  show ?case by (simp add: ready_inv_def ready_start_def)
next
  case (step s t)
  then show ?case by (blast intro: ready_step_inv)
qed

section \<open>What the handshake guarantees\<close>

lemma steps_trans: "ready_step ok s t \<Longrightarrow> (ready_step ok)\<^sup>*\<^sup>* t u \<Longrightarrow> (ready_step ok)\<^sup>*\<^sup>* s u"
  by (rule converse_rtranclp_into_rtranclp)

text \<open>From the unlocked states of the starter, its own steps lead to the return.\<close>

lemma starter_returns:
  assumes "starter s \<in> {S_Lock, S_Relock}" and "ready_lock s = Nobody" and "learner_ready s"
  shows "(ready_step ok)\<^sup>*\<^sup>* s (s\<lparr>starter := S_Returned 0, ready_lock := Nobody\<rparr>)"
proof -
  let ?t = "s\<lparr>starter := S_Test, ready_lock := Starter\<rparr>"
  let ?u = "?t\<lparr>starter := S_Unlock\<rparr>"
  have "ready_step ok s ?t" using assms by (intro s_lock) auto
  moreover have "ready_step ok ?t ?u" using assms by (intro s_ready) auto
  moreover have "ready_step ok ?u (?u\<lparr>starter := S_Returned 0, ready_lock := Nobody\<rparr>)" by (intro s_unlock) simp
  ultimately have "(ready_step ok)\<^sup>*\<^sup>* s (?u\<lparr>starter := S_Returned 0, ready_lock := Nobody\<rparr>)"
    by (blast intro: steps_trans)
  then show ?thesis by simp
qed

lemma starter_returns_testing:
  assumes "starter s = S_Test" and "learner_ready s"
  shows "(ready_step ok)\<^sup>*\<^sup>* s (s\<lparr>starter := S_Returned 0, ready_lock := Nobody\<rparr>)"
proof -
  let ?u = "s\<lparr>starter := S_Unlock\<rparr>"
  have "ready_step ok s ?u" using assms by (intro s_ready)
  moreover have "ready_step ok ?u (?u\<lparr>starter := S_Returned 0, ready_lock := Nobody\<rparr>)" by (intro s_unlock) simp
  ultimately have "(ready_step ok)\<^sup>*\<^sup>* s (?u\<lparr>starter := S_Returned 0, ready_lock := Nobody\<rparr>)"
    by (blast intro: steps_trans)
  then show ?thesis by simp
qed

text \<open>C26. No wake-up is lost: under every interleaving, once the learner's thread has entered its
  event loop the caller of \<^verbatim>\<open>learner_init_threaded\<close> is not asleep on the condition, and its own steps
  alone, whatever the learner does from then on, take it to the return with 0; and it returns 0 only
  when the learner is ready.\<close>

theorem learner_start_no_lost_wakeup:
  assumes "ready_reach ok s"
  shows "(starter s = S_Returned 0 \<longrightarrow> learner_ready s)
    \<and> (lthread s = L_Loop \<longrightarrow> starter s \<noteq> S_Wait
        \<and> (\<exists>t. (ready_step ok)\<^sup>*\<^sup>* s t \<and> starter t = S_Returned 0 \<and> lthread t = L_Loop))"
proof (intro conjI impI)
  have inv: "ready_inv ok s" by (rule ready_reach_inv [OF assms])
  then show "starter s = S_Returned 0 \<Longrightarrow> learner_ready s" unfolding ready_inv_def by blast
  assume loop: "lthread s = L_Loop"
  with inv show "starter s \<noteq> S_Wait" by (auto simp: ready_inv_def)
  let ?t = "s\<lparr>starter := S_Returned 0, ready_lock := Nobody\<rparr>"
  have ready: "learner_ready s" using inv loop by (simp add: ready_inv_def)
  consider "starter s \<in> {S_Lock, S_Relock}" "ready_lock s = Nobody" | "starter s = S_Test" | "starter s = S_Unlock"
    | "starter s = S_Returned 0"
    using inv loop by (cases "starter s"; cases "ready_lock s") (auto simp: ready_inv_def)
  then have "(ready_step ok)\<^sup>*\<^sup>* s ?t \<or> starter s = S_Returned 0"
  proof cases
    case 3
    then show ?thesis by (blast intro: r_into_rtranclp s_unlock)
  qed (use ready starter_returns [of s ok] starter_returns_testing [of s ok] in blast)+
  with loop show "\<exists>t. (ready_step ok)\<^sup>*\<^sup>* s t \<and> starter t = S_Returned 0 \<and> lthread t = L_Loop"
    by (elim disjE) (rule exI [of _ ?t], simp, rule exI [of _ s], simp)
qed

text \<open>C37. When the learner cannot start (no callback, no event base, or a socket that could not be
  created), its thread ends without setting the flag and without a signal: a caller of
  \<^verbatim>\<open>learner_init_threaded\<close> whose thread was created never returns, under any interleaving.\<close>

theorem learner_failure_hangs_caller:
  assumes "\<not> boot_succeeds (learner_boot K cb eb p)"
    and "ready_reach (boot_succeeds (learner_boot K cb eb p)) s" and "lthread s \<noteq> L_None"
  shows "starter s \<in> {S_Lock, S_Test, S_Wait, S_Relock} \<and> \<not> learner_ready s"
  using ready_reach_inv [OF assms(2)] assms(1,3)
  by (cases "starter s") (auto simp: ready_inv_def)

text \<open>A kernel without multicast: the group membership is refused.\<close>

definition no_multicast_kernel :: "unit kernel" where
  "no_multicast_kernel = \<lparr>k_answer = (\<lambda>c k. (case c of Sys_socket \<Rightarrow> 3 | Sys_add_membership _ _ _ \<Rightarrow> -1 | _ \<Rightarrow> 0, k)),
     O_NONBLOCK = 2048\<rparr>"

lemma wit_no_boot: "\<not> boot_succeeds (learner_boot no_multicast_kernel True True new_process)"
  by (simp add: boot_succeeds_def learner_boot_def learner_libevent_start_def create_udp_sender_def create_udp_socket_def
      set_nonblocking_def sys_def no_multicast_kernel_def INADDR_NONE_def new_process_def Let_def)

definition wit_hung :: ready_state where
  "wit_hung = \<lparr>starter = S_Wait, lthread = L_Exit (-1), learner_ready = False, ready_lock = Nobody\<rparr>"

lemma wit_hung_reach: "ready_reach False wit_hung"
proof -
  let ?s1 = "ready_start\<lparr>starter := S_Lock, lthread := L_Init\<rparr>"
  let ?s2 = "?s1\<lparr>starter := S_Test, ready_lock := Starter\<rparr>"
  let ?s3 = "?s2\<lparr>starter := S_Wait, ready_lock := Nobody\<rparr>"
  have "ready_reach False ?s1" by (rule ready_reach.step [OF ready_reach.start create]) (simp add: ready_start_def)
  then have "ready_reach False ?s2" by (rule ready_reach.step [OF _ s_lock]) (simp_all add: ready_start_def)
  then have "ready_reach False ?s3" by (rule ready_reach.step [OF _ s_wait]) (simp_all add: ready_start_def)
  then have "ready_reach False (?s3\<lparr>lthread := L_Exit (-1)\<rparr>)" by (rule ready_reach.step [OF _ l_fails]) simp_all
  then show ?thesis by (simp add: wit_hung_def ready_start_def)
qed

theorem learner_failure_hangs_caller_witness:
  "\<not> learner_ready wit_hung \<and> starter wit_hung \<in> {S_Lock, S_Test, S_Wait, S_Relock}"
  using learner_failure_hangs_caller [OF wit_no_boot, of wit_hung] wit_no_boot wit_hung_reach
  by (simp add: wit_hung_def)

text \<open>The caller sleeps when the learner's thread sets the flag and signals.\<close>

definition wit_woken :: ready_state where
  "wit_woken = \<lparr>starter = S_Relock, lthread = L_Loop, learner_ready = True, ready_lock = Nobody\<rparr>"

lemma wit_woken_reach: "ready_reach True wit_woken"
proof -
  let ?s1 = "ready_start\<lparr>starter := S_Lock, lthread := L_Init\<rparr>"
  let ?s2 = "?s1\<lparr>starter := S_Test, ready_lock := Starter\<rparr>"
  let ?s3 = "?s2\<lparr>starter := S_Wait, ready_lock := Nobody\<rparr>"
  let ?s4 = "?s3\<lparr>lthread := L_Lock\<rparr>"
  let ?s5 = "?s4\<lparr>lthread := L_Set, ready_lock := Learner_Thread\<rparr>"
  let ?s6 = "?s5\<lparr>lthread := L_Signal, learner_ready := True\<rparr>"
  let ?s7 = "signal_ready ?s6\<lparr>lthread := L_Unlock\<rparr>"
  let ?s8 = "?s7\<lparr>lthread := L_Loop, ready_lock := Nobody\<rparr>"
  have "ready_reach True ?s1" by (rule ready_reach.step [OF ready_reach.start create]) (simp add: ready_start_def)
  then have "ready_reach True ?s2" by (rule ready_reach.step [OF _ s_lock]) (simp_all add: ready_start_def)
  then have "ready_reach True ?s3" by (rule ready_reach.step [OF _ s_wait]) (simp_all add: ready_start_def)
  then have "ready_reach True ?s4" by (rule ready_reach.step [OF _ l_started]) simp_all
  then have "ready_reach True ?s5" by (rule ready_reach.step [OF _ l_lock]) simp_all
  then have "ready_reach True ?s6" by (rule ready_reach.step [OF _ l_set]) simp
  then have "ready_reach True ?s7" by (rule ready_reach.step [OF _ l_signal]) simp
  then have "ready_reach True ?s8" by (rule ready_reach.step [OF _ l_unlock]) simp
  then show ?thesis by (simp add: wit_woken_def ready_start_def signal_ready_def)
qed

theorem learner_start_no_lost_wakeup_witness:
  "\<exists>t. (ready_step True)\<^sup>*\<^sup>* wit_woken t \<and> starter t = S_Returned 0"
  using learner_start_no_lost_wakeup [OF wit_woken_reach] by (auto simp: wit_woken_def)

end
