(* ===== verification/Startup.thy ===== *)
theory Startup
  imports Acceptor_Properties Learner_Start Proposer
begin

text \<open>
  The start of the processes, with the calls the component theories take as parameters: the database
  file, the sockets, libevent. \<open>acceptor_boot\<close> is \<^verbatim>\<open>acceptor_start\<close> up to the event loop (as
  \<open>learner_boot\<close> is \<^verbatim>\<open>learner_init\<close>); it also returns the addresses it left in the static
  \<^verbatim>\<open>sockaddr_in\<close> structures. The theorems: the database file of an acceptor, the groups that connect
  the processes, and what an acceptor knows after it was restarted.
\<close>

section \<open>The acceptor's database file\<close>

text \<open>The conversion \<^verbatim>\<open>%d\<close> of \<^verbatim>\<open>sprintf\<close>.\<close>

fun decimal :: "nat \<Rightarrow> string" where
  "decimal n = (if n < 10 then [char_of (48 + n)] else decimal (n div 10) @ [char_of (48 + n mod 10)])"

declare decimal.simps [simp del]

definition format_d :: "int \<Rightarrow> string" where
  "format_d i = (if i < 0 then CHR ''-'' # decimal (nat (- i)) else decimal (nat i))"

definition acceptor_path :: "int \<Rightarrow> string" where
  "acceptor_path i = ''/tmp/acceptor_'' @ format_d i @ ''.bdb''"

definition path_buffer_size :: int where "path_buffer_size = 30"

lemma length_decimal: "n < 10 ^ Suc k \<Longrightarrow> length (decimal n) \<le> Suc k"
proof (induction k arbitrary: n)
  case 0
  then show ?case by (simp add: decimal.simps [of n])
next
  case (Suc k)
  then have "n div 10 < 10 ^ Suc k" by (simp add: less_mult_imp_div_less)
  from Suc.IH [OF this] show ?case by (simp add: decimal.simps [of n])
qed

lemma digit_of_char: "d < 10 \<Longrightarrow> digit_of (char_of (48 + d)) = d"
  by (simp add: digit_of_def Let_def)

lemma read_digits_append:
  "read_digits b (xs @ ys) n = (case read_digits b xs n of None \<Rightarrow> None | Some m \<Rightarrow> read_digits b ys m)"
  by (induction xs arbitrary: n) auto

text \<open>Reading back what was printed.\<close>

lemma read_decimal: "read_digits 10 (decimal n) 0 = Some n"
proof (induction n rule: decimal.induct)
  case (1 n)
  show ?case
  proof (cases "n < 10")
    case True
    then show ?thesis by (simp add: decimal.simps [of n] digit_of_char)
  next
    case False
    then show ?thesis using 1 by (simp add: decimal.simps [of n] read_digits_append digit_of_char)
  qed
qed

lemma decimal_inj: "decimal m = decimal n \<longleftrightarrow> m = n"
  by (metis read_decimal option.inject)

lemma minus_not_decimal: "CHR ''-'' # s \<noteq> decimal n"
proof
  assume "CHR ''-'' # s = decimal n"
  then have "read_digits 10 (CHR ''-'' # s) 0 = Some n" using read_decimal [of n] by simp
  then show False by (simp add: digit_of_def split: if_splits)
qed

lemma format_d_inj: "format_d i = format_d j \<longleftrightarrow> i = j"
  using minus_not_decimal minus_not_decimal [symmetric]
  by (auto simp: format_d_def decimal_inj)

lemma length_format_d: "in_i32 i \<Longrightarrow> length (format_d i) \<le> 11"
proof -
  assume "in_i32 i"
  then have "nat \<bar>i\<bar> < 10 ^ Suc 9" by (auto simp: in_i32_def)
  then have "length (decimal (nat \<bar>i\<bar>)) \<le> 10" using length_decimal [of "nat \<bar>i\<bar>" 9] by simp
  then show ?thesis by (auto simp: format_d_def abs_if split: if_splits)
qed

text \<open>The path an acceptor prints fits in \<^verbatim>\<open>path_buffer\<close>, its terminating null byte counted,
  for every 32-bit id, negative ones included, and two acceptors on one machine do not share a file:
  starting one never removes the database of the other.\<close>

theorem acceptor_path_fits:
  assumes "in_i32 i"
  shows "int (length (acceptor_path i)) + 1 \<le> path_buffer_size
    \<and> (acceptor_path i = acceptor_path j \<longleftrightarrow> i = j)"
  using length_format_d [OF assms] by (simp add: acceptor_path_def format_d_inj path_buffer_size_def)

theorem acceptor_path_fits_witness:
  "int (length (acceptor_path (- 2147483648))) + 1 \<le> 30 \<and> acceptor_path (- 2147483648) \<noteq> acceptor_path 1"
  using acceptor_path_fits [of "- 2147483648" 1] by (simp add: in_i32_def path_buffer_size_def)

section \<open>Starting an acceptor\<close>

text \<open>
  \<^verbatim>\<open>acceptor_start\<close> up to the event loop, in the order of its calls: the three sockets are all
  created before any of them is tested. \<open>eb\<close> says whether \<^verbatim>\<open>event_init\<close> gave an event base; the
  results of \<^verbatim>\<open>event_add\<close> are not looked at.
\<close>

record addresses =
  learner_net_addr :: sockaddr_in
  proposer_net_addr :: sockaddr_in
  acceptor_net_addr :: sockaddr_in

definition acceptor_libevent_start :: "bool \<Rightarrow> int" where
  "acceptor_libevent_start eb = (if eb then 0 else -1)"

definition acceptor_boot ::
    "'k kernel \<Rightarrow> ('f, 's) bdb_files \<Rightarrow> bool \<Rightarrow> int \<Rightarrow> 'k process \<Rightarrow> 'f
       \<Rightarrow> (int + 's acceptor \<times> addresses) \<times> 'k process \<times> 'f" where
  "acceptor_boot K lib eb i p fs =
     (let (ret, db, fs1) = disk_init_permastorage lib (acceptor_path i) fs
      in case db of
           None \<Rightarrow> (Inl (-1), p, fs1)
         | Some db0 \<Rightarrow>
             (let (lsock, laddr, p1) = create_udp_sender K PAXOS_LEARNERS_NET static_sockaddr p;
                  (psock, paddr, p2) = create_udp_sender K PAXOS_PROPOSERS_NET static_sockaddr p1;
                  (asock, aaddr, p3) = create_udp_socket K PAXOS_ACCEPTORS_NET static_sockaddr p2
              in if lsock < 0 \<or> psock < 0 \<or> asock < 0 then (Inl (-1), p3, fs1)
                 else if acceptor_libevent_start eb < 0 then (Inl (-1), p3, fs1)
                 else (Inr (acceptor_init i db0, \<lparr>learner_net_addr = laddr, proposer_net_addr = paddr,
                              acceptor_net_addr = aaddr\<rparr>), p3, fs1)))"

lemma create_udp_sender_addr:
  "create_udp_sender K grp addr p = (ret, addr', q) \<Longrightarrow> 0 \<le> ret \<Longrightarrow> addr' = group_addr grp"
  using create_udp_sender_correct [of K grp addr p ret addr' q] by (auto simp: Let_def split: if_splits)

lemma create_udp_socket_addr:
  "create_udp_socket K grp addr p = (ret, addr', q) \<Longrightarrow> 0 \<le> ret \<Longrightarrow> addr' = group_addr grp"
  using create_udp_socket_log [of K grp addr p ret addr' q] by (auto simp: Let_def split: if_splits)

text \<open>A start that succeeds leaves a new acceptor on an empty database, whatever was on disk.\<close>

lemma acceptor_boot_state:
  assumes "acceptor_boot K lib eb i p fs = (Inr (st, addrs), p', fs')" and "files_ok (env_db env) lib"
  shows "\<exists>db0. st = acceptor_init i db0 \<and> empty_db env db0"
proof -
  obtain ret db0 fs1 where d: "disk_init_permastorage lib (acceptor_path i) fs = (ret, Some db0, fs1)"
    using assms(1) by (auto simp: acceptor_boot_def Let_def split: prod.splits option.splits)
  then have "ret = 0" using disk_init_result [OF d] by simp
  with d disk_init_empty [OF assms(2)] have "empty_db env db0" by (auto simp: empty_db_def)
  moreover have "st = acceptor_init i db0"
    using assms(1) d by (auto simp: acceptor_boot_def Let_def split: prod.splits if_splits)
  ultimately show ?thesis by blast
qed

lemma acceptor_boot_addresses:
  assumes "acceptor_boot K lib eb i p fs = (Inr (st, addrs), p', fs')"
  shows "addrs = \<lparr>learner_net_addr = group_addr PAXOS_LEARNERS_NET,
      proposer_net_addr = group_addr PAXOS_PROPOSERS_NET, acceptor_net_addr = group_addr PAXOS_ACCEPTORS_NET\<rparr>"
  using assms
  by (auto simp: acceptor_boot_def Let_def dest!: create_udp_sender_addr create_udp_socket_addr
      split: prod.splits if_splits option.splits)

lemma acceptor_boot_fresh:
  assumes "acceptor_boot K lib eb i p fs = (Inr (st, addrs), p', fs')" and "files_ok (env_db env) lib" and "in_i32 i"
  shows "acc_inv env st \<and> known env st = (\<lambda>_. None) \<and> slot st n = static_record"
proof -
  obtain db0 where s: "st = acceptor_init i db0" "empty_db env db0"
    using acceptor_boot_state [OF assms(1,2)] by blast
  then show ?thesis using acc_inv_init [OF s(2) assms(3)]
    by (simp add: known_def fun_eq_iff empty_db_def acceptor_init_def slot_def)
qed

section \<open>A concrete start for the witnesses\<close>

lemma good_sender:
  "inet_addr (fst grp) = 0x010000EF \<Longrightarrow> create_udp_sender good_kernel grp a p =
    (3, group_addr grp, p\<lparr>p_calls := p_calls p @ [(Sys_socket, 3), (Sys_getfl 3, 0), (Sys_setfl 3 2048, 0)]\<rparr>)"
  by (simp add: create_udp_sender_def set_nonblocking_def sys_good Let_def INADDR_NONE_def group_addr_def
      static_sockaddr_def)

lemma good_receiver:
  "inet_addr (fst grp) = 0x010000EF \<Longrightarrow> fst (create_udp_socket good_kernel grp a p) = 3"
  by (simp add: create_udp_socket_def set_nonblocking_def sys_good Let_def INADDR_NONE_def)

lemma wit_acceptor_boot:
  "\<exists>st ad p' fs'. acceptor_boot good_kernel map_files True i p fs = (Inr (st, ad), p', fs')"
  using good_receiver [of PAXOS_ACCEPTORS_NET static_sockaddr]
  by (cases "fst (create_udp_socket good_kernel PAXOS_ACCEPTORS_NET static_sockaddr p)")
    (simp_all add: acceptor_boot_def acceptor_libevent_start_def disk_init_permastorage_def map_files_def good_sender
      Let_def case_prod_beta)

section \<open>The groups connect the processes\<close>

text \<open>The receiving socket of the leader, and the sending socket of a proposer.\<close>

definition leader_sock_boot ::
    "'k kernel \<Rightarrow> bool \<Rightarrow> int \<Rightarrow> 'k process \<Rightarrow> leader \<Rightarrow> leader \<times> sockaddr_in \<times> 'k process" where
  "leader_sock_boot K is_leader event_ret p st =
     (if \<not> is_leader then (st, static_sockaddr, p)
      else (let (sock, addr, p1) = create_udp_socket K PAXOS_PROPOSERS_NET static_sockaddr p
            in (register_leader_sock is_leader sock event_ret st, addr, p1)))"

definition proposer_boot ::
    "'k kernel \<Rightarrow> int \<Rightarrow> int \<Rightarrow> bool \<Rightarrow> 'k process \<Rightarrow> proposer \<Rightarrow> int \<times> proposer \<times> sockaddr_in \<times> 'k process" where
  "proposer_boot K mutex_ret prop_id is_leader p st =
     (if mutex_ret \<noteq> 0
      then (let (ret, st1) = proposer_init mutex_ret 0 prop_id is_leader st in (ret, st1, static_sockaddr, p))
      else (let (sock, addr, p1) = create_udp_sender K PAXOS_ACCEPTORS_NET static_sockaddr p;
                (ret, st1) = proposer_init mutex_ret sock prop_id is_leader st
            in (ret, st1, addr, p1)))"

lemma learner_boot_addresses:
  assumes "learner_boot K cb eb p = (Inr (st, addrs), p')"
  shows "st = learner_start \<and> lear_net_addr addrs = group_addr PAXOS_LEARNERS_NET
    \<and> lear_acceptor_net_addr addrs = group_addr PAXOS_ACCEPTORS_NET"
  using assms
  by (auto simp: learner_boot_def learner_libevent_start_def Let_def
      dest!: create_udp_sender_addr create_udp_socket_addr split: prod.splits if_splits)

lemma leader_sock_boot_address:
  assumes "leader_sock_boot K is_leader event_ret p st = (st', addr, p')" and "\<not> leader_listening st"
    and "leader_listening st'"
  shows "addr = group_addr PAXOS_PROPOSERS_NET"
  using assms
  by (auto simp: leader_sock_boot_def register_leader_sock_def Let_def
      dest!: create_udp_socket_addr split: prod.splits if_splits)

lemma proposer_boot_address:
  assumes "proposer_boot K mutex_ret prop_id is_leader p st = (0, st', addr, p')"
  shows "addr = group_addr PAXOS_ACCEPTORS_NET"
  using assms
  by (auto simp: proposer_boot_def proposer_init_def Let_def
      dest!: create_udp_sender_addr split: prod.splits if_splits)

lemma groups_distinct:
  "group_addr PAXOS_LEARNERS_NET \<noteq> group_addr PAXOS_ACCEPTORS_NET"
  "group_addr PAXOS_LEARNERS_NET \<noteq> group_addr PAXOS_PROPOSERS_NET"
  "group_addr PAXOS_ACCEPTORS_NET \<noteq> group_addr PAXOS_PROPOSERS_NET"
  by (simp_all add: group_addr_def htons_def PAXOS_LEARNERS_NET_def PAXOS_ACCEPTORS_NET_def PAXOS_PROPOSERS_NET_def)

text \<open>C27. When the processes have started, on whatever machines, every sender's address is the one
  its receivers are bound to: acceptors send learns where learners listen and promises where the
  leader listens, learners and proposers send where acceptors listen, and the three groups are
  different addresses.\<close>

theorem groups_connect:
  assumes "acceptor_boot K lib eb i p fs = (Inr (acc, addrs), p', fs')"
    and "learner_boot K1 cb eb1 p1 = (Inr (lea, laddrs), p1')"
    and "proposer_boot K2 mutex_ret prop_id is_leader p2 pr = (0, pr', paddr, p2')"
    and "leader_sock_boot K3 leads event_ret p3 ld = (ld', baddr, p3')"
    and "\<not> leader_listening ld" and "leader_listening ld'"
  shows "learner_net_addr addrs = lear_net_addr laddrs \<and> proposer_net_addr addrs = baddr
    \<and> lear_acceptor_net_addr laddrs = acceptor_net_addr addrs \<and> paddr = acceptor_net_addr addrs
    \<and> distinct [lear_net_addr laddrs, acceptor_net_addr addrs, baddr]"
  using acceptor_boot_addresses [OF assms(1)] learner_boot_addresses [OF assms(2)]
    proposer_boot_address [OF assms(3)] leader_sock_boot_address [OF assms(4-6)] groups_distinct
  by simp

lemma wit_learner_boot: "\<exists>st ad p'. learner_boot good_kernel True True p = (Inr (st, ad), p')"
  by (simp add: learner_boot_def learner_libevent_start_def good_sender good_receiver Let_def case_prod_beta)

lemma wit_proposer_boot:
  "\<exists>st ad p'. proposer_boot good_kernel 0 1 False p proposer_static = (0, st, ad, p')"
  by (simp add: proposer_boot_def proposer_init_def good_sender Let_def)

lemma wit_leader_boot:
  "\<exists>st ad p'. leader_sock_boot good_kernel True 0 p leader_static = (st, ad, p') \<and> leader_listening st"
  by (simp add: leader_sock_boot_def register_leader_sock_def good_receiver Let_def case_prod_beta)

theorem groups_connect_witness:
  "\<exists>(addrs :: addresses) (laddrs :: learner_addresses). distinct [lear_net_addr laddrs, acceptor_net_addr addrs, proposer_net_addr addrs]
     \<and> learner_net_addr addrs = lear_net_addr laddrs \<and> lear_acceptor_net_addr laddrs = acceptor_net_addr addrs"
proof -
  obtain acc ad p' fs' where a: "acceptor_boot good_kernel map_files True 1 new_process Map.empty = (Inr (acc, ad), p', fs')"
    using wit_acceptor_boot by blast
  obtain lea lad q where l: "learner_boot good_kernel True True new_process = (Inr (lea, lad), q)"
    using wit_learner_boot by blast
  obtain pr pad r where p: "proposer_boot good_kernel 0 1 False new_process proposer_static = (0, pr, pad, r)"
    using wit_proposer_boot by blast
  obtain ld bad s where b: "leader_sock_boot good_kernel True 0 new_process leader_static = (ld, bad, s)"
    "leader_listening ld"
    using wit_leader_boot by blast
  have "\<not> leader_listening leader_static" by (simp add: leader_static_def)
  from groups_connect [OF a l p b(1) this b(2)] show ?thesis
    by - (rule exI [of _ ad], rule exI [of _ lad], simp)
qed

section \<open>A restart\<close>

text \<open>C35. An acceptor keeps no promise over a restart: \<^verbatim>\<open>disk_init_permastorage\<close> removes the database
  before it opens it, so that the acceptor which, having promised a ballot, refused an accept below
  it, accepts that very message after it was started again, whatever the file system held.\<close>

theorem restart_forgets_promise:
  assumes env: "env_ok env" "files_ok (env_db env) lib" and i: "in_i32 i"
    and first: "acceptor_boot K lib eb i p fs = (Inr (st, addrs), p', fs')"
    and again: "acceptor_boot K' lib eb' i q gs = (Inr (st', addrs'), q', gs')"
    and m: "accept_msg_ok m" "min_ballot \<le> acm_ballot m" "acm_ballot m < b" "in_i32 b"
  defines "promised \<equiv> snd (handle_prepare_batch env [\<lparr>pm_iid = acm_iid m, pm_ballot = b\<rparr>] st)"
  shows "map fl_ballot (case known env promised (acm_iid m) of None \<Rightarrow> [] | Some f \<Rightarrow> [f]) = [b]
    \<and> refuses env promised (snd (handle_accept env m promised))
    \<and> accepts env m st' (snd (handle_accept env m st'))"
proof -
  note old = acceptor_boot_fresh [OF first env(2) i] and new = acceptor_boot_fresh [OF again env(2) i]
  let ?m = "\<lparr>pm_iid = acm_iid m, pm_ballot = b\<rparr>"
  have ok: "prepare_ok ?m" using m by (simp add: prepare_ok_def accept_msg_ok_def min_ballot_def c_simps)
  have inv: "acc_inv env promised" "known env promised = prepare_spec ?m (known env st)"
    using handle_prepare_batch_out [of "[?m]" env st] env(1) old ok by (simp_all add: promised_def)
  then have k: "known env promised (acm_iid m) = Some (any_flat (acm_iid m) b)"
    using old by (simp add: prepare_spec_def prepare_flat_def any_flat_def)
  have "slot st (acm_iid m) = static_record" using old by simp
  then have "\<not> sees_any env promised (acm_iid m)"
    using prepare_batch_slot [of st ?m env] m(1)
    by (simp add: sees_any_def static_record_def promised_def accept_msg_ok_def valid_iid_def)
  then have "\<not> accept_ok (sees_any env promised (acm_iid m)) m (known env promised)"
    using k m(3) by (simp add: accept_ok_def any_flat_def)
  moreover have "accept_ok (sees_any env st' (acm_iid m)) m (known env st')"
    using new m(2) by (simp add: accept_ok_def)
  ultimately show ?thesis
    using handle_accept_out [OF inv(1) env(1) m(1)] handle_accept_out [OF _ env(1) m(1), of st'] new k
    by (simp add: any_flat_def)
qed

theorem restart_forgets_promise_witness:
  "\<exists>st st' :: (32 word \<Rightarrow> flat_record option) acceptor. refuses wit_env st (snd (handle_accept wit_env wit_accept st))
     \<and> accepts wit_env wit_accept st' (snd (handle_accept wit_env wit_accept st'))"
proof -
  obtain st ad p fs where a: "acceptor_boot good_kernel map_files True 1 new_process Map.empty = (Inr (st, ad), p, fs)"
    using wit_acceptor_boot by blast
  obtain st' ad' p' fs' where b: "acceptor_boot good_kernel map_files True 1 p fs = (Inr (st', ad'), p', fs')"
    using wit_acceptor_boot by blast
  have "files_ok (env_db wit_env) map_files" "in_i32 1" "in_i32 31" "min_ballot \<le> acm_ballot wit_accept" "acm_ballot wit_accept < 31"
    by (simp_all add: wit_env_def in_i32_def wit_accept_def min_ballot_def c_simps)
  from restart_forgets_promise [OF wit_env_ok this(1,2) a b wit_accept_ok this(4,5,3)] show ?thesis by blast
qed

section \<open>A proposer that starts late\<close>

text \<open>
  \<^verbatim>\<open>proposer_init\<close> starts the learner's thread before it sets \<^verbatim>\<open>current_iid\<close>. \<open>early\<close> are the
  deliveries the thread makes in between, when \<^verbatim>\<open>proposer_id\<close> and \<^verbatim>\<open>leader\<close> are set already.
\<close>

definition proposer_init_racing ::
    "delivery list \<Rightarrow> int \<Rightarrow> int \<Rightarrow> int \<Rightarrow> bool \<Rightarrow> proposer \<Rightarrow> (int \<times> proposer) option" where
  "proposer_init_racing early mutex_ret sock prop_id is_leader st =
     map_option (proposer_init mutex_ret sock prop_id is_leader)
       (ofold proposer_deliver_callback early
          (st\<lparr>prop_is_leader := is_leader \<or> prop_is_leader st, prop_proposer_id := prop_id\<rparr>))"

lemma proposer_init_no_race:
  "proposer_init_racing [] mutex_ret sock prop_id is_leader st = Some (proposer_init mutex_ret sock prop_id is_leader st)"
  by (simp add: proposer_init_racing_def proposer_init_def Let_def)

lemma idle_callback:
  assumes "\<not> client_waiting st" and "prop_current_iid st = dl_iid d" and "0 \<le> dl_iid d" "dl_iid d < 2147483647"
  shows "\<exists>st'. proposer_deliver_callback d st = Some st' \<and> \<not> client_waiting st' \<and> prop_current_iid st' = dl_iid d + 1"
  using assms by (simp add: proposer_deliver_callback_def Let_def)

lemma idle_callbacks:
  assumes "map dl_iid ds = [i..i + int (length ds) - 1]" and "\<not> client_waiting st" and "prop_current_iid st = i"
    and "0 \<le> i" and "i + int (length ds) \<le> 2147483647"
  shows "\<exists>st'. ofold proposer_deliver_callback ds st = Some st'"
  using assms
proof (induction ds arbitrary: i st)
  case (Cons d ds)
  have "[i..i + int (length (d # ds)) - 1] = i # [i + 1..i + int (length (d # ds)) - 1]" by (simp add: upto_rec1)
  then have d: "dl_iid d = i" "map dl_iid ds = [i + 1..i + 1 + int (length ds) - 1]"
    using Cons.prems(1) by simp_all
  obtain st1 where st1: "proposer_deliver_callback d st = Some st1" "\<not> client_waiting st1" "prop_current_iid st1 = i + 1"
    using idle_callback [of st d] Cons.prems d(1) by auto
  have "\<exists>st'. ofold proposer_deliver_callback ds st1 = Some st'"
    using Cons.prems by (intro Cons.IH [OF d(2) st1(2,3)]) simp_all
  then show ?case using st1(1) by auto
qed simp

text \<open>C36. A proposer started in a running system can abort: deliveries made by the learner's thread
  before \<^verbatim>\<open>proposer_init\<close> assigns \<^verbatim>\<open>current_iid\<close> are forgotten by that assignment, the start
  succeeds, and the assertion of the delivery callback fails at the next instance delivered.\<close>

theorem late_start_aborts:
  assumes "map dl_iid early = [0..int (length early) - 1]" and "early \<noteq> []" and "int (length early) \<le> 2147483647"
    and "0 \<le> sock" and nxt: "dl_iid d = int (length early)"
  shows "\<exists>p. proposer_init_racing early 0 sock prop_id False proposer_static = Some (0, p)
    \<and> proposer_deliver_callback d p = None"
proof -
  let ?st = "proposer_static\<lparr>prop_is_leader := False, prop_proposer_id := prop_id\<rparr>"
  have "\<not> client_waiting ?st" "prop_current_iid ?st = 0" by (simp_all add: proposer_static_def)
  then obtain st1 where "ofold proposer_deliver_callback early ?st = Some st1"
    using idle_callbacks [of early 0 ?st] assms(1,3) by auto
  then show ?thesis
    using assms(2,4) nxt
    by (simp add: proposer_init_racing_def proposer_init_def proposer_deliver_callback_def proposer_static_def Let_def)
qed

theorem late_start_aborts_witness:
  "\<exists>p. proposer_init_racing [\<lparr>dl_value = [65], dl_size = 1, dl_iid = 0, dl_ballot = 11, dl_proposer = 1\<rparr>] 0 3 2 False
      proposer_static = Some (0, p)
    \<and> proposer_deliver_callback \<lparr>dl_value = [66], dl_size = 1, dl_iid = 1, dl_ballot = 11, dl_proposer = 1\<rparr> p = None"
  by (rule late_start_aborts) simp_all

end
