(* ===== verification/Configurations.thy ===== *)
theory Configurations
  imports Udp
begin

text \<open>
  The three configurations in the repository: \<^verbatim>\<open>config.h\<close>, which the other theories use, and its
  alternatives \<^verbatim>\<open>config_highspeed.h\<close> and \<^verbatim>\<open>config_slow_debug.h\<close>, as values of one record with a field
  per macro. The header comments state what the sizes must satisfy; the theorem is what the leader
  needs of them.
\<close>

record configuration =
  c_N_OF_ACCEPTORS :: int
  c_MAX_PROPOSERS :: int
  c_LEARNER_LSYNC_INTERVAL :: int
  c_PROMISE_TIMEOUT :: int
  c_ACCEPT_TIMEOUT :: int
  c_LEADER_P2_TIMEOUT :: int
  c_PAXOS_ACCEPTOR_FORCE_DISK_FLUSH :: int
  c_PROPOSER_PREEXEC_WIN_SIZE :: int
  c_ACCEPTOR_ARRAY_SIZE :: int
  c_LEARNER_ARRAY_SIZE :: int
  c_PROPOSER_ARRAY_SIZE :: int
  c_PAXOS_LEARNERS_NET :: "string \<times> int"
  c_PAXOS_ACCEPTORS_NET :: "string \<times> int"
  c_PAXOS_PROPOSERS_NET :: "string \<times> int"
  c_VERBOSITY_LEVEL :: int

definition config_h :: configuration where
  "config_h = \<lparr>c_N_OF_ACCEPTORS = N_OF_ACCEPTORS, c_MAX_PROPOSERS = MAX_PROPOSERS,
     c_LEARNER_LSYNC_INTERVAL = LEARNER_LSYNC_INTERVAL, c_PROMISE_TIMEOUT = PROMISE_TIMEOUT,
     c_ACCEPT_TIMEOUT = ACCEPT_TIMEOUT, c_LEADER_P2_TIMEOUT = LEADER_P2_TIMEOUT,
     c_PAXOS_ACCEPTOR_FORCE_DISK_FLUSH = PAXOS_ACCEPTOR_FORCE_DISK_FLUSH,
     c_PROPOSER_PREEXEC_WIN_SIZE = PROPOSER_PREEXEC_WIN_SIZE, c_ACCEPTOR_ARRAY_SIZE = ACCEPTOR_ARRAY_SIZE,
     c_LEARNER_ARRAY_SIZE = LEARNER_ARRAY_SIZE, c_PROPOSER_ARRAY_SIZE = PROPOSER_ARRAY_SIZE,
     c_PAXOS_LEARNERS_NET = PAXOS_LEARNERS_NET, c_PAXOS_ACCEPTORS_NET = PAXOS_ACCEPTORS_NET,
     c_PAXOS_PROPOSERS_NET = PAXOS_PROPOSERS_NET, c_VERBOSITY_LEVEL = VERBOSITY_LEVEL\<rparr>"

definition config_highspeed_h :: configuration where
  "config_highspeed_h = \<lparr>c_N_OF_ACCEPTORS = 3, c_MAX_PROPOSERS = 10, c_LEARNER_LSYNC_INTERVAL = 100,
     c_PROMISE_TIMEOUT = 20, c_ACCEPT_TIMEOUT = 20, c_LEADER_P2_TIMEOUT = 40,
     c_PAXOS_ACCEPTOR_FORCE_DISK_FLUSH = 0, c_PROPOSER_PREEXEC_WIN_SIZE = 256,
     c_ACCEPTOR_ARRAY_SIZE = 2048, c_LEARNER_ARRAY_SIZE = 1024, c_PROPOSER_ARRAY_SIZE = 1024,
     c_PAXOS_LEARNERS_NET = (''239.0.0.1'', 6001), c_PAXOS_ACCEPTORS_NET = (''239.0.0.1'', 6002),
     c_PAXOS_PROPOSERS_NET = (''239.0.0.1'', 6003), c_VERBOSITY_LEVEL = 0\<rparr>"

definition config_slow_debug_h :: configuration where
  "config_slow_debug_h = \<lparr>c_N_OF_ACCEPTORS = 3, c_MAX_PROPOSERS = 10, c_LEARNER_LSYNC_INTERVAL = 5000,
     c_PROMISE_TIMEOUT = 2000, c_ACCEPT_TIMEOUT = 2000, c_LEADER_P2_TIMEOUT = 3000,
     c_PAXOS_ACCEPTOR_FORCE_DISK_FLUSH = 0, c_PROPOSER_PREEXEC_WIN_SIZE = 5,
     c_ACCEPTOR_ARRAY_SIZE = 1024, c_LEARNER_ARRAY_SIZE = 512, c_PROPOSER_ARRAY_SIZE = 512,
     c_PAXOS_LEARNERS_NET = (''239.0.0.1'', 6001), c_PAXOS_ACCEPTORS_NET = (''239.0.0.1'', 6002),
     c_PAXOS_PROPOSERS_NET = (''239.0.0.1'', 6003), c_VERBOSITY_LEVEL = 4\<rparr>"

lemmas configurations = config_h_def config_highspeed_h_def config_slow_debug_h_def timer_defs

definition shipped :: "configuration list" where
  "shipped = [config_h, config_highspeed_h, config_slow_debug_h]"

text \<open>The sizes of the three rings are powers of two, as the comments ask.\<close>

lemma shipped_power_of_two:
  assumes "c \<in> set shipped"
  shows "\<exists>k. c_PROPOSER_ARRAY_SIZE c = 2 ^ k" "\<exists>k. c_LEARNER_ARRAY_SIZE c = 2 ^ k"
    "\<exists>k. c_ACCEPTOR_ARRAY_SIZE c = 2 ^ k"
  using assms unfolding shipped_def
  by (auto simp: configurations c_simps intro: exI [of _ 9] exI [of _ 10] exI [of _ 11])

text \<open>The comment of \<^verbatim>\<open>ACCEPTOR_ARRAY_SIZE\<close>: at least ten times the window.\<close>

definition acceptor_array_as_documented :: "configuration \<Rightarrow> bool" where
  "acceptor_array_as_documented c \<longleftrightarrow> 10 * c_PROPOSER_PREEXEC_WIN_SIZE c \<le> c_ACCEPTOR_ARRAY_SIZE c"

text \<open>C29. In each of the three configurations a window of instances that phase 1 opens at once, its
  inclusive upper end counted, has a slot of its own for every instance in the leader's, the
  learners' and the acceptors' ring, and both the prepare batch and the any message for the whole
  window, with room for the next entry, fit in one datagram, so that neither is split. The
  acceptors' ring has the documented tenfold size in all but the high-speed configuration.\<close>

theorem window_fits:
  assumes c: "c \<in> set shipped" and i: "lo \<le> i" "i \<le> lo + c_PROPOSER_PREEXEC_WIN_SIZE c"
    and j: "lo \<le> j" "j \<le> lo + c_PROPOSER_PREEXEC_WIN_SIZE c" and ne: "i \<noteq> j"
    and n: "int (length ms) = c_PROPOSER_PREEXEC_WIN_SIZE c + 2" "length ids = length ms"
  shows "ring_index (c_PROPOSER_ARRAY_SIZE c) i \<noteq> ring_index (c_PROPOSER_ARRAY_SIZE c) j
    \<and> ring_index (c_LEARNER_ARRAY_SIZE c) i \<noteq> ring_index (c_LEARNER_ARRAY_SIZE c) j
    \<and> ring_index (c_ACCEPTOR_ARRAY_SIZE c) i \<noteq> ring_index (c_ACCEPTOR_ARRAY_SIZE c) j
    \<and> int (length (encode_packet (Prepare_Batch ms))) \<le> MAX_UDP_MSG_SIZE
    \<and> int (length (encode_packet (Anyval b ids))) \<le> MAX_UDP_MSG_SIZE
    \<and> (acceptor_array_as_documented c \<longleftrightarrow> c \<noteq> config_highspeed_h)"
proof -
  have win: "c_PROPOSER_PREEXEC_WIN_SIZE c \<le> 256" "c_PROPOSER_PREEXEC_WIN_SIZE c < c_PROPOSER_ARRAY_SIZE c"
    "c_PROPOSER_PREEXEC_WIN_SIZE c < c_LEARNER_ARRAY_SIZE c" "c_PROPOSER_PREEXEC_WIN_SIZE c < c_ACCEPTOR_ARRAY_SIZE c"
    using c by (auto simp: shipped_def configurations c_simps)
  have slots: "ring_index sz i \<noteq> ring_index sz j" if "sz = 2 ^ k" "c_PROPOSER_PREEXEC_WIN_SIZE c < sz" for sz k
    using ring_index_window [of k i j lo] that i j ne by auto
  have "ring_index (c_PROPOSER_ARRAY_SIZE c) i \<noteq> ring_index (c_PROPOSER_ARRAY_SIZE c) j"
    "ring_index (c_LEARNER_ARRAY_SIZE c) i \<noteq> ring_index (c_LEARNER_ARRAY_SIZE c) j"
    "ring_index (c_ACCEPTOR_ARRAY_SIZE c) i \<noteq> ring_index (c_ACCEPTOR_ARRAY_SIZE c) j"
    using shipped_power_of_two [OF c] slots win by blast+
  moreover have "acceptor_array_as_documented c \<longleftrightarrow> c \<noteq> config_highspeed_h"
    using c by (auto simp: shipped_def configurations c_simps acceptor_array_as_documented_def)
  ultimately show ?thesis using n win(1) by (simp add: packet_sizes c_simps)
qed

theorem window_fits_witness:
  "ring_index 1024 (1000::int) \<noteq> ring_index 1024 1256 \<and> \<not> acceptor_array_as_documented config_highspeed_h"
proof -
  have "config_highspeed_h \<in> set shipped" by (simp add: shipped_def)
  from window_fits [OF this, of 1000 1000 1256 "replicate 258 \<lparr>pm_iid = 0, pm_ballot = 0\<rparr>" "replicate 258 0"]
  show ?thesis by (simp add: config_highspeed_h_def)
qed

end
