(* ===== verification/Spec2Isabelle.thy ===== *)
theory Spec2Isabelle
  imports Recovery Submission_Race Delivery_Loop Wire_Typing Startup Configurations
begin

text \<open>
  A verification development of libfastpaxos, a Fast Paxos atomic broadcast over UDP multicast
  (\<^verbatim>\<open>src/lib\<close>, \<^verbatim>\<open>src/common\<close>, \<^verbatim>\<open>src/include\<close>). Proposers submit values for consecutive
  instances; a leader runs phase 1 ahead of time for a window of instances and, where the promises
  report no value, sends an any message that lets the acceptors accept the first value a proposer
  sends them directly; learners deliver an instance when a quorum of acceptors reports one ballot
  for it. Each process is an event loop around one set of static variables, so every component is
  a record of those variables and one definition per function, and messages are values of the
  datatype \<open>packet\<close>.

  \<^bold>\<open>Theories and code.\<close>

  \<^item> \<open>Prelude\<close>: C's \<^verbatim>\<open>int\<close> (\<open>i32\<close>, with the wrap-around written out), conversion to \<^verbatim>\<open>size_t\<close>, the
    ring index of the three instance arrays, loops that may crash (\<open>ofold\<close>).
  \<^item> \<open>Config\<close>: \<^verbatim>\<open>config.h\<close>, the index macros, the quorum formula; the locale \<open>quorum_system\<close>
    (any three quorums meet), interpreted on the quorum the code computes.
  \<^item> \<open>Wire\<close>: the message structs of \<^verbatim>\<open>libpaxos_priv.h\<close>, their bytes, the reads a receiver does in
    its static buffer, \<^verbatim>\<open>udp_send\<close> of \<^verbatim>\<open>paxos_udp.c\<close>; what is written is read back, whatever an
    earlier datagram left in the buffer.
  \<^item> \<open>Permastorage\<close>: \<^verbatim>\<open>acceptor_disk_helpers.c\<close> over a database that is a parameter (Berkeley DB is
    not part of the source); the locale \<open>record_store\<close>, interpreted on the helpers.
  \<^item> \<open>Acceptor\<close>: all of \<^verbatim>\<open>acceptor.c\<close>. \<open>Acceptor_Correct\<close> relates the record array and the
    database to one abstract map from instances to records (\<open>known\<close>) and refines the prepare
    handlers to a step on it; \<open>Acceptor_Accept\<close> does the same for accept, any and sync messages and
    for the event loop (\<open>acceptor_reach\<close>); \<open>Acceptor_Properties\<close> has the theorems.
  \<^item> \<open>Learner\<close>: all of \<^verbatim>\<open>learner.c\<close>. \<open>Learner_Correct\<close> has the invariant over the set of messages
    received so far, \<open>Learner_Properties\<close> delivery and agreement, \<open>Learner_Sync\<close> retransmission and
    packets.
  \<^item> \<open>Leader\<close>: all of \<^verbatim>\<open>leader.c\<close>. \<open>Leader_Correct\<close> gives the effect of the two phase 1 loops in one
    step, \<open>Leader_Invariant\<close> what slots and datagrams look like, \<open>Leader_Phase1\<close> and
    \<open>Leader_Phase2\<close> what the two phases send, \<open>Leader_Run\<close> the step relation \<open>leader_reach\<close> and its
    invariant, \<open>Leader_Properties\<close> the theorems.
  \<^item> \<open>Proposer\<close>: all of \<^verbatim>\<open>proposer.c\<close>. The critical section of \<^verbatim>\<open>proposer_submit_value\<close> is one step, the
    statements behind it (\<open>submit_tail\<close>) are one step each (\<open>submit_step\<close>), the copy of the value one per byte, and the
    callbacks of the event loop run between any two of these (\<open>proposer_step\<close>), one step each; the theory says
    why a callback may be one step. \<open>submit_send\<close> is the statements without interruption. What a send hands to the
    socket is kept as bytes (\<open>prop_wire\<close>). \<open>Proposer_Correct\<close> has the locale \<open>ordered_delivery\<close>, the contract the
    proposer's assertion relies on, interpreted on the learner, and the invariants;
    \<open>Proposer_Properties\<close> the theorems.
  \<^item> \<open>Udp\<close>: the rest of \<^verbatim>\<open>paxos_udp.c\<close>, the creation of sockets, over a kernel that answers system calls.
  \<^item> \<open>Learner_Start\<close>: \<^verbatim>\<open>learner_init\<close> with its sockets, and the two threads of \<^verbatim>\<open>learner_init_threaded\<close>
    with their ready condition as the step relation \<open>ready_step\<close>. \<open>Startup\<close>: the starts of the
    acceptor, the leader's socket and the proposer, from the database file to the addresses.
  \<^item> \<open>Configurations\<close>: \<^verbatim>\<open>config.h\<close>, \<^verbatim>\<open>config_highspeed.h\<close> and \<^verbatim>\<open>config_slow_debug.h\<close> as values of a record.
  \<^item> \<open>Delivery_Loop\<close>: the delivery loop as a loop that might not return, and that it does.
    \<open>Wire_Typing\<close>: whatever is read from the network has its C types and is what the bytes encode.
  \<^item> \<open>Agreement\<close> and this theory: acceptors, learners and proposers put together. \<open>Fast_Path\<close>:
    agreement for the code of acceptors and learners while an instance is opened once, after its prepares; it shows
    that the acceptors' code discharges the hypotheses of the learners' agreement theorem.
    \<open>Proposer_Values\<close> shows that a proposer without the submission race sends one value per instance,
    \<open>System_Agreement\<close> puts proposers, acceptors and learners together, \<open>Submission_Race\<close> shows that
    the race breaks their agreement.
    \<open>Collision\<close>: how agreement is lost when a prepare follows a collision. \<open>Learner_Votes\<close>: a round
    of reports seen by a learner. \<open>End_To_End\<close>: every process from its start to the first delivery.
    \<open>Recovery\<close>: the round that decides an instance without progress.

  \<^bold>\<open>How the C is read.\<close> A pointer into a static array is the slot's index; a buffer that is sent is
  the message it holds with the byte count handed to \<^verbatim>\<open>sendto\<close>. A null dereference, a failed
  assertion and an access outside an array are \<open>None\<close>, with one exception: the learner's unchecked copy of a value
  of more than \<^verbatim>\<open>PAXOS_MAX_VALUE_SIZE\<close> bytes into \<^verbatim>\<open>deliver_buffer\<close> (\<open>deliver_one\<close>) delivers the value; a return code is returned as a number.
  Signed overflow wraps. The answers of system calls, the database, and the contents of fresh
  \<^verbatim>\<open>malloc\<close> blocks are parameters. \<^verbatim>\<open>malloc\<close> is taken to succeed, also for zero bytes. The log macros
  and \<^verbatim>\<open>printf\<close> have no counterpart. A read of a value that would leave the receive buffer, which a
  damaged packet can provoke, is \<open>None\<close> for the whole packet; the value of a promise that reports none is not read.
  Threads see each other's writes in their order.

  \<^bold>\<open>What is shown.\<close> For the acceptor: in every reachable state array and disk agree and what is sent
  is well formed; each handler is an abstract step on the recorded instances. For the learner:
  whatever arrives, deliveries are the instances from 0 in order, each backed by a quorum at one ballot
  (of learn messages of which one carried the value: ballots are all the learner compares), nothing
  decided is held back, and on the fast path two learners agree. For the leader: every slot's ballot
  is the leader's own, promises are counted once, a finished instance had a quorum of promises,
  phase 2 proposes the value of the highest ballot reported. For the proposer: under every
  interleaving of the client's statements with the callbacks a datagram it sends is empty, or dropped by the acceptors'
  size check, or a well-formed accept of its own id and ballot, its assertion cannot fail with this learner once
  \<^verbatim>\<open>proposer_init\<close> has returned, and only its own value wakes the client. Together: from the start of every
  process the failure-free fast path delivers the submitted value and wakes the client; as long as
  an instance below \<^verbatim>\<open>ACCEPTOR_ARRAY_SIZE\<close> is prepared only before it is opened, and opened once, and no callback runs
  inside a submission, the learners agree on these instances, on values that were submitted, whatever the network does to
  accepts and learns; and an instance
  without progress is decided by one round of the leader. The start-up connects every sender to its
  receivers, socket creation checks every call, and no wake-up of the learner's start is lost.

  A second group of theorems shows where the code departs from the protocol or from its comments:
  an any message erases an accepted value, so that one repeated datagram makes two learners deliver
  different values; the any flag outlives promises; sync replies present promises as votes; one any
  message carries the highest ballot of its batch; a standby leader aborts; retries stop after a
  collision; a submission that races with a delivery sends two values at one ballot, and learners
  deliver different ones; a delivery while the value is being copied sends a value that nobody submitted, part
  new and part old; after a collision sync replies make two learners deliver different values;
  a restarted acceptor has forgotten its promises; a proposer that starts late can abort; a failed
  start of the learner's thread hangs its caller.

  \<^bold>\<open>Bounds.\<close> The learner's theorems take instance ids up to 2147483135, where \<^verbatim>\<open>highest_delivered +
  LEARNER_ARRAY_SIZE\<close> still fits an \<^verbatim>\<open>int\<close>. The leader's take at most 40000000 events: a ballot grows by
  10 and the window by 51 per event, so that both stay in range. The proposer's take fewer than
  2147483000 steps other than the statements of a submission, the bound of its hash counter. The delivery loop is a total function: each
  round frees a closed slot.

  \<^bold>\<open>Not modelled.\<close> The registration of events with libevent (library calls that only arm what the
  step relations may fire at any time), the branches of \<^verbatim>\<open>disk_init_permastorage\<close> that the preprocessor
  removes, the header \<^verbatim>\<open>paxos_udp.h\<close> and the functions \<^verbatim>\<open>libpaxos.h\<close> declares as not implemented, the
  test programs and scripts, and timing: a timer is an event that may fire in any state in which it
  is set.
\<close>

section \<open>The fast path\<close>

text \<open>The accept a proposer sends is below every acceptor's minimal ballot: an acceptor that has
  no any flag set for the instance refuses it, whatever it recorded.\<close>

theorem proposer_accept_needs_any:
  assumes "proposer_reach pid n (pc, p)" and "good_id pid n"
    and "(net, sz, Accept m) \<in> set (prop_sent p)" and "0 < sz"
    and "acc_inv env st" and "env_ok env" and "accept_msg_ok m" and "\<not> sees_any env st (acm_iid m)"
  shows "refuses env st (snd (handle_accept env m st))"
proof -
  have "list_all2 (proposer_datagram pid) (prop_sent p) (prop_wire p)"
    using proposer_reach_inv [OF assms(1,2)] by (simp add: identity_inv_def)
  then obtain w where "proposer_datagram pid (net, sz, Accept m) w"
    using assms(3) by (metis in_set_conv_nth list_all2_nthD)
  then have "own_accept pid m" using assms(4) by (auto simp: proposer_datagram_def)
  then have "acm_ballot m < min_ballot"
    using assms(2) by (simp add: own_accept_def good_id_def min_ballot_def c_simps)
  then have "\<not> accept_ok (sees_any env st (acm_iid m)) m (known env st)"
    using assms(8) by (simp add: accept_ok_def split: option.split)
  then show ?thesis using handle_accept_out [OF assms(5-7)] by simp
qed

theorem proposer_accept_needs_any_witness:
  "refuses wit_env wit_init (snd (handle_accept wit_env (amsg wit_blocked) wit_init))"
proof (rule proposer_accept_needs_any [OF wit_blocked_reach good_id_1 [of 2, simplified] _ _ wit_inv wit_env_ok])
  show "(Acceptors_Net, 25, Accept (amsg wit_blocked)) \<in> set (prop_sent wit_blocked)"
    by (simp add: wit_blocked_fields)
  show "accept_msg_ok (amsg wit_blocked)"
    by (simp add: wit_blocked_fields accept_msg_ok_def valid_iid_def wf_accept_def in_i32_def c_simps)
  show "\<not> sees_any wit_env wit_init (acm_iid (amsg wit_blocked))"
    by (simp add: sees_any_def wit_slot wit_blocked_fields static_record_def wit_env_def)
qed simp

text \<open>The first submission of a proposer that has just started.\<close>

lemma first_submission:
  assumes pid: "0 \<le> pid" "pid < MAX_PROPOSERS"
    and start: "proposer_init 0 sock pid False proposer_static = (0, p)" and v: "\<not> submit_too_big v"
  defines "p1 \<equiv> submit_send v (submit_lock p)"
  defines "m \<equiv> amsg p1"
  shows first_submission_accept: "accept_msg_ok m" "acm_iid m = 0" "delivery_of m = \<lparr>dl_value = v, dl_size = int (length v),
      dl_iid = 0, dl_ballot = 10 + pid, dl_proposer = pid\<rparr>"
    and first_submission_sent: "prop_sent p1 = [(Acceptors_Net, int (length (encode_packet (Accept m))), Accept m)]"
    and first_submission_wakes: "\<exists>p2. proposer_deliver_callback (delivery_of m) p1 = Some p2 \<and> client_waiting p1 \<and> \<not> client_waiting p2"
proof -
  have p: "p = proposer_static\<lparr>prop_proposer_id := pid, prop_current_iid := 0, fixed_ballot := 10 + pid\<rparr>"
    using start pid by (auto simp: proposer_init_def proposer_static_def c_simps Let_def split: if_splits)
  have "area_ok (submit_lock p)"
    by (simp add: p area_ok_def submit_lock_def proposer_static_def static_accept_def static_value_area_def c_simps)
  note p1 = submit_send_eq [OF this v, folded p1_def]
  have m: "m = \<lparr>acm_iid = 0, acm_ballot = 10 + pid, acm_value_size = int (length v), acm_proposer_id = pid, acm_value = v\<rparr>"
    by (simp add: m_def p1 p filled_def submit_lock_def set_proposer_check_timeout_def
        send_proposer_buffer_def proposer_static_def static_accept_def Let_def)
  show "acm_iid m = 0" "delivery_of m = \<lparr>dl_value = v, dl_size = int (length v), dl_iid = 0, dl_ballot = 10 + pid, dl_proposer = pid\<rparr>"
    by (simp_all add: m delivery_of_def)
  show "accept_msg_ok m"
    using pid v by (simp add: m accept_msg_ok_def valid_iid_def wf_accept_def in_i32_def submit_too_big_def c_simps)
  show "prop_sent p1 = [(Acceptors_Net, int (length (encode_packet (Accept m))), Accept m)]"
    by (simp add: size_Accept m) (simp add: p1 p filled_def submit_lock_def set_proposer_check_timeout_def
        send_proposer_buffer_def proposer_static_def static_accept_def c_simps Let_def)
  show "\<exists>p2. proposer_deliver_callback (delivery_of m) p1 = Some p2 \<and> client_waiting p1 \<and> \<not> client_waiting p2"
    by (simp add: deliver_cases delivery_of_def m) (simp add: p1 p filled_def submit_lock_def
        set_proposer_check_timeout_def send_proposer_buffer_def proposer_static_def frame Let_def)
qed

text \<open>Without failures the fast path works end to end: a client submits a value, its proposer sends
  one accept, every acceptor that answered the leader's prepare and then got its any message for the
  instance accepts it and reports it, the three learn messages make a learner deliver exactly that
  value, and the delivery wakes the client.\<close>

theorem fast_path_delivers:
  assumes env: "env_ok env" "empty_db env db0" and pid: "0 \<le> pid" "pid < MAX_PROPOSERS"
    and start: "proposer_init 0 sock pid False proposer_static = (0, p)" and v: "\<not> submit_too_big v"
    and b: "2 * MAX_PROPOSERS \<le> b" "in_i32 b"
  defines "p1 \<equiv> submit_send v (submit_lock p)"
  defines "m \<equiv> amsg p1"
  shows "prop_sent p1 = [(Acceptors_Net, int (length (encode_packet (Accept m))), Accept m)]
    \<and> (\<forall>a\<in>acceptor_ids. \<exists>t.
         acceptor_run env [Prepare_Batch [\<lparr>pm_iid = 0, pm_ballot = b\<rparr>], Anyval b [0], Accept m] (acceptor_init a db0) = Some t
         \<and> learn_datagram (learn_of_accept a m) \<in> set (acc_sent t))
    \<and> (\<exists>d p2. delivered (learner_run (map (\<lambda>a. learn_of_accept a m) [0, 1, 2])) = [d] \<and> dl_value d = v
         \<and> proposer_deliver_callback d p1 = Some p2 \<and> client_waiting p1 \<and> \<not> client_waiting p2)"
proof (intro conjI ballI)
  note sub = first_submission [OF pid start v, folded p1_def, folded m_def]
  show "prop_sent p1 = [(Acceptors_Net, int (length (encode_packet (Accept m))), Accept m)]" by (rule sub(4))
  {
    fix a assume a: "a \<in> acceptor_ids"
    then have "in_i32 a" by (simp add: acceptor_ids_def in_i32_def c_simps)
    moreover have "prepare_ok \<lparr>pm_iid = 0, pm_ballot = b\<rparr>"
      using b by (simp add: prepare_ok_def valid_iid_def c_simps)
    ultimately obtain s where s: "acceptor_run env [Prepare_Batch [\<lparr>pm_iid = 0, pm_ballot = b\<rparr>]] (acceptor_init a db0) = Some s"
      "acc_inv env s" "ar_iid (slot s 0) = 0" "acceptor_id s = a" "\<forall>f. known env s 0 = Some f \<longrightarrow> fl_ballot f = b"
      using prepared_acceptor [OF env, of a "\<lparr>pm_iid = 0, pm_ballot = b\<rparr>"] by auto
    obtain t where "acceptor_run env [Anyval b [0], Accept m] s = Some t"
      "acc_sent t = acc_sent s @ [learn_datagram (learn_of_accept a m)]"
      using any_accept_round [OF s(2) env(1), of 0 b m] s b sub(1,2) by (auto simp: valid_iid_def)
    then show "\<exists>t. acceptor_run env [Prepare_Batch [\<lparr>pm_iid = 0, pm_ballot = b\<rparr>], Anyval b [0], Accept m] (acceptor_init a db0) = Some t
         \<and> learn_datagram (learn_of_accept a m) \<in> set (acc_sent t)"
      using acceptor_run_append [OF s(1), of "[Anyval b [0], Accept m]"] by auto
  }
  have "delivered (learner_run (map (\<lambda>a. learn_of_accept a m) [0, 1, 2])) = [delivery_of m]"
    using sub(1) by (intro three_learns_deliver [OF sub(2)]) (simp add: accept_msg_ok_def)
  then show "\<exists>d p2. delivered (learner_run (map (\<lambda>a. learn_of_accept a m) [0, 1, 2])) = [d] \<and> dl_value d = v
         \<and> proposer_deliver_callback d p1 = Some p2 \<and> client_waiting p1 \<and> \<not> client_waiting p2"
    using sub(3,5) by auto
qed

theorem fast_path_delivers_witness:
  "\<exists>t. acceptor_run wit_env
     [Prepare_Batch [\<lparr>pm_iid = 0, pm_ballot = 21\<rparr>], Anyval 21 [0], Accept (amsg wit_blocked)]
     (acceptor_init 2 (\<lambda>_. None)) = Some t
     \<and> learn_datagram (learn_of_accept 2 (amsg wit_blocked)) \<in> set (acc_sent t)"
proof -
  have start: "proposer_init 0 3 1 False proposer_static = (0, wit_prop)"
    by (simp add: wit_prop_def proposer_init_def Let_def)
  have b: "2 * MAX_PROPOSERS \<le> 21" "in_i32 21" "(0::int) \<le> 1" "1 < MAX_PROPOSERS" "2 \<in> acceptor_ids"
    by (simp_all add: c_simps in_i32_def acceptor_ids_def)
  show ?thesis
    using fast_path_delivers [OF wit_env_ok wit_empty b(3,4) start wit_not_big b(1,2)] b(5)
    unfolding wit_blocked_def by blast
qed

text \<open>C1. The fast path from the start of every process: the leader's first message prepares its window,
  each acceptor answers it with one datagram of promises, the third of these in any order makes the
  leader send one any message for the whole window, and an acceptor that got both messages accepts
  the accept a client's submission makes its proposer send; the three reports, in any order, make a
  learner deliver exactly the submitted value, and the delivery wakes the client.\<close>

theorem fast_path_from_start:
  assumes env: "env_ok env" "empty_db env db0"
    and lid: "0 \<le> lid" "lid < MAX_PROPOSERS" and pid: "0 \<le> pid" "pid < MAX_PROPOSERS"
    and start: "proposer_init 0 sock pid False proposer_static = (0, p)" and v: "\<not> submit_too_big v"
    and order: "distinct [a0, a1, a2]" "a0 < 3" "a1 < 3" "a2 < 3"
  defines "l0 \<equiv> snd (leader_init lid leader_static)" and "b \<equiv> 2 * MAX_PROPOSERS + lid"
    and "p1 \<equiv> submit_send v (submit_lock p)"
  defines "m \<equiv> amsg p1" and "ps \<equiv> empty_promises start_window b"
  shows "lead_sent l0 = [prep_datagram (start_prepares b)]
    \<and> (\<exists>l3. ofold leader_step [Promises (int a0) ps, Promises (int a1) ps, Promises (int a2) ps] l0 = Some l3
        \<and> lead_sent l3 = lead_sent l0 @ [any_datagram b start_window])
    \<and> prop_sent p1 = [(Acceptors_Net, int (length (encode_packet (Accept m))), Accept m)]
    \<and> (\<forall>a\<in>acceptor_ids. \<exists>s t. acceptor_run env [Prepare_Batch (start_prepares b)] (acceptor_init a db0) = Some s
        \<and> acc_sent s = [first_promises a b]
        \<and> acceptor_run env [Anyval b start_window, Accept m] s = Some t \<and> sent_learns t = [learn_of_accept a m])
    \<and> (\<exists>d p2. delivered (learner_run (map (\<lambda>a. learn_of_accept (int a) m) [a0, a1, a2])) = [d] \<and> dl_value d = v
        \<and> proposer_deliver_callback d p1 = Some p2 \<and> client_waiting p1 \<and> \<not> client_waiting p2)"
proof -
  have lead: "in_bounds lid 0" and b: "b = 20 + lid" "2 * MAX_PROPOSERS \<le> b" "in_i32 b" "0 \<le> b"
    using lid by (simp_all add: in_bounds_def b_def in_i32_def c_simps)
  note sub = first_submission [OF pid start v, folded p1_def, folded m_def]
  have "lead_sent l0 = [prep_datagram (start_prepares b)]"
    using leader_init_sent [OF lead] by (simp add: l0_def b(1) start_prepares_def start_window_def del: upto_rec_numeral)
  moreover have "\<exists>l3. ofold leader_step [Promises (int a0) ps, Promises (int a1) ps, Promises (int a2) ps] l0 = Some l3
      \<and> lead_sent l3 = lead_sent l0 @ [any_datagram b start_window]"
    using three_promise_batches [OF lead order] by (simp add: l0_def ps_def b(1))
  moreover have "\<exists>s t. acceptor_run env [Prepare_Batch (start_prepares b)] (acceptor_init a db0) = Some s
      \<and> acc_sent s = [first_promises a b]
      \<and> acceptor_run env [Anyval b start_window, Accept m] s = Some t \<and> sent_learns t = [learn_of_accept a m]"
    if "a \<in> acceptor_ids" for a
  proof -
    have "in_i32 a" using that by (simp add: acceptor_ids_def in_i32_def c_simps)
    from acceptor_from_start [OF env this b(4,3) sub(1,2)] show ?thesis .
  qed
  moreover note three_learns_any_order [OF order sub(2,1)] sub(3-5)
  ultimately show ?thesis by auto
qed

theorem fast_path_from_start_witness:
  "\<exists>l3. ofold leader_step (map (\<lambda>a. Promises a (empty_promises start_window 21)) [2, 0, 1]) (snd (leader_init 1 leader_static)) = Some l3
    \<and> any_datagram 21 start_window \<in> set (lead_sent l3)
    \<and> map dl_value (delivered (learner_run (map (\<lambda>a. learn_of_accept a (amsg wit_blocked)) [2, 0, 1]))) = [[65]]"
proof -
  have start: "proposer_init 0 3 1 False proposer_static = (0, wit_prop)"
    by (simp add: wit_prop_def proposer_init_def Let_def)
  have ids: "(0::int) \<le> 1" "1 < MAX_PROPOSERS" and b: "2 * MAX_PROPOSERS + 1 = 21" by (simp_all add: c_simps)
  have order: "distinct [2, 0, 1 :: nat]" "2 < (3::nat)" "0 < (3::nat)" "1 < (3::nat)" by simp_all
  from fast_path_from_start [OF wit_env_ok wit_empty ids ids start wit_not_big order, folded wit_blocked_def, unfolded b]
  show ?thesis by auto
qed

section \<open>Where agreement is lost\<close>

text \<open>C33. Agreement does not survive a repeated datagram: when the network delivers the leader's any
  message a second time after an accept, every acceptor forgets the value it accepted and accepts
  another proposer's, so that for one instance one learner delivers the first value and another
  learner the second.\<close>

theorem duplicate_any_breaks_agreement:
  assumes env: "env_ok env" "empty_db env db0" and b: "2 * MAX_PROPOSERS \<le> b" "in_i32 b"
    and A: "accept_msg_ok A" "acm_iid A = 0" "acm_ballot A \<le> b"
    and B: "accept_msg_ok B" "acm_iid B = 0" "acm_value A \<noteq> acm_value B"
  defines "trace \<equiv> [Prepare_Batch [\<lparr>pm_iid = 0, pm_ballot = b\<rparr>], Anyval b [0], Accept A, Anyval b [0], Accept B]"
  shows "(\<forall>a\<in>acceptor_ids. \<exists>t. acceptor_run env trace (acceptor_init a db0) = Some t
        \<and> {learn_datagram (learn_of_accept a A), learn_datagram (learn_of_accept a B)} \<subseteq> set (acc_sent t))
    \<and> (\<exists>d d'. delivered (learner_run (map (\<lambda>a. learn_of_accept a A) [0, 1, 2])) = [d]
         \<and> delivered (learner_run (map (\<lambda>a. learn_of_accept a B) [0, 1, 2])) = [d']
         \<and> dl_iid d = dl_iid d' \<and> dl_value d \<noteq> dl_value d')"
proof (intro conjI ballI)
  fix a assume a: "a \<in> acceptor_ids"
  then have "in_i32 a" by (simp add: acceptor_ids_def in_i32_def c_simps)
  moreover have "prepare_ok \<lparr>pm_iid = 0, pm_ballot = b\<rparr>"
    using b by (simp add: prepare_ok_def valid_iid_def c_simps)
  ultimately obtain s where s: "acceptor_run env [Prepare_Batch [\<lparr>pm_iid = 0, pm_ballot = b\<rparr>]] (acceptor_init a db0) = Some s"
    "acc_inv env s" "ar_iid (slot s 0) = 0" "acceptor_id s = a" "\<forall>f. known env s 0 = Some f \<longrightarrow> fl_ballot f = b"
    using prepared_acceptor [OF env, of a "\<lparr>pm_iid = 0, pm_ballot = b\<rparr>"] by auto
  have v: "valid_iid 0" by (simp add: valid_iid_def)
  obtain t where t: "acceptor_run env [Anyval b [0], Accept A] s = Some t" "acc_inv env t" "ar_iid (slot t 0) = 0"
    "known env t 0 = Some (accept_flat A)" "acceptor_id t = a"
    "acc_sent t = acc_sent s @ [learn_datagram (learn_of_accept a A)]"
    using any_accept_round [OF s(2) env(1) v b(2), of A] s(3,4,5) A by auto
  obtain u where u: "acceptor_run env [Anyval b [0], Accept B] t = Some u"
    "acc_sent u = acc_sent t @ [learn_datagram (learn_of_accept a B)]"
    using any_accept_round [OF t(2) env(1) v b(2), of B] t(3-5) A(3) B by (auto simp: accept_flat_def)
  have "acceptor_run env trace (acceptor_init a db0) = Some u"
    using acceptor_run_append [OF s(1), of "[Anyval b [0], Accept A] @ [Anyval b [0], Accept B]"]
      acceptor_run_append [OF t(1), of "[Anyval b [0], Accept B]"] u(1) by (simp add: trace_def)
  then show "\<exists>t. acceptor_run env trace (acceptor_init a db0) = Some t
      \<and> {learn_datagram (learn_of_accept a A), learn_datagram (learn_of_accept a B)} \<subseteq> set (acc_sent t)"
    using t(6) u(2) by auto
next
  show "\<exists>d d'. delivered (learner_run (map (\<lambda>a. learn_of_accept a A) [0, 1, 2])) = [d]
         \<and> delivered (learner_run (map (\<lambda>a. learn_of_accept a B) [0, 1, 2])) = [d']
         \<and> dl_iid d = dl_iid d' \<and> dl_value d \<noteq> dl_value d'"
    using three_learns_deliver [of A] three_learns_deliver [of B] A B
    by (simp add: accept_msg_ok_def delivery_of_def)
qed

theorem duplicate_any_breaks_agreement_witness:
  "\<exists>d d'. delivered (learner_run (map (\<lambda>a. learn_of_accept a wit_A) [0, 1, 2])) = [d]
     \<and> delivered (learner_run (map (\<lambda>a. learn_of_accept a wit_B) [0, 1, 2])) = [d']
     \<and> dl_iid d = dl_iid d' \<and> dl_value d \<noteq> dl_value d'"
proof -
  have ok: "2 * MAX_PROPOSERS \<le> 21" "in_i32 21" "accept_msg_ok wit_A" "acm_iid wit_A = 0" "acm_ballot wit_A \<le> 21"
    "accept_msg_ok wit_B" "acm_iid wit_B = 0" "acm_value wit_A \<noteq> acm_value wit_B"
    by (simp_all add: wit_A_def wit_B_def accept_msg_ok_def valid_iid_def wf_accept_def in_i32_def c_simps)
  show ?thesis using duplicate_any_breaks_agreement [OF wit_env_ok wit_empty ok] by simp
qed

end
